(* ===== verification/GoBase.thy ===== *)
theory GoBase
  imports Main "HOL-Library.Word" "HOL-Library.Char_ord" "HOL-Library.List_Lexorder"
begin

text \<open>
  The prelude of the development: the part of the Go language and of its standard library that
  every component uses.

  \<^item> A Go \<open>byte\<close> is a \<open>char\<close> (eight bits), and a Go \<open>string\<close> and a Go \<open>[]byte\<close> are both a
    list of bytes, so the conversions \<open>string(b)\<close> and \<open>[]byte(s)\<close> are the identity.
  \<^item> \<open>uint16\<close>, \<open>uint32\<close>, \<open>uint64\<close>, \<open>int32\<close> and \<open>int64\<close> values are words; positions inside a
    slice are natural numbers.
  \<^item> A Go function with an \<open>error\<close> result returns a value of type \<open>res\<close>: \<open>Ok\<close> a value,
    \<open>Err\<close> an error, or \<open>Panic\<close>, the run-time panic of an index or slice expression that is
    out of range. Indexing and slicing are \<open>idx\<close> and \<open>slice\<close>, so every bounds check that the
    source forgets shows as a reachable \<open>Panic\<close>.
  \<^item> An error made with \<open>fmt.Errorf\<close> is kept as its format and its arguments; its text is
    computed in \<open>GoFmt\<close>.
  \<^item> \<open>encoding/binary\<close> is \<open>le_bytes\<close> and \<open>le_val\<close> at the widths the wire formats use.
\<close>

unbundle bit_operations_syntax

named_theorems bounds_simps \<open>the bounds checks of indexing and slicing, discharged\<close>
named_theorems codec_simps \<open>encoding followed by decoding\<close>

type_synonym byte = char
type_synonym bytes = "char list"
type_synonym u8 = "8 word"
type_synonym u16 = "16 word"
type_synonym u32 = "32 word"
type_synonym u64 = "64 word"

abbreviation NUL :: byte where "NUL \<equiv> CHR 0x00"

section \<open>Errors and results\<close>

datatype go_err =
    EOF
  | ErrUnexpectedEOF
  | SysErr string
  | Errorf string "go_arg list"
  | SwitchPlanError string "string list" go_err
and go_arg =
    AStr string
  | AInt int
  | AByte byte
  | AStrs "string list"
  | AErr go_err
  | AWrap go_err

text \<open>\<open>errors.Is(err, io.EOF)\<close>: only arguments of the verb \<open>%w\<close> are unwrapped.\<close>

fun errors_Is_EOF :: "go_err \<Rightarrow> bool" and arg_Is_EOF :: "go_arg \<Rightarrow> bool" where
  "errors_Is_EOF EOF = True"
| "errors_Is_EOF (Errorf f as) = list_ex arg_Is_EOF as"
| "errors_Is_EOF _ = False"
| "arg_Is_EOF (AWrap e) = errors_Is_EOF e"
| "arg_Is_EOF _ = False"

datatype 'a res = Ok 'a | Err go_err | Panic

fun bindR :: "'a res \<Rightarrow> ('a \<Rightarrow> 'b res) \<Rightarrow> 'b res" where
  "bindR (Ok x) k = k x"
| "bindR (Err e) k = Err e"
| "bindR Panic k = Panic"

text \<open>\<open>if err != nil { return fmt.Errorf("...: %w", err) }\<close>.\<close>

fun wrapR :: "(go_err \<Rightarrow> go_err) \<Rightarrow> 'a res \<Rightarrow> 'a res" where
  "wrapR f (Ok x) = Ok x"
| "wrapR f (Err e) = Err (f e)"
| "wrapR f Panic = Panic"

lemma bindR_eq_Ok_iff: "bindR m k = Ok y \<longleftrightarrow> (\<exists>x. m = Ok x \<and> k x = Ok y)"
  by (cases m) auto

lemma wrapR_eq_Ok_iff [simp]: "wrapR f m = Ok y \<longleftrightarrow> m = Ok y"
  by (cases m) auto

lemma wrapR_eq_Panic_iff [simp]: "wrapR f m = Panic \<longleftrightarrow> m = Panic"
  by (cases m) auto

lemma bindR_eq_Panic_iff:
  "bindR m k = Panic \<longleftrightarrow> m = Panic \<or> (\<exists>x. m = Ok x \<and> k x = Panic)"
  by (cases m) auto

lemma bindR_not_Panic [intro]:
  assumes "m \<noteq> Panic" and "\<And>x. m = Ok x \<Longrightarrow> k x \<noteq> Panic"
  shows "bindR m k \<noteq> Panic"
  using assms by (cases m) auto

lemma bindR_cong [fundef_cong]:
  "m = m' \<Longrightarrow> (\<And>x. m' = Ok x \<Longrightarrow> k x = k' x) \<Longrightarrow> bindR m k = bindR m' k'"
  by (cases m') auto

section \<open>Indexing and slicing\<close>

definition idx :: "'a list \<Rightarrow> nat \<Rightarrow> 'a res" where
  "idx b i = (if i < length b then Ok (b ! i) else Panic)"

definition slice :: "'a list \<Rightarrow> nat \<Rightarrow> nat \<Rightarrow> 'a list res" where
  "slice b i j = (if i \<le> j \<and> j \<le> length b then Ok (take (j - i) (drop i b)) else Panic)"

lemma idx_Ok [bounds_simps]: "i < length b \<Longrightarrow> idx b i = Ok (b ! i)"
  by (simp add: idx_def)

lemma slice_Ok [bounds_simps]:
  "i \<le> j \<Longrightarrow> j \<le> length b \<Longrightarrow> slice b i j = Ok (take (j - i) (drop i b))"
  by (simp add: slice_def)

lemma idx_eq_Ok_iff: "idx b i = Ok x \<longleftrightarrow> i < length b \<and> x = b ! i"
  by (auto simp: idx_def)

lemma slice_eq_Ok_iff:
  "slice b i j = Ok x \<longleftrightarrow> i \<le> j \<and> j \<le> length b \<and> x = take (j - i) (drop i b)"
  by (auto simp: slice_def)

lemma idx_append [codec_simps]: "idx (p @ x # q) (length p) = Ok x"
  by (simp add: idx_def)

lemma slice_append [codec_simps]:
  "i = length p \<Longrightarrow> j = length p + length m \<Longrightarrow> slice (p @ m @ q) i j = Ok m"
  by (simp add: slice_def)

text \<open>\<open>index_from b i c\<close> is the first position from \<open>i\<close> on that holds \<open>c\<close>; the source
  writes this loop out several times.\<close>

fun index_of :: "'a \<Rightarrow> 'a list \<Rightarrow> nat option" where
  "index_of c [] = None"
| "index_of c (x # xs) = (if x = c then Some 0 else map_option Suc (index_of c xs))"

definition index_from :: "'a list \<Rightarrow> nat \<Rightarrow> 'a \<Rightarrow> nat option" where
  "index_from b i c = map_option (\<lambda>k. i + k) (index_of c (drop i b))"

lemma index_of_None_iff: "index_of c xs = None \<longleftrightarrow> c \<notin> set xs"
  by (induction xs) auto

lemma index_of_SomeD:
  "index_of c xs = Some i \<Longrightarrow> i < length xs \<and> xs ! i = c \<and> c \<notin> set (take i xs)"
  by (induction xs arbitrary: i) (auto split: if_splits)

lemma index_of_append [simp]: "c \<notin> set p \<Longrightarrow> index_of c (p @ c # q) = Some (length p)"
  by (induction p) auto

lemma index_from_SomeD:
  assumes "index_from b i c = Some j"
  shows "i \<le> j \<and> j < length b \<and> b ! j = c \<and> c \<notin> set (take (j - i) (drop i b))"
proof -
  from assms obtain k where k: "index_of c (drop i b) = Some k" and j: "j = i + k"
    by (auto simp: index_from_def)
  from index_of_SomeD [OF k] j show ?thesis by auto
qed

lemma index_from_drop:
  assumes "index_from b i c = Some j"
  shows "drop i b = take (j - i) (drop i b) @ c # drop (j + 1) b"
proof -
  note j = index_from_SomeD [OF assms]
  have "drop i b = take (j - i) (drop i b) @ drop (j - i) (drop i b)" by (rule append_take_drop_id [symmetric])
  also have "drop (j - i) (drop i b) = drop j b" using j by simp
  also have "drop j b = c # drop (j + 1) b" using j Cons_nth_drop_Suc [of j b] by simp
  finally show ?thesis .
qed

lemma index_from_append [codec_simps]:
  assumes "i = length p" and "c \<notin> set m"
  shows "index_from (p @ m @ c # q) i c = Some (length p + length m)"
  using assms by (simp add: index_from_def)

section \<open>Fixed-width integers on the wire\<close>

primrec le_bytes :: "nat \<Rightarrow> nat \<Rightarrow> bytes" where
  "le_bytes 0 n = []"
| "le_bytes (Suc k) n = char_of n # le_bytes k (n div 256)"

primrec le_val :: "bytes \<Rightarrow> nat" where
  "le_val [] = 0"
| "le_val (b # bs) = of_char b + 256 * le_val bs"

lemma length_le_bytes [simp]: "length (le_bytes k n) = k"
  by (induction k arbitrary: n) auto

lemma le_val_le_bytes [simp]: "le_val (le_bytes k n) = n mod 256 ^ k"
  by (induction k arbitrary: n) (simp_all add: mod_mult2_eq)

lemma le_val_less: "le_val bs < 256 ^ length bs"
proof (induction bs)
  case (Cons b bs)
  have "of_char b + 256 * le_val bs < 256 * Suc (le_val bs)"
    using nat_of_char_less_256 [of b] by (simp del: nat_of_char_less_256)
  also have "\<dots> \<le> 256 * 256 ^ length bs"
    using Cons by (intro mult_left_mono) auto
  finally show ?case by simp
qed simp

lemma le_bytes_le_val: "length bs = k \<Longrightarrow> le_bytes k (le_val bs) = bs"
proof (induction bs arbitrary: k)
  case (Cons b bs)
  have "char_of (of_char b + 256 * le_val bs) = b"
    by (metis char_of_char char_of_mod_256 mod_less mod_mult_self2 nat_of_char_less_256)
  with Cons show ?case by auto
qed simp

text \<open>\<open>binary.LittleEndian\<close> and \<open>binary.BigEndian\<close> of \<open>encoding/binary\<close>.\<close>

definition put_le16 :: "u16 \<Rightarrow> bytes" where "put_le16 w = le_bytes 2 (unat w)"
definition put_le32 :: "u32 \<Rightarrow> bytes" where "put_le32 w = le_bytes 4 (unat w)"
definition put_le64 :: "u64 \<Rightarrow> bytes" where "put_le64 w = le_bytes 8 (unat w)"
definition put_be32 :: "u32 \<Rightarrow> bytes" where "put_be32 w = rev (le_bytes 4 (unat w))"

definition le_uint16 :: "bytes \<Rightarrow> u16" where "le_uint16 b = word_of_nat (le_val b)"
definition le_uint32 :: "bytes \<Rightarrow> u32" where "le_uint32 b = word_of_nat (le_val b)"
definition le_uint64 :: "bytes \<Rightarrow> u64" where "le_uint64 b = word_of_nat (le_val b)"
definition be_uint32 :: "bytes \<Rightarrow> u32" where "be_uint32 b = word_of_nat (le_val (rev b))"

lemma length_put [simp]:
  "length (put_le16 w2) = 2" "length (put_le32 w4) = 4"
  "length (put_le64 w8) = 8" "length (put_be32 w4) = 4"
  by (simp_all add: put_le16_def put_le32_def put_le64_def put_be32_def)

lemma unat_mod_bytes:
  "unat (w2 :: u16) mod 65536 = unat w2" "unat (w4 :: u32) mod 4294967296 = unat w4"
  "unat (w8 :: u64) mod 18446744073709551616 = unat w8"
  using unsigned_less [of w2, where ?'a = nat] unsigned_less [of w4, where ?'a = nat]
    unsigned_less [of w8, where ?'a = nat] by simp_all

lemma get_put [simp, codec_simps]:
  "le_uint16 (put_le16 w2) = w2" "le_uint32 (put_le32 w4) = w4"
  "le_uint64 (put_le64 w8) = w8" "be_uint32 (put_be32 w4) = w4"
  by (simp_all add: le_uint16_def put_le16_def le_uint32_def put_le32_def le_uint64_def
      put_le64_def be_uint32_def put_be32_def unat_mod_bytes)

lemma put_get32:
  assumes "length b = 4"
  shows "put_le32 (le_uint32 b) = b" and "put_be32 (be_uint32 b) = b"
proof -
  have "le_val b < 4294967296" and "le_val (rev b) < 4294967296"
    using le_val_less [of b] le_val_less [of "rev b"] assms by simp_all
  then show "put_le32 (le_uint32 b) = b" and "put_be32 (be_uint32 b) = b"
    using le_bytes_le_val [of b 4] le_bytes_le_val [of "rev b" 4] assms
    by (simp_all add: put_le32_def le_uint32_def put_be32_def be_uint32_def unat_of_nat)
qed

lemma unat_word_small:
  "n < 2 ^ 8 \<Longrightarrow> unat (word_of_nat n :: u8) = n" "n < 2 ^ 16 \<Longrightarrow> unat (word_of_nat n :: u16) = n"
  "n < 2 ^ 32 \<Longrightarrow> unat (word_of_nat n :: u32) = n" "n < 2 ^ 64 \<Longrightarrow> unat (word_of_nat n :: u64) = n"
  by (simp_all add: unat_of_nat)

lemma unat_le_uint32: "length b = 4 \<Longrightarrow> unat (le_uint32 b) = le_val b"
  using le_val_less [of b] by (simp add: le_uint32_def unat_of_nat)

lemma unat_be_uint32: "length b = 4 \<Longrightarrow> unat (be_uint32 b) = le_val (rev b)"
  using le_val_less [of "rev b"] by (simp add: be_uint32_def unat_of_nat)

text \<open>A byte as a number modulo 256.\<close>

definition byte_of :: "u8 \<Rightarrow> byte" where "byte_of w = char_of (unat w)"
definition u8_of :: "byte \<Rightarrow> u8" where "u8_of b = word_of_nat (of_char b)"

lemma u8_of_byte_of [simp]: "u8_of (byte_of w) = w"
  using unsigned_less [of w, where ?'a = nat] by (simp add: u8_of_def byte_of_def)

lemma byte_of_u8_of [simp]: "byte_of (u8_of b) = b"
  by (simp add: u8_of_def byte_of_def unat_of_nat)

section \<open>Values at a position of a slice\<close>

text \<open>What is left of a slice at a position: decoders are followed by keeping track of it.\<close>

definition rest_at :: "'a list \<Rightarrow> nat \<Rightarrow> 'a list \<Rightarrow> bool" where
  "rest_at b i r \<longleftrightarrow> i \<le> length b \<and> drop i b = r"

lemma rest_at_start: "rest_at b 0 b"
  by (simp add: rest_at_def)

lemma rest_at_le: "rest_at b i (m @ q) \<Longrightarrow> n = length m \<Longrightarrow> i + n \<le> length b"
  by (auto simp: rest_at_def dest!: arg_cong [where f = length])

lemma rest_at_slice: "rest_at b i (m @ q) \<Longrightarrow> n = length m \<Longrightarrow> slice b i (i + n) = Ok m"
  using rest_at_le [of b i m q n] by (simp add: slice_def rest_at_def)

lemma rest_at_next: "rest_at b i (m @ q) \<Longrightarrow> n = length m \<Longrightarrow> rest_at b (i + n) q"
  using rest_at_le [of b i m q n] drop_drop [of n i b] by (simp add: rest_at_def add.commute)

lemma rest_at_Cons: "rest_at b i (x # q) \<Longrightarrow> i < length b \<and> b ! i = x \<and> rest_at b (i + 1) q"
  using rest_at_le [of b i "[x]" q 1] rest_at_next [of b i "[x]" q 1]
  by (auto simp: rest_at_def) (metis Suc_le_lessD nth_via_drop)

lemma rest_at_length: "rest_at b i q \<Longrightarrow> length b = i + length q"
  by (auto simp: rest_at_def)

text \<open>The contract between an encoder that appends and a decoder that reads at a position and returns
  the position behind the value.\<close>

locale codec =
  fixes enc :: "'a \<Rightarrow> bytes" and dec :: "bytes \<Rightarrow> nat \<Rightarrow> ('a \<times> nat) res" and valid :: "'a \<Rightarrow> bool"
  assumes dec_enc: "valid x \<Longrightarrow> dec (p @ enc x @ q) (length p) = Ok (x, length p + length (enc x))"
begin

lemma enc_prefix_free:
  assumes "valid x" and "valid y" and "enc x @ p = enc y @ q"
  shows "x = y \<and> p = q"
proof -
  have "dec (enc x @ p) 0 = Ok (x, length (enc x))" using dec_enc [OF assms(1), of "[]" p] by simp
  moreover have "dec (enc x @ p) 0 = Ok (y, length (enc y))" using dec_enc [OF assms(2), of "[]" q] assms(3) by simp
  ultimately show ?thesis using assms(3) by simp
qed

lemma dec_at:
  assumes "valid x" and "rest_at b i (enc x @ q)"
  shows "dec b i = Ok (x, i + length (enc x)) \<and> rest_at b (i + length (enc x)) q"
proof -
  have "b = take i b @ enc x @ q" and "length (take i b) = i"
    using assms(2) append_take_drop_id [of i b] by (auto simp: rest_at_def)
  then show ?thesis using dec_enc [OF assms(1), of "take i b" q] rest_at_next [OF assms(2)] by simp
qed

end

section \<open>Strings\<close>

text \<open>\<open>strconv.Itoa\<close>.\<close>

definition digit_char :: "nat \<Rightarrow> char" where
  "digit_char d = char_of (48 + d)"

fun nat_itoa :: "nat \<Rightarrow> string" where
  "nat_itoa n = (if n < 10 then [digit_char n] else nat_itoa (n div 10) @ [digit_char (n mod 10)])"

declare nat_itoa.simps [simp del]

definition Itoa :: "int \<Rightarrow> string" where
  "Itoa i = (if i < 0 then CHR ''-'' # nat_itoa (nat (- i)) else nat_itoa (nat i))"

lemma digit_char_not_NUL: "d < 10 \<Longrightarrow> digit_char d \<noteq> CHR 0x00"
proof
  assume "d < 10" and "digit_char d = CHR 0x00"
  then have "of_char (char_of (48 + d)) = (of_char (CHR 0x00) :: nat)"
    by (simp add: digit_char_def)
  with \<open>d < 10\<close> show False by simp
qed

lemma nat_itoa_no_NUL: "CHR 0x00 \<notin> set (nat_itoa n)"
proof (induction n rule: nat_itoa.induct)
  case (1 n)
  show ?case
  proof (cases "n < 10")
    case True
    then show ?thesis
      by (subst nat_itoa.simps) (simp add: digit_char_not_NUL not_sym [OF digit_char_not_NUL])
  next
    case False
    have "CHR 0x00 \<noteq> digit_char (n mod 10)"
      by (rule not_sym [OF digit_char_not_NUL]) simp
    with False 1 show ?thesis by (subst nat_itoa.simps) simp
  qed
qed

lemma Itoa_no_NUL: "CHR 0x00 \<notin> set (Itoa i)"
  by (simp add: Itoa_def nat_itoa_no_NUL)

text \<open>\<open>bytes.TrimRight(b, "\x00")\<close>.\<close>

definition trim_right_NUL :: "bytes \<Rightarrow> bytes" where
  "trim_right_NUL b = rev (dropWhile (\<lambda>c. c = CHR 0x00) (rev b))"

lemma trim_right_NUL_snoc:
  "b \<noteq> [] \<Longrightarrow> last b \<noteq> CHR 0x00 \<Longrightarrow> trim_right_NUL (b @ [CHR 0x00]) = b"
  by (cases b rule: rev_cases) (auto simp: trim_right_NUL_def)

lemma trim_right_NUL_id: "b = [] \<or> last b \<noteq> CHR 0x00 \<Longrightarrow> trim_right_NUL b = b"
  by (cases b rule: rev_cases) (auto simp: trim_right_NUL_def)

text \<open>\<open>strings.Join\<close>.\<close>

fun Join :: "string list \<Rightarrow> string \<Rightarrow> string" where
  "Join [] sep = []"
| "Join [x] sep = x"
| "Join (x # y # zs) sep = x @ sep @ Join (y # zs) sep"

text \<open>A slice extended only with values that are not in it yet: the source keeps a \<open>seen\<close> map
  beside the slice, and the map's keys are always the slice's elements.\<close>

definition add_new :: "'a list \<Rightarrow> 'a \<Rightarrow> 'a list" where
  "add_new out x = (if x \<in> set out then out else out @ [x])"

lemma set_add_new [simp]: "set (add_new out x) = insert x (set out)"
  by (auto simp: add_new_def)

lemma distinct_add_new [simp]: "distinct (add_new out x) \<longleftrightarrow> distinct out"
  by (auto simp: add_new_def)

lemma set_foldl_add_new [simp]: "set (foldl add_new out xs) = set out \<union> set xs"
  by (induction xs arbitrary: out) auto

lemma distinct_foldl_add_new [simp]: "distinct (foldl add_new out xs) \<longleftrightarrow> distinct out"
  by (induction xs arbitrary: out) auto

lemma filter_add_new: "filter P (add_new out x) = (if P x then add_new (filter P out) x else filter P out)"
  by (auto simp: add_new_def)

lemma filter_foldl_add_new: "filter P (foldl add_new out xs) = foldl add_new (filter P out) (filter P xs)"
  by (induction xs arbitrary: out) (simp_all add: filter_add_new)

text \<open>Go maps filled in a loop: a later element replaces an earlier one with the same key.\<close>

lemma foldl_upd_SomeD:
  "foldl (\<lambda>m x. m(k x \<mapsto> v x)) m0 xs n = Some y \<Longrightarrow>
   (\<exists>x \<in> set xs. k x = n \<and> y = v x) \<or> m0 n = Some y"
proof (induction xs arbitrary: m0)
  case (Cons a xs)
  from Cons.IH [of "m0(k a \<mapsto> v a)"] Cons.prems show ?case by (auto split: if_splits)
qed simp

lemma foldl_upd_None_iff:
  "foldl (\<lambda>m x. m(k x \<mapsto> v x)) m0 xs n = None \<longleftrightarrow> n \<notin> k ` set xs \<and> m0 n = None"
  by (induction xs arbitrary: m0) auto

lemma foldl_upd_other:
  "n \<notin> k ` set xs \<Longrightarrow> foldl (\<lambda>m x. m(k x \<mapsto> v x)) m0 xs n = m0 n"
  by (induction xs arbitrary: m0) auto

lemma foldl_upd_distinct:
  assumes "distinct (map k xs)" and "x \<in> set xs"
  shows "foldl (\<lambda>m x. m(k x \<mapsto> v x)) m0 xs (k x) = Some (v x)"
  using assms
proof (induction xs arbitrary: m0)
  case (Cons a xs)
  show ?case
  proof (cases "x = a")
    case True
    with Cons.prems(1) have "foldl (\<lambda>m x. m(k x \<mapsto> v x)) (m0(k a \<mapsto> v a)) xs (k a) = Some (v a)"
      by (subst foldl_upd_other) auto
    with True show ?thesis by (simp del: fun_upd_apply)
  next
    case False
    with Cons.prems Cons.IH [of "m0(k a \<mapsto> v a)"] show ?thesis by (simp del: fun_upd_apply)
  qed
qed simp

end
