(* ===== verification/Variables.thy ===== *)
theory Variables
  imports GoBase
begin

text \<open>
  \<open>internal/config/variables.go\<close>: the \<open>${VAR}\<close> templates of a target's database name. The loops
  over the index \<open>i\<close> are recursions on the rest of the string; \<open>Resolve\<close> keeps \<open>i\<close> because an
  error reports it. A template is also given an abstract syntax, a list of tokens, and both
  functions are shown to compute what the tokens mean.
\<close>

section \<open>The code\<close>

function RequiredVars_loop :: "string \<Rightarrow> string list \<Rightarrow> string list" where
  "RequiredVars_loop [] out = out"
| "RequiredVars_loop (c # s) out =
     (if c \<noteq> CHR ''$'' then RequiredVars_loop s out
      else if s \<noteq> [] \<and> hd s = CHR ''$'' then RequiredVars_loop (tl s) out
      else if s \<noteq> [] \<and> hd s = CHR ''{'' then
        (case index_of (CHR ''}'') (tl s) of
           None \<Rightarrow> out
         | Some end' \<Rightarrow>
             RequiredVars_loop (drop (end' + 1) (tl s)) (add_new out (take end' (tl s))))
      else RequiredVars_loop s out)"
  by pat_completeness auto
termination
  by (relation "measure (\<lambda>(s, out). length s)") auto

definition RequiredVars :: "string \<Rightarrow> string list" where
  "RequiredVars s = RequiredVars_loop s []"

text \<open>\<open>Resolve\<close> returns the resolved string, the missing names and the error, as the source does.
  Its loop carries the whole template \<open>s\<close> for the error texts, the index \<open>i\<close>, the rest of the
  template from \<open>i\<close> on, the string builder \<open>b\<close> and the names missing so far.\<close>

function Resolve_loop ::
  "string \<Rightarrow> (string \<rightharpoonup> string) \<Rightarrow> nat \<Rightarrow> string \<Rightarrow> string \<Rightarrow> string list
     \<Rightarrow> string \<times> string list \<times> go_err option" where
  "Resolve_loop s vars i [] b missing =
     (if missing \<noteq> []
      then ([], missing, Some (Errorf ''missing variables: %s'' [AStr (Join missing '', '')]))
      else (b, [], None))"
| "Resolve_loop s vars i (c # r) b missing =
     (if c \<noteq> CHR ''$'' then Resolve_loop s vars (i + 1) r (b @ [c]) missing
      else if r \<noteq> [] \<and> hd r = CHR ''$''
        then Resolve_loop s vars (i + 2) (tl r) (b @ [CHR ''$'']) missing
      else if r \<noteq> [] \<and> hd r = CHR ''{'' then
        (case index_of (CHR ''}'') (tl r) of
           None \<Rightarrow> ([], [], Some (Errorf ''unclosed variable reference in %q'' [AStr s]))
         | Some end' \<Rightarrow>
             (case vars (take end' (tl r)) of
                None \<Rightarrow>
                  Resolve_loop s vars (i + 2 + end' + 1) (drop (end' + 1) (tl r)) b
                    (add_new missing (take end' (tl r)))
              | Some val \<Rightarrow>
                  Resolve_loop s vars (i + 2 + end' + 1) (drop (end' + 1) (tl r)) (b @ val)
                    missing))
      else ([], [], Some (Errorf ''bare $ without ${...} in %q at index %d''
                           [AStr s, AInt (int i)])))"
  by pat_completeness auto
termination
  by (relation "measure (\<lambda>(s, vars, i, r, b, missing). length r)") auto

definition Resolve ::
  "string \<Rightarrow> (string \<rightharpoonup> string) \<Rightarrow> string \<times> string list \<times> go_err option" where
  "Resolve s vars = Resolve_loop s vars 0 s [] []"

section \<open>Templates as tokens\<close>

datatype tok = Lit char | Dollar | Var string

fun tok_ok :: "tok \<Rightarrow> bool" where
  "tok_ok (Lit c) \<longleftrightarrow> c \<noteq> CHR ''$''"
| "tok_ok Dollar \<longleftrightarrow> True"
| "tok_ok (Var n) \<longleftrightarrow> CHR ''}'' \<notin> set n"

fun tok_text :: "tok \<Rightarrow> string" where
  "tok_text (Lit c) = [c]"
| "tok_text Dollar = ''$$''"
| "tok_text (Var n) = ''${'' @ n @ ''}''"

fun tok_value :: "(string \<rightharpoonup> string) \<Rightarrow> tok \<Rightarrow> string" where
  "tok_value vars (Lit c) = [c]"
| "tok_value vars Dollar = ''$''"
| "tok_value vars (Var n) = (case vars n of None \<Rightarrow> [] | Some v \<Rightarrow> v)"

fun tok_vars :: "tok \<Rightarrow> string list" where
  "tok_vars (Var n) = [n]"
| "tok_vars _ = []"

definition template :: "tok list \<Rightarrow> string" where
  "template ts = concat (map tok_text ts)"

definition template_value :: "(string \<rightharpoonup> string) \<Rightarrow> tok list \<Rightarrow> string" where
  "template_value vars ts = concat (map (tok_value vars) ts)"

definition template_vars :: "tok list \<Rightarrow> string list" where
  "template_vars ts = foldl add_new [] (concat (map tok_vars ts))"

section \<open>The code computes what the tokens mean\<close>

lemma RequiredVars_loop_template:
  "list_all tok_ok ts \<Longrightarrow>
   RequiredVars_loop (template ts) out = foldl add_new out (concat (map tok_vars ts))"
proof (induction ts arbitrary: out)
  case (Cons t ts)
  then show ?case by (cases t) (auto simp: template_def)
qed (simp add: template_def)

lemma Resolve_loop_template:
  "list_all tok_ok ts \<Longrightarrow>
   Resolve_loop s vars i (template ts) b missing =
     (let m = foldl add_new missing (filter (\<lambda>n. n \<notin> dom vars) (concat (map tok_vars ts)))
      in if m \<noteq> []
         then ([], m, Some (Errorf ''missing variables: %s'' [AStr (Join m '', '')]))
         else (b @ template_value vars ts, [], None))"
proof (induction ts arbitrary: i b missing)
  case (Cons t ts)
  then show ?case
    by (cases t) (auto simp: template_def template_value_def Let_def domIff split: option.splits)
qed (simp add: template_def template_value_def)

text \<open>Conversely, a string on which \<open>Resolve\<close> reports neither an unclosed nor a bare \<open>$\<close> is the
  text of some tokens.\<close>

lemma template_simps [simp]:
  "template [] = []" "template (t # ts) = tok_text t @ template ts"
  by (simp_all add: template_def)

lemma Resolve_loop_complete:
  assumes "Resolve_loop s vars i r b missing = (out, m, e)" and "e = None \<or> m \<noteq> []"
  shows "\<exists>ts. list_all tok_ok ts \<and> r = template ts"
  using assms
proof (induction s vars i r b missing rule: Resolve_loop.induct)
  case (1 s vars i b missing)
  have "list_all tok_ok [] \<and> [] = template []" by simp
  then show ?case by blast
next
  case (2 s vars i c r b missing)
  consider (lit) "c \<noteq> CHR ''$''"
    | (dollar) "c = CHR ''$''" "r \<noteq> []" "hd r = CHR ''$''"
    | (var) "c = CHR ''$''" "r \<noteq> []" "hd r = CHR ''{''"
    | (bare) "c = CHR ''$''" "r = [] \<or> hd r \<noteq> CHR ''$'' \<and> hd r \<noteq> CHR ''{''"
    by blast
  then show ?case
  proof cases
    case lit
    with 2 obtain ts where "list_all tok_ok ts" and "r = template ts" by auto
    with lit have "list_all tok_ok (Lit c # ts) \<and> c # r = template (Lit c # ts)" by simp
    then show ?thesis by blast
  next
    case dollar
    with 2 obtain ts where "list_all tok_ok ts" and "tl r = template ts" by auto
    with dollar have "list_all tok_ok (Dollar # ts) \<and> c # r = template (Dollar # ts)"
      by (cases r) auto
    then show ?thesis by blast
  next
    case var
    then obtain q where r: "r = CHR ''{'' # q" by (cases r) auto
    with var 2 obtain k where k: "index_of (CHR ''}'') q = Some k"
      by (auto split: option.splits)
    with var r 2 obtain ts where ts: "list_all tok_ok ts" "drop (k + 1) q = template ts"
      by (auto split: option.splits)
    from index_of_SomeD [OF k] have "k < length q" "q ! k = CHR ''}''" "CHR ''}'' \<notin> set (take k q)"
      by auto
    then have "q = take k q @ CHR ''}'' # drop (k + 1) q"
      using id_take_nth_drop [of k q] by simp
    with ts r var \<open>CHR ''}'' \<notin> set (take k q)\<close>
    have "list_all tok_ok (Var (take k q) # ts) \<and> c # r = template (Var (take k q) # ts)"
      by simp
    then show ?thesis by blast
  next
    case bare
    with 2 show ?thesis by (auto split: if_splits)
  qed
qed

lemma template_vars_facts:
  "set (template_vars ts) = set (concat (map tok_vars ts))" "distinct (template_vars ts)"
  by (simp_all add: template_vars_def)

lemma Resolve_template:
  assumes "list_all tok_ok ts"
  shows "Resolve (template ts) vars =
    (let m = filter (\<lambda>n. n \<notin> dom vars) (template_vars ts)
     in if m \<noteq> [] then ([], m, Some (Errorf ''missing variables: %s'' [AStr (Join m '', '')]))
        else (template_value vars ts, [], None))"
  using Resolve_loop_template [OF assms, of "template ts" vars 0 "[]" "[]"]
  by (simp add: Resolve_def template_vars_def filter_foldl_add_new Let_def)

lemma RequiredVars_template:
  "list_all tok_ok ts \<Longrightarrow> RequiredVars (template ts) = template_vars ts"
  by (simp add: RequiredVars_def template_vars_def RequiredVars_loop_template)

lemma Resolve_complete:
  assumes "Resolve s vars = (r, m, e)" and "e = None \<or> m \<noteq> []"
  obtains ts where "list_all tok_ok ts" and "s = template ts"
  using assms Resolve_loop_complete [of s vars 0 s "[]" "[]"] unfolding Resolve_def by blast

text \<open>C28. Resolving a template succeeds exactly when the template is a sequence of plain
  characters, \<open>$$\<close> escapes and closed \<open>${VAR}\<close> references whose variables are all given, and the
  result is then the sequence of what these stand for.\<close>

theorem Resolve_ok_iff:
  "Resolve s vars = (r, [], None) \<longleftrightarrow>
   (\<exists>ts. list_all tok_ok ts \<and> s = template ts \<and> set (template_vars ts) \<subseteq> dom vars
         \<and> r = template_value vars ts)"
proof
  assume ok: "Resolve s vars = (r, [], None)"
  from this obtain ts where ts: "list_all tok_ok ts" "s = template ts"
    by (rule Resolve_complete) simp
  from ok Resolve_template [OF ts(1), of vars] ts
  have "set (template_vars ts) \<subseteq> dom vars \<and> r = template_value vars ts"
    by (auto simp: Let_def filter_empty_conv split: if_splits)
  with ts show "\<exists>ts. list_all tok_ok ts \<and> s = template ts \<and> set (template_vars ts) \<subseteq> dom vars
         \<and> r = template_value vars ts" by blast
next
  assume "\<exists>ts. list_all tok_ok ts \<and> s = template ts \<and> set (template_vars ts) \<subseteq> dom vars
         \<and> r = template_value vars ts"
  then obtain ts where ts: "list_all tok_ok ts" "s = template ts"
    "set (template_vars ts) \<subseteq> dom vars" "r = template_value vars ts" by blast
  then have "filter (\<lambda>n. n \<notin> dom vars) (template_vars ts) = []"
    by (auto simp: filter_empty_conv)
  with ts Resolve_template [of ts vars] show "Resolve s vars = (r, [], None)" by simp
qed

text \<open>When \<open>Resolve\<close> reports missing variables, they are exactly the variables that
  \<open>RequiredVars\<close> lists for the template and the caller did not give, each once and in the order of
  their first occurrence, and the error names them.\<close>

theorem Resolve_missing:
  assumes "Resolve s vars = (r, m, e)" and "m \<noteq> []"
  shows "m = filter (\<lambda>n. n \<notin> dom vars) (RequiredVars s) \<and> distinct m \<and> r = [] \<and>
         e = Some (Errorf ''missing variables: %s'' [AStr (Join m '', '')])"
proof -
  from assms obtain ts where ts: "list_all tok_ok ts" "s = template ts"
    using Resolve_complete by blast
  with assms Resolve_template [OF ts(1), of vars] RequiredVars_template [OF ts(1)]
  show ?thesis by (auto simp: Let_def template_vars_facts split: if_splits)
qed

theorem Resolve_missing_witness:
  "Resolve ''${A}_${B}_${A}'' [''B'' \<mapsto> ''x''] =
     ([], [''A''], Some (Errorf ''missing variables: %s'' [AStr ''A''])) \<and>
   [''A''] = filter (\<lambda>n. n \<notin> dom [''B'' \<mapsto> ''x'']) (RequiredVars ''${A}_${B}_${A}'')"
proof -
  have *: "Resolve ''${A}_${B}_${A}'' [''B'' \<mapsto> ''x''] =
     ([], [''A''], Some (Errorf ''missing variables: %s'' [AStr ''A'']))"
    by code_simp
  from * Resolve_missing [OF *] show ?thesis by blast
qed

end
