(* ===== verification/Config.thy ===== *)
theory Config
  imports Variables "HOL-Library.Multiset"
begin

text \<open>
  \<open>internal/config/config.go\<close>: the configuration, its validation and the small queries the server
  makes on it. A Go map is an association list whose order stands for the iteration order of the
  source's \<open>range\<close> loops, which Go leaves open: the theorems hold for every order. The slog warnings
  of \<open>Validate\<close> are returned beside its result. Reading a file and \<open>yaml.Unmarshal\<close> are arguments
  of \<open>Load\<close> and \<open>LoadSocketPath\<close>.
\<close>

section \<open>Identifiers\<close>

definition alnum_us :: "char \<Rightarrow> bool" where
  "alnum_us c \<longleftrightarrow> CHR ''A'' \<le> c \<and> c \<le> CHR ''Z'' \<or> CHR ''a'' \<le> c \<and> c \<le> CHR ''z''
     \<or> CHR ''0'' \<le> c \<and> c \<le> CHR ''9'' \<or> c = CHR ''_''"

text \<open>\<open>identRE\<close>: one character of the first class, then at most 62 of the second.\<close>

definition ValidIdentifier :: "string \<Rightarrow> bool" where
  "ValidIdentifier s \<longleftrightarrow>
     (case s of [] \<Rightarrow> False
      | c # r \<Rightarrow> alnum_us c \<and> length r \<le> 62
                 \<and> list_all (\<lambda>x. alnum_us x \<or> x = CHR ''$'' \<or> x = CHR ''-'') r)"

section \<open>The configuration\<close>

record ForwardTarget =
  ft_Host :: string
  ft_Port :: int

record Target =
  t_Name :: string
  t_Host :: string
  t_Port :: int
  t_ForwardTo :: string
  t_User :: string
  t_Password :: string
  t_Database :: string
  t_AuthSource :: string
  t_SSLMode :: string

record DatabaseCfg =
  d_Adapter :: string
  d_VirtualName :: string
  d_Targets :: "Target list"

record Config =
  c_ListenHost :: string
  c_ListenPorts :: "(string \<times> int) list"
  c_ControlSocket :: string
  c_ForwardTargets :: "(string \<times> ForwardTarget) list"
  c_Databases :: "DatabaseCfg list"

definition AdapterPostgres :: string where "AdapterPostgres = ''postgres''"
definition AdapterMySQL :: string where "AdapterMySQL = ''mysql''"
definition AdapterMongo :: string where "AdapterMongo = ''mongodb''"
definition SSLModeDisable :: string where "SSLModeDisable = ''disable''"
definition SSLModeRequire :: string where "SSLModeRequire = ''require''"

definition SupportedSSLModes :: "string list" where
  "SupportedSSLModes = [SSLModeDisable, SSLModeRequire]"

definition SupportedAdapters :: "string list" where
  "SupportedAdapters = [AdapterMongo, AdapterMySQL, AdapterPostgres]"

definition DefaultListenHost :: string where "DefaultListenHost = ''127.0.0.1''"
definition DefaultControlSocket :: string where "DefaultControlSocket = ''/tmp/dbpivot.sock''"

definition ListenHostOrDefault :: "Config \<Rightarrow> string" where
  "ListenHostOrDefault cfg = (if c_ListenHost cfg = [] then DefaultListenHost else c_ListenHost cfg)"

definition ListenPort :: "Config \<Rightarrow> string \<Rightarrow> int option" where
  "ListenPort cfg adapter = map_of (c_ListenPorts cfg) adapter"

definition UsedAdapters :: "Config \<Rightarrow> string list" where
  "UsedAdapters cfg =
     sort (foldl add_new [] (filter (\<lambda>a. a \<noteq> []) (map d_Adapter (c_Databases cfg))))"

text \<open>The linear searches over the two supported lists.\<close>

definition isSupportedAdapter :: "string \<Rightarrow> bool" where
  "isSupportedAdapter s \<longleftrightarrow> list_ex (\<lambda>a. a = s) SupportedAdapters"

definition isSupportedSSLMode :: "string \<Rightarrow> bool" where
  "isSupportedSSLMode s \<longleftrightarrow> list_ex (\<lambda>m. m = s) SupportedSSLModes"

definition sortedTargetNames :: "Target list \<Rightarrow> string list" where
  "sortedTargetNames targets = sort (map t_Name targets)"

fun equalStringSlices :: "string list \<Rightarrow> string list \<Rightarrow> bool" where
  "equalStringSlices [] [] = True"
| "equalStringSlices (x # xs) (y # ys) = (x = y \<and> equalStringSlices xs ys)"
| "equalStringSlices _ _ = False"

definition TargetNames :: "Config \<Rightarrow> string list" where
  "TargetNames cfg =
     (case c_Databases cfg of [] \<Rightarrow> [] | d # _ \<Rightarrow> sortedTargetNames (d_Targets d))"

text \<open>\<open>cfg.Databases[0]\<close> is not guarded.\<close>

definition HasTargetCfg :: "Config \<Rightarrow> string \<Rightarrow> bool res" where
  "HasTargetCfg cfg name =
     bindR (idx (c_Databases cfg) 0) (\<lambda>d. Ok (list_ex (\<lambda>t. t_Name t = name) (d_Targets d)))"

text \<open>A missing key of the \<open>fwd\<close> map gives the zero \<open>ForwardTarget\<close>.\<close>

definition ResolveEndpoint :: "Target \<Rightarrow> (string \<times> ForwardTarget) list \<Rightarrow> string \<times> int" where
  "ResolveEndpoint t fwd =
     (if t_Host t \<noteq> [] then (t_Host t, t_Port t)
      else (case map_of fwd (t_ForwardTo t) of
              None \<Rightarrow> ([], 0)
            | Some ft \<Rightarrow> (ft_Host ft, ft_Port ft)))"

section \<open>Validation\<close>

datatype warning =
    WarnNotLoopback string
  | WarnAuthSourceIgnored string string string
  | WarnEmptyDatabase string string
  | WarnTargetSet string "string list" "string list"
  | WarnUnusedPort string int

text \<open>A computation that logs: its warnings so far, then its result. \<open>seqW\<close> runs the next part
  unless the first failed.\<close>

type_synonym 'a logged = "warning list \<times> 'a res"

definition seqW :: "'a logged \<Rightarrow> ('a \<Rightarrow> 'b logged) \<Rightarrow> 'b logged" where
  "seqW m k =
     (case snd m of
        Ok x \<Rightarrow> (fst m @ fst (k x), snd (k x))
      | Err e \<Rightarrow> (fst m, Err e)
      | Panic \<Rightarrow> (fst m, Panic))"

definition failW :: "string \<Rightarrow> go_arg list \<Rightarrow> 'a logged" where
  "failW f as = ([], Err (Errorf f as))"

definition warnW :: "bool \<Rightarrow> warning \<Rightarrow> unit logged" where
  "warnW c w = ((if c then [w] else []), Ok ())"

fun validate_ports :: "(int \<rightharpoonup> string) \<Rightarrow> (string \<times> int) list \<Rightarrow> unit logged" where
  "validate_ports seenPorts [] = ([], Ok ())"
| "validate_ports seenPorts ((adapter, port) # ps) =
     (if \<not> isSupportedAdapter adapter then
        failW ''listen_ports has unsupported adapter %q (supported: %v)''
          [AStr adapter, AStrs SupportedAdapters]
      else if port < 1 \<or> port > 65535 then
        failW ''listen_ports[%q] must be in [1, 65535], got %d'' [AStr adapter, AInt port]
      else (case seenPorts port of
          Some other \<Rightarrow>
            failW ''listen_ports[%q] and listen_ports[%q] both use port %d''
              [AStr other, AStr adapter, AInt port]
        | None \<Rightarrow> validate_ports (seenPorts(port \<mapsto> adapter)) ps))"

fun validate_forwards :: "(string \<times> ForwardTarget) list \<Rightarrow> unit logged" where
  "validate_forwards [] = ([], Ok ())"
| "validate_forwards ((name, ft) # fs) =
     (if name = [] then failW ''forward_targets has an empty key'' []
      else if ft_Host ft = [] then failW ''forward_targets[%q].host is empty'' [AStr name]
      else if ft_Port ft < 1 \<or> ft_Port ft > 65535 then
        failW ''forward_targets[%q].port out of range: %d'' [AStr name, AInt (ft_Port ft)]
      else validate_forwards fs)"

definition validate_target ::
  "bool \<Rightarrow> Config \<Rightarrow> DatabaseCfg \<Rightarrow> nat \<Rightarrow> string set \<Rightarrow> Target \<Rightarrow> unit logged" where
  "validate_target logger cfg d j seenTargets t =
     (let vn = d_VirtualName d;
          inline = (t_Host t \<noteq> [] \<or> t_Port t \<noteq> 0);
          forward = (t_ForwardTo t \<noteq> [])
      in
      if t_Name t = [] then
        failW ''database %q targets[%d].name is empty'' [AStr vn, AInt (int j)]
      else if t_Name t \<in> seenTargets then
        failW ''database %q has duplicate target name %q'' [AStr vn, AStr (t_Name t)]
      else if inline \<and> forward then
        failW ''database %q target %q: host/port and forward_to are mutually exclusive''
          [AStr vn, AStr (t_Name t)]
      else if \<not> inline \<and> \<not> forward then
        failW ''database %q target %q: either host+port or forward_to is required''
          [AStr vn, AStr (t_Name t)]
      else if inline \<and> t_Host t = [] then
        failW ''database %q target %q: host is required when using inline endpoint''
          [AStr vn, AStr (t_Name t)]
      else if inline \<and> (t_Port t < 1 \<or> t_Port t > 65535) then
        failW ''database %q target %q: port out of range: %d''
          [AStr vn, AStr (t_Name t), AInt (t_Port t)]
      else if \<not> inline \<and> map_of (c_ForwardTargets cfg) (t_ForwardTo t) = None then
        failW ''database %q target %q: forward_to %q not defined in forward_targets''
          [AStr vn, AStr (t_Name t), AStr (t_ForwardTo t)]
      else if t_User t = [] then
        failW ''database %q target %q: user is required'' [AStr vn, AStr (t_Name t)]
      else if t_Password t = [] then
        failW ''database %q target %q: password is required'' [AStr vn, AStr (t_Name t)]
      else if t_SSLMode t \<noteq> [] \<and> \<not> isSupportedSSLMode (t_SSLMode t) then
        failW ''database %q target %q: unsupported sslmode %q (supported: %v)''
          [AStr vn, AStr (t_Name t), AStr (t_SSLMode t), AStrs SupportedSSLModes]
      else if t_AuthSource t \<noteq> [] \<and> \<not> ValidIdentifier (t_AuthSource t) then
        failW ''database %q target %q: auth_source %q is not a valid identifier''
          [AStr vn, AStr (t_Name t), AStr (t_AuthSource t)]
      else seqW (warnW (t_AuthSource t \<noteq> [] \<and> d_Adapter d \<noteq> AdapterMongo \<and> logger)
                   (WarnAuthSourceIgnored vn (t_Name t) (d_Adapter d))) (\<lambda>_.
        if t_Database t \<noteq> [] \<and> RequiredVars (t_Database t) = []
           \<and> \<not> ValidIdentifier (t_Database t) then
          failW ''database %q target %q: database %q is not a valid identifier''
            [AStr vn, AStr (t_Name t), AStr (t_Database t)]
        else warnW (t_Database t = [] \<and> logger) (WarnEmptyDatabase vn (t_Name t))))"

fun validate_targets ::
  "bool \<Rightarrow> Config \<Rightarrow> DatabaseCfg \<Rightarrow> nat \<Rightarrow> string set \<Rightarrow> Target list \<Rightarrow> unit logged" where
  "validate_targets logger cfg d j seenTargets [] = ([], Ok ())"
| "validate_targets logger cfg d j seenTargets (t # ts) =
     seqW (validate_target logger cfg d j seenTargets t)
       (\<lambda>_. validate_targets logger cfg d (j + 1) (insert (t_Name t) seenTargets) ts)"

definition validate_database ::
  "bool \<Rightarrow> Config \<Rightarrow> nat \<Rightarrow> string set \<Rightarrow> string list \<Rightarrow> DatabaseCfg \<Rightarrow> unit logged" where
  "validate_database logger cfg i seenDatabases canonicalTargets d =
     (let vn = d_VirtualName d; names = sortedTargetNames (d_Targets d) in
      if vn = [] then failW ''databases[%d].virtual_name is empty'' [AInt (int i)]
      else if \<not> ValidIdentifier vn then
        failW ''virtual_name %q is not a valid identifier'' [AStr vn]
      else if vn \<in> seenDatabases then failW ''duplicate virtual_name %q'' [AStr vn]
      else if d_Adapter d = [] then
        failW ''database %q: adapter is required (supported: %v)''
          [AStr vn, AStrs SupportedAdapters]
      else if \<not> isSupportedAdapter (d_Adapter d) then
        failW ''database %q: unsupported adapter %q (supported: %v)''
          [AStr vn, AStr (d_Adapter d), AStrs SupportedAdapters]
      else if map_of (c_ListenPorts cfg) (d_Adapter d) = None then
        failW ''database %q: adapter %q has no listen_ports entry'' [AStr vn, AStr (d_Adapter d)]
      else if d_Targets d = [] then failW ''database %q has no targets'' [AStr vn]
      else seqW (validate_targets logger cfg d 0 {} (d_Targets d)) (\<lambda>_.
        warnW (i \<noteq> 0 \<and> \<not> equalStringSlices names canonicalTargets \<and> logger)
          (WarnTargetSet vn names canonicalTargets)))"

text \<open>\<open>canonicalTargets\<close> is set by the first database.\<close>

fun validate_databases ::
  "bool \<Rightarrow> Config \<Rightarrow> nat \<Rightarrow> string set \<Rightarrow> string list \<Rightarrow> DatabaseCfg list \<Rightarrow> unit logged" where
  "validate_databases logger cfg i seenDatabases canonicalTargets [] = ([], Ok ())"
| "validate_databases logger cfg i seenDatabases canonicalTargets (d # ds) =
     seqW (validate_database logger cfg i seenDatabases canonicalTargets d)
       (\<lambda>_. validate_databases logger cfg (i + 1) (insert (d_VirtualName d) seenDatabases)
              (if i = 0 then sortedTargetNames (d_Targets d) else canonicalTargets) ds)"

definition unused_port_warnings :: "Config \<Rightarrow> warning list" where
  "unused_port_warnings cfg =
     map (\<lambda>(adapter, port). WarnUnusedPort adapter port)
       (filter (\<lambda>(adapter, port). adapter \<notin> set (UsedAdapters cfg)) (c_ListenPorts cfg))"

text \<open>\<open>logger\<close> says whether a logger was passed (the source takes \<open>nil\<close> for none).\<close>

definition Validate :: "bool \<Rightarrow> Config \<Rightarrow> unit logged" where
  "Validate logger cfg =
     (if c_ListenPorts cfg = [] then
        failW ''listen_ports must define at least one adapter port'' []
      else seqW (warnW (logger \<and> c_ListenHost cfg \<noteq> [] \<and> c_ListenHost cfg \<noteq> DefaultListenHost
                        \<and> c_ListenHost cfg \<noteq> ''localhost'')
                   (WarnNotLoopback (c_ListenHost cfg))) (\<lambda>_.
        seqW (validate_ports Map.empty (c_ListenPorts cfg)) (\<lambda>_.
        seqW (validate_forwards (c_ForwardTargets cfg)) (\<lambda>_.
        if c_Databases cfg = [] then failW ''at least one database must be defined'' []
        else seqW (validate_databases logger cfg 0 {} [] (c_Databases cfg)) (\<lambda>_.
          ((if logger then unused_port_warnings cfg else []), Ok ()))))))"

section \<open>Loading\<close>

text \<open>\<open>readFile\<close> stands for \<open>os.ReadFile\<close>; \<open>unmarshal\<close> and \<open>unmarshalSocket\<close> for
  \<open>yaml.Unmarshal\<close> into a \<open>Config\<close> and into the one-field struct of \<open>LoadSocketPath\<close>.\<close>

definition Load ::
  "(string \<Rightarrow> bytes res) \<Rightarrow> (bytes \<Rightarrow> Config res) \<Rightarrow> string \<Rightarrow> bool \<Rightarrow> Config logged" where
  "Load readFile unmarshal path logger =
     seqW ([], readFile path) (\<lambda>data.
       seqW ([], wrapR (\<lambda>e. Errorf ''parse %s: %w'' [AStr path, AWrap e]) (unmarshal data)) (\<lambda>cfg0.
         let cfg = (if c_ControlSocket cfg0 = []
                    then cfg0\<lparr>c_ControlSocket := DefaultControlSocket\<rparr> else cfg0)
         in seqW (Validate logger cfg) (\<lambda>_. ([], Ok cfg))))"

definition LoadSocketPath ::
  "(string \<Rightarrow> bytes res) \<Rightarrow> (bytes \<Rightarrow> string res) \<Rightarrow> string \<Rightarrow> string" where
  "LoadSocketPath readFile unmarshalSocket path =
     (case readFile path of
        Ok data \<Rightarrow>
          (case unmarshalSocket data of
             Ok sock \<Rightarrow> if sock = [] then DefaultControlSocket else sock
           | _ \<Rightarrow> DefaultControlSocket)
      | _ \<Rightarrow> DefaultControlSocket)"

section \<open>What validation accepts\<close>

text \<open>The rules as the README states them, without an order of checks.\<close>

definition port_ok :: "int \<Rightarrow> bool" where
  "port_ok p \<longleftrightarrow> 1 \<le> p \<and> p \<le> 65535"

definition inline_target :: "Target \<Rightarrow> bool" where
  "inline_target t \<longleftrightarrow> t_ForwardTo t = [] \<and> t_Host t \<noteq> [] \<and> port_ok (t_Port t)"

definition forward_target :: "Config \<Rightarrow> Target \<Rightarrow> bool" where
  "forward_target cfg t \<longleftrightarrow> t_Host t = [] \<and> t_Port t = 0 \<and> t_ForwardTo t \<noteq> []
     \<and> t_ForwardTo t \<in> set (map fst (c_ForwardTargets cfg))"

definition target_ok :: "Config \<Rightarrow> Target \<Rightarrow> bool" where
  "target_ok cfg t \<longleftrightarrow> t_Name t \<noteq> [] \<and> (inline_target t \<or> forward_target cfg t)
     \<and> t_User t \<noteq> [] \<and> t_Password t \<noteq> []
     \<and> t_SSLMode t \<in> {[], ''disable'', ''require''}
     \<and> (t_AuthSource t = [] \<or> ValidIdentifier (t_AuthSource t))
     \<and> (t_Database t = [] \<or> RequiredVars (t_Database t) \<noteq> [] \<or> ValidIdentifier (t_Database t))"

definition database_ok :: "Config \<Rightarrow> DatabaseCfg \<Rightarrow> bool" where
  "database_ok cfg d \<longleftrightarrow> ValidIdentifier (d_VirtualName d)
     \<and> d_Adapter d \<in> {''postgres'', ''mysql'', ''mongodb''}
     \<and> d_Adapter d \<in> set (map fst (c_ListenPorts cfg))
     \<and> d_Targets d \<noteq> [] \<and> list_all (target_ok cfg) (d_Targets d)
     \<and> distinct (map t_Name (d_Targets d))"

definition valid_config :: "Config \<Rightarrow> bool" where
  "valid_config cfg \<longleftrightarrow> c_ListenPorts cfg \<noteq> []
     \<and> list_all (\<lambda>(a, p). a \<in> {''postgres'', ''mysql'', ''mongodb''} \<and> port_ok p) (c_ListenPorts cfg)
     \<and> distinct (map snd (c_ListenPorts cfg))
     \<and> list_all (\<lambda>(n, ft). n \<noteq> [] \<and> ft_Host ft \<noteq> [] \<and> port_ok (ft_Port ft)) (c_ForwardTargets cfg)
     \<and> c_Databases cfg \<noteq> [] \<and> list_all (database_ok cfg) (c_Databases cfg)
     \<and> distinct (map d_VirtualName (c_Databases cfg))"

lemma seqW_Ok_iff [simp]:
  "snd (seqW m k) = Ok y \<longleftrightarrow> (\<exists>x. snd m = Ok x \<and> snd (k x) = Ok y)"
  by (auto simp: seqW_def split: res.splits)

lemma failW_not_Ok [simp]: "snd (failW f as) \<noteq> Ok y"
  by (simp add: failW_def)

lemma warnW_Ok [simp]: "snd (warnW c w) = Ok ()"
  by (simp add: warnW_def)

lemma isSupported_iff:
  "isSupportedAdapter a \<longleftrightarrow> a \<in> {''postgres'', ''mysql'', ''mongodb''}"
  "isSupportedSSLMode m \<longleftrightarrow> m \<in> {''disable'', ''require''}"
  by (auto simp: isSupportedAdapter_def SupportedAdapters_def AdapterMongo_def AdapterMySQL_def
      AdapterPostgres_def isSupportedSSLMode_def SupportedSSLModes_def SSLModeDisable_def
      SSLModeRequire_def)

lemma validate_ports_Ok:
  "snd (validate_ports seen ps) = Ok () \<longleftrightarrow>
     list_all (\<lambda>(a, p). a \<in> {''postgres'', ''mysql'', ''mongodb''} \<and> port_ok p) ps
     \<and> distinct (map snd ps) \<and> dom seen \<inter> set (map snd ps) = {}"
proof (induction ps arbitrary: seen)
  case (Cons ap ps)
  obtain a p where ap: "ap = (a, p)" by (cases ap)
  show ?case
  proof (cases "isSupportedAdapter a \<and> port_ok p \<and> seen p = None")
    case True
    then have "snd (validate_ports seen ((a, p) # ps)) = snd (validate_ports (seen(p \<mapsto> a)) ps)"
      by (simp add: port_ok_def)
    moreover have "snd (validate_ports (seen(p \<mapsto> a)) ps) = Ok () \<longleftrightarrow>
        list_all (\<lambda>(a, p). a \<in> {''postgres'', ''mysql'', ''mongodb''} \<and> port_ok p) ps
        \<and> distinct (map snd ps) \<and> dom (seen(p \<mapsto> a)) \<inter> set (map snd ps) = {}"
      by (rule Cons.IH)
    ultimately show ?thesis using True ap by (auto simp: isSupported_iff)
  next
    case False
    with ap show ?thesis by (auto simp: isSupported_iff port_ok_def)
  qed
qed simp

lemma validate_forwards_Ok:
  "snd (validate_forwards fs) = Ok () \<longleftrightarrow>
     list_all (\<lambda>(n, ft). n \<noteq> [] \<and> ft_Host ft \<noteq> [] \<and> port_ok (ft_Port ft)) fs"
  by (induction fs rule: validate_forwards.induct) (auto simp: port_ok_def)

lemma map_of_None_iff: "map_of xs k = None \<longleftrightarrow> k \<notin> set (map fst xs)"
  by (simp add: map_of_eq_None_iff)

lemma validate_target_Ok:
  "snd (validate_target logger cfg d j seen t) = Ok () \<longleftrightarrow> target_ok cfg t \<and> t_Name t \<notin> seen"
  unfolding validate_target_def target_ok_def inline_target_def forward_target_def Let_def
  by (auto simp: isSupported_iff port_ok_def map_of_None_iff)

lemma validate_targets_Ok:
  "snd (validate_targets logger cfg d j seen ts) = Ok () \<longleftrightarrow>
     list_all (target_ok cfg) ts \<and> distinct (map t_Name ts) \<and> seen \<inter> set (map t_Name ts) = {}"
  by (induction ts arbitrary: j seen) (auto simp: validate_target_Ok)

lemma validate_database_Ok:
  "snd (validate_database logger cfg i seen canon d) = Ok () \<longleftrightarrow>
     database_ok cfg d \<and> d_VirtualName d \<notin> seen"
  unfolding validate_database_def database_ok_def Let_def
  by (auto simp: isSupported_iff map_of_None_iff validate_targets_Ok ValidIdentifier_def)

lemma validate_databases_Ok:
  "snd (validate_databases logger cfg i seen canon ds) = Ok () \<longleftrightarrow>
     list_all (database_ok cfg) ds \<and> distinct (map d_VirtualName ds)
     \<and> seen \<inter> set (map d_VirtualName ds) = {}"
  by (induction ds arbitrary: i seen canon) (auto simp: validate_database_Ok)

lemma Validate_Ok_iff: "snd (Validate logger cfg) = Ok () \<longleftrightarrow> valid_config cfg"
  unfolding Validate_def valid_config_def
  by (auto simp: validate_ports_Ok validate_forwards_Ok validate_databases_Ok)

text \<open>C19. \<open>Validate\<close> accepts a configuration exactly when it satisfies the documented rules, with a
  logger or without one and in whatever order the maps are walked.\<close>

theorem Validate_iff_valid_config: "snd (Validate logger cfg) = Ok () \<longleftrightarrow> valid_config cfg"
  by (rule Validate_Ok_iff)

section \<open>What an accepted configuration guarantees\<close>

lemma set_UsedAdapters [simp]:
  "set (UsedAdapters cfg) = {d_Adapter d | d. d \<in> set (c_Databases cfg) \<and> d_Adapter d \<noteq> []}"
  by (auto simp: UsedAdapters_def)

lemma UsedAdapters_sorted_distinct: "sorted (UsedAdapters cfg)" "distinct (UsedAdapters cfg)"
  by (simp_all add: UsedAdapters_def)

lemma valid_config_database:
  "valid_config cfg \<Longrightarrow> d \<in> set (c_Databases cfg) \<Longrightarrow> database_ok cfg d"
  by (auto simp: valid_config_def list_all_iff)

lemma valid_config_target:
  "valid_config cfg \<Longrightarrow> d \<in> set (c_Databases cfg) \<Longrightarrow> t \<in> set (d_Targets d) \<Longrightarrow> target_ok cfg t"
  by (auto dest!: valid_config_database simp: database_ok_def list_all_iff)

lemma valid_config_ListenPort:
  assumes "valid_config cfg" and "a \<in> set (UsedAdapters cfg)"
  shows "\<exists>p. ListenPort cfg a = Some p \<and> port_ok p"
proof -
  from assms obtain d where "d \<in> set (c_Databases cfg)" "a = d_Adapter d" by auto
  with assms have "a \<in> set (map fst (c_ListenPorts cfg))"
    by (auto dest: valid_config_database simp: database_ok_def)
  then obtain p where p: "map_of (c_ListenPorts cfg) a = Some p"
    by (metis map_of_None_iff not_None_eq)
  then have "(a, p) \<in> set (c_ListenPorts cfg)" by (rule map_of_SomeD)
  with assms(1) p show ?thesis by (auto simp: valid_config_def list_all_iff ListenPort_def)
qed

definition sample_config :: Config where
  "sample_config =
     \<lparr>c_ListenHost = [], c_ListenPorts = [(''postgres'', 6432), (''mysql'', 3306)],
      c_ControlSocket = [],
      c_ForwardTargets = [(''ssm'', \<lparr>ft_Host = ''127.0.0.1'', ft_Port = 15432\<rparr>)],
      c_Databases =
        [\<lparr>d_Adapter = ''postgres'', d_VirtualName = ''appdb'',
          d_Targets =
            [\<lparr>t_Name = ''local'', t_Host = ''127.0.0.1'', t_Port = 5432, t_ForwardTo = [],
              t_User = ''pg'', t_Password = ''pw'', t_Database = ''app_dev'',
              t_AuthSource = [], t_SSLMode = []\<rparr>,
             \<lparr>t_Name = ''staging'', t_Host = [], t_Port = 0, t_ForwardTo = ''ssm'',
              t_User = ''stg'', t_Password = ''pw2'', t_Database = ''app_${BRANCH}_staging'',
              t_AuthSource = [], t_SSLMode = ''require''\<rparr>]\<rparr>,
         \<lparr>d_Adapter = ''mysql'', d_VirtualName = ''shop'',
          d_Targets =
            [\<lparr>t_Name = ''local'', t_Host = ''127.0.0.1'', t_Port = 3307, t_ForwardTo = [],
              t_User = ''root'', t_Password = ''pw'', t_Database = ''shop_dev'',
              t_AuthSource = [], t_SSLMode = []\<rparr>]\<rparr>]\<rparr>"

lemma valid_config_endpoint_ok:
  assumes valid: "valid_config cfg"
    and "d \<in> set (c_Databases cfg)" and "t \<in> set (d_Targets d)"
    and "ResolveEndpoint t (c_ForwardTargets cfg) = (host, port)"
  shows "host \<noteq> [] \<and> port_ok port"
proof -
  from assms have "inline_target t \<or> forward_target cfg t"
    by (auto dest: valid_config_target simp: target_ok_def)
  then show ?thesis
  proof
    assume "inline_target t"
    with assms(4) show ?thesis by (auto simp: inline_target_def ResolveEndpoint_def)
  next
    assume f: "forward_target cfg t"
    then obtain ft where ft: "map_of (c_ForwardTargets cfg) (t_ForwardTo t) = Some ft"
      by (metis forward_target_def map_of_None_iff not_None_eq)
    then have "(t_ForwardTo t, ft) \<in> set (c_ForwardTargets cfg)" by (rule map_of_SomeD)
    with valid have "ft_Host ft \<noteq> [] \<and> port_ok (ft_Port ft)"
      by (auto simp: valid_config_def list_all_iff)
    with f ft assms(4) show ?thesis
      by (auto simp: forward_target_def ResolveEndpoint_def)
  qed
qed

text \<open>In an accepted configuration every target resolves to an endpoint that can be dialled: a
  host that is not empty and a port in range, whether it is given inline or through
  \<open>forward_targets\<close>.\<close>

theorem valid_config_endpoint:
  assumes "snd (Validate logger cfg) = Ok ()"
    and "d \<in> set (c_Databases cfg)" and "t \<in> set (d_Targets d)"
    and "ResolveEndpoint t (c_ForwardTargets cfg) = (host, port)"
  shows "host \<noteq> [] \<and> 1 \<le> port \<and> port \<le> 65535"
  using assms valid_config_endpoint_ok by (auto simp: Validate_Ok_iff port_ok_def)

theorem valid_config_endpoint_witness:
  "snd (Validate True sample_config) = Ok () \<and>
   ResolveEndpoint (d_Targets (c_Databases sample_config ! 0) ! 1) (c_ForwardTargets sample_config)
     = (''127.0.0.1'', 15432) \<and> ''127.0.0.1'' \<noteq> [] \<and> (1::int) \<le> 15432 \<and> 15432 \<le> (65535::int)"
proof -
  let ?d = "c_Databases sample_config ! 0"
  have v: "snd (Validate True sample_config) = Ok ()" by code_simp
  have d: "?d \<in> set (c_Databases sample_config)" by (simp add: sample_config_def)
  have t: "d_Targets ?d ! 1 \<in> set (d_Targets ?d)" by (simp add: sample_config_def)
  have e: "ResolveEndpoint (d_Targets ?d ! 1) (c_ForwardTargets sample_config)
      = (''127.0.0.1'', 15432)" by code_simp
  from v e valid_config_endpoint [OF v d t e] show ?thesis by blast
qed

text \<open>A template without \<open>$\<close> stands for itself.\<close>

lemma Resolve_no_dollar:
  assumes "CHR ''$'' \<notin> set s"
  shows "Resolve s vars = (s, [], None)" and "RequiredVars s = []"
proof -
  have ok: "list_all tok_ok (map Lit s)" and text_s: "template (map Lit s) = s"
    using assms by (induction s) auto
  have "template_value vars (map Lit s) = s" and no_vars: "concat (map tok_vars (map Lit s)) = []"
    by (induction s) (auto simp: template_value_def)
  moreover have "template_vars (map Lit s) = []"
    by (simp only: template_vars_def no_vars foldl.simps)
  ultimately show "Resolve s vars = (s, [], None)" and "RequiredVars s = []"
    using Resolve_template [OF ok, of vars] RequiredVars_template [OF ok] text_s by simp_all
qed

text \<open>What \<open>Load\<close> returns has passed \<open>Validate\<close> and names a control socket.\<close>

lemma Load_Ok:
  assumes "snd (Load readFile unmarshal path logger) = Ok cfg"
  shows "valid_config cfg \<and> c_ControlSocket cfg \<noteq> []"
proof -
  from assms obtain cfg0 where cfg: "cfg = (if c_ControlSocket cfg0 = []
      then cfg0\<lparr>c_ControlSocket := DefaultControlSocket\<rparr> else cfg0)"
    and "snd (Validate logger cfg) = Ok ()"
    unfolding Load_def Let_def seqW_Ok_iff by auto
  then have "valid_config cfg" by (simp add: Validate_Ok_iff)
  moreover have "c_ControlSocket cfg \<noteq> []" by (simp add: cfg DefaultControlSocket_def)
  ultimately show ?thesis ..
qed

end
