(* ===== verification/Database.thy ===== *)
theory Database
  imports Config
begin

text \<open>
  \<open>internal/proxy/database.go\<close>: the routing state of one logical database and the registry of its
  open connections. \<open>*Database\<close> and \<open>*Conn\<close> are references: a database is named by its virtual
  name and a connection by a number, and a \<open>store\<close> holds both kinds of objects, because closing a
  connection changes the registry of the database it points to. The registry \<open>map[*Conn]struct{}\<close>
  is a list without duplicates whose order stands for the iteration order. Each operation below is
  one critical section of the source or a sequence of them; the theory \<open>Interleaving\<close> lets other
  goroutines run in between.
\<close>

record ResolvedTarget =
  rt_Name :: string
  rt_Host :: string
  rt_Port :: int
  rt_User :: string
  rt_Password :: string
  rt_Database :: string
  rt_SSLMode :: string
  rt_AuthSource :: string

text \<open>A socket is \<open>None\<close> when nil, else whether it has been closed; \<open>cn_once\<close> is the state of
  \<open>closeOnce\<close>.\<close>

record Conn =
  cn_Client :: "bool option"
  cn_Upstream :: "bool option"
  cn_Resolved :: ResolvedTarget
  cn_once :: bool
  cn_database :: "string option"

record Database =
  db_virtualName :: string
  db_adapter :: string
  db_targets :: "Target list"
  db_byName :: "string \<rightharpoonup> Target"
  db_fwd :: "(string \<times> ForwardTarget) list"
  db_current :: "ResolvedTarget option"
  db_conns :: "nat list"

record store =
  st_dbs :: "string \<rightharpoonup> Database"
  st_conns :: "nat \<rightharpoonup> Conn"

section \<open>Operations\<close>

definition NewDatabase :: "DatabaseCfg \<Rightarrow> (string \<times> ForwardTarget) list \<Rightarrow> Database" where
  "NewDatabase c fwd =
     \<lparr>db_virtualName = d_VirtualName c, db_adapter = d_Adapter c, db_targets = d_Targets c,
      db_byName = foldl (\<lambda>m t. m(t_Name t \<mapsto> t)) Map.empty (d_Targets c),
      db_fwd = fwd, db_current = None, db_conns = []\<rparr>"

definition HasTarget :: "Database \<Rightarrow> string \<Rightarrow> bool" where
  "HasTarget d name \<longleftrightarrow> db_byName d name \<noteq> None"

text \<open>\<open>Inl\<close> carries the missing variables and the error.\<close>

definition ResolveTarget ::
  "Database \<Rightarrow> string \<Rightarrow> (string \<rightharpoonup> string) \<Rightarrow> (string list \<times> go_err) + ResolvedTarget" where
  "ResolveTarget d name vars =
     (case db_byName d name of
        None \<Rightarrow> Inl ([], Errorf ''unknown target %q for database %q''
                        [AStr name, AStr (db_virtualName d)])
      | Some t \<Rightarrow>
          (case Resolve (t_Database t) vars of
             (resolvedDB, missing, Some e) \<Rightarrow>
               (if missing \<noteq> []
                then Inl (missing, Errorf ''target %q requires variables: %v''
                                     [AStr name, AStrs missing])
                else Inl ([], e))
           | (resolvedDB, missing, None) \<Rightarrow>
               (if resolvedDB \<noteq> [] \<and> \<not> ValidIdentifier resolvedDB
                then Inl ([], Errorf ''resolved database %q contains invalid characters''
                                [AStr resolvedDB])
                else (let (host, port) = ResolveEndpoint t (db_fwd d) in
                  Inr \<lparr>rt_Name = t_Name t, rt_Host = host, rt_Port = port, rt_User = t_User t,
                       rt_Password = t_Password t, rt_Database = resolvedDB,
                       rt_SSLMode = t_SSLMode t, rt_AuthSource = t_AuthSource t\<rparr>))))"

definition deregister :: "string \<Rightarrow> nat \<Rightarrow> store \<Rightarrow> store" where
  "deregister n c w =
     (case st_dbs w n of
        None \<Rightarrow> w
      | Some d \<Rightarrow> w\<lparr>st_dbs := (st_dbs w)(n \<mapsto> d\<lparr>db_conns := removeAll c (db_conns d)\<rparr>)\<rparr>)"

definition Register :: "string \<Rightarrow> nat \<Rightarrow> store \<Rightarrow> store" where
  "Register n c w =
     (case (st_dbs w n, st_conns w c) of
        (Some d, Some cn) \<Rightarrow>
          w\<lparr>st_dbs := (st_dbs w)(n \<mapsto> d\<lparr>db_conns := add_new (db_conns d) c\<rparr>),
            st_conns := (st_conns w)(c \<mapsto> cn\<lparr>cn_database := Some n\<rparr>)\<rparr>
      | _ \<Rightarrow> w)"

definition Close :: "nat \<Rightarrow> store \<Rightarrow> store" where
  "Close c w =
     (case st_conns w c of
        None \<Rightarrow> w
      | Some cn \<Rightarrow>
          if cn_once cn then w
          else
            let cn' = cn\<lparr>cn_once := True, cn_Client := map_option (\<lambda>_. True) (cn_Client cn),
                         cn_Upstream := map_option (\<lambda>_. True) (cn_Upstream cn)\<rparr>;
                w' = w\<lparr>st_conns := (st_conns w)(c \<mapsto> cn')\<rparr>
            in (case cn_database cn of None \<Rightarrow> w' | Some n \<Rightarrow> deregister n c w'))"

definition dropAll :: "string \<Rightarrow> store \<Rightarrow> nat \<times> store" where
  "dropAll n w =
     (case st_dbs w n of
        None \<Rightarrow> (0, w)
      | Some d \<Rightarrow> let snapshot = db_conns d in (length snapshot, fold Close snapshot w))"

text \<open>\<open>current.Store\<close> and \<open>current.Swap\<close>.\<close>

definition set_current :: "string \<Rightarrow> ResolvedTarget option \<Rightarrow> store \<Rightarrow> store" where
  "set_current n cur w =
     (case st_dbs w n of
        None \<Rightarrow> w
      | Some d \<Rightarrow> w\<lparr>st_dbs := (st_dbs w)(n \<mapsto> d\<lparr>db_current := cur\<rparr>)\<rparr>)"

definition Current :: "string \<Rightarrow> store \<Rightarrow> ResolvedTarget option" where
  "Current n w = (case st_dbs w n of None \<Rightarrow> None | Some d \<Rightarrow> db_current d)"

definition Apply ::
  "string \<Rightarrow> ResolvedTarget \<Rightarrow> store \<Rightarrow> (ResolvedTarget option \<times> nat) \<times> store" where
  "Apply n rt w =
     (let prev = Current n w; (closed, w') = dropAll n (set_current n (Some rt) w)
      in ((prev, closed), w'))"

definition Clear :: "string \<Rightarrow> store \<Rightarrow> (ResolvedTarget option \<times> nat) \<times> store" where
  "Clear n w =
     (let prev = Current n w; (closed, w') = dropAll n (set_current n None w)
      in ((prev, closed), w'))"

definition ActiveConns :: "string \<Rightarrow> store \<Rightarrow> nat" where
  "ActiveConns n w = (case st_dbs w n of None \<Rightarrow> 0 | Some d \<Rightarrow> length (db_conns d))"

section \<open>The registry invariant\<close>

definition conns_of :: "string \<Rightarrow> store \<Rightarrow> nat list" where
  "conns_of n w = (case st_dbs w n of None \<Rightarrow> [] | Some d \<Rightarrow> db_conns d)"

text \<open>A connection is in the registry of a database exactly when it points to that database and has
  not been closed, and it is there once.\<close>

definition wf_store :: "store \<Rightarrow> bool" where
  "wf_store w \<longleftrightarrow>
     (\<forall>n. distinct (conns_of n w))
     \<and> (\<forall>n c. c \<in> set (conns_of n w) \<longleftrightarrow>
          (\<exists>cn. st_conns w c = Some cn \<and> cn_database cn = Some n \<and> \<not> cn_once cn))"

text \<open>Both sockets closed, and \<open>Close\<close> will not run again.\<close>

definition conn_closed :: "Conn \<Rightarrow> bool" where
  "conn_closed cn \<longleftrightarrow> cn_once cn \<and> cn_Client cn \<noteq> Some False \<and> cn_Upstream cn \<noteq> Some False"

lemma wf_distinct: "wf_store w \<Longrightarrow> distinct (conns_of n w)"
  by (simp add: wf_store_def)

lemma wf_registered:
  "wf_store w \<Longrightarrow> c \<in> set (conns_of n w) \<Longrightarrow>
   \<exists>cn. st_conns w c = Some cn \<and> cn_database cn = Some n \<and> \<not> cn_once cn"
  by (simp add: wf_store_def)

lemma wf_one_database:
  "wf_store w \<Longrightarrow> c \<in> set (conns_of n w) \<Longrightarrow> c \<in> set (conns_of m w) \<Longrightarrow> m = n"
  by (metis option.inject wf_registered)

lemma deregister_simps [simp]:
  "conns_of m (deregister n c w) = (if m = n then removeAll c (conns_of m w) else conns_of m w)"
  "Current m (deregister n c w) = Current m w"
  "st_conns (deregister n c w) = st_conns w"
  by (auto simp: deregister_def conns_of_def Current_def split: option.splits)

lemma Close_st_conns:
  "st_conns (Close c w) =
     (case st_conns w c of
        None \<Rightarrow> st_conns w
      | Some cn \<Rightarrow> if cn_once cn then st_conns w
          else (st_conns w)(c \<mapsto> cn\<lparr>cn_once := True,
                 cn_Client := map_option (\<lambda>_. True) (cn_Client cn),
                 cn_Upstream := map_option (\<lambda>_. True) (cn_Upstream cn)\<rparr>))"
  by (auto simp: Close_def Let_def split: option.splits)

lemma Close_Current [simp]: "Current m (Close c w) = Current m w"
  by (auto simp: Close_def Let_def Current_def deregister_def split: option.splits)

lemma conns_of_only_dbs:
  "conns_of m (w\<lparr>st_conns := f\<rparr>) = conns_of m w"
  by (simp add: conns_of_def)

lemma Close_conns_of:
  assumes "wf_store w"
  shows "conns_of m (Close c w) = removeAll c (conns_of m w)"
proof (cases "c \<in> set (conns_of m w)")
  case True
  with assms obtain cn where "st_conns w c = Some cn" "cn_database cn = Some m" "\<not> cn_once cn"
    using wf_registered by blast
  then show ?thesis by (simp add: Close_def Let_def conns_of_only_dbs)
next
  case False
  then show ?thesis
    by (auto simp: Close_def Let_def conns_of_only_dbs split: option.splits)
qed

lemma Close_other [simp]: "c \<noteq> x \<Longrightarrow> st_conns (Close c w) x = st_conns w x"
  by (auto simp: Close_st_conns split: option.splits)

lemma Close_wf: "wf_store w \<Longrightarrow> wf_store (Close c w)"
  unfolding wf_store_def
proof (intro conjI allI, goal_cases)
  case (1 n)
  then have "wf_store w" by (simp add: wf_store_def)
  then show ?case by (simp add: Close_conns_of wf_distinct distinct_removeAll)
next
  case (2 n x)
  then have "wf_store w" by (simp add: wf_store_def)
  with 2 show ?case
    by (cases "x = c") (auto simp: Close_conns_of Close_st_conns split: option.splits)
qed

lemma Close_closes:
  assumes "st_conns w c = Some cn" and "\<not> cn_once cn"
  shows "\<exists>cn'. st_conns (Close c w) c = Some cn' \<and> conn_closed cn' \<and> cn_Resolved cn' = cn_Resolved cn"
  using assms by (auto simp: Close_st_conns conn_closed_def)

lemma Close_keeps_closed:
  assumes "st_conns w x = Some cn" and "conn_closed cn"
  shows "\<exists>cn'. st_conns (Close c w) x = Some cn' \<and> conn_closed cn'"
proof (cases "c = x")
  case True
  with assms show ?thesis by (simp add: Close_st_conns conn_closed_def)
next
  case False
  with assms show ?thesis by simp
qed

lemma fold_Close:
  assumes "wf_store w"
  shows "wf_store (fold Close xs w)"
    and "conns_of m (fold Close xs w) = filter (\<lambda>c. c \<notin> set xs) (conns_of m w)"
    and "Current m (fold Close xs w) = Current m w"
    and "x \<notin> set xs \<Longrightarrow> st_conns (fold Close xs w) x = st_conns w x"
proof -
  from assms have "wf_store (fold Close xs w)
     \<and> conns_of m (fold Close xs w) = filter (\<lambda>c. c \<notin> set xs) (conns_of m w)
     \<and> Current m (fold Close xs w) = Current m w
     \<and> (x \<notin> set xs \<longrightarrow> st_conns (fold Close xs w) x = st_conns w x)"
  proof (induction xs arbitrary: w)
    case (Cons c xs)
    have "filter (\<lambda>x. x \<notin> set xs) (removeAll c (conns_of m w))
        = filter (\<lambda>x. x \<notin> set (c # xs)) (conns_of m w)"
      by (auto simp: removeAll_filter_not_eq intro: filter_cong)
    with Cons show ?case by (auto simp: Close_wf Close_conns_of)
  qed simp
  then show "wf_store (fold Close xs w)"
    and "conns_of m (fold Close xs w) = filter (\<lambda>c. c \<notin> set xs) (conns_of m w)"
    and "Current m (fold Close xs w) = Current m w"
    and "x \<notin> set xs \<Longrightarrow> st_conns (fold Close xs w) x = st_conns w x"
    by blast+
qed

lemma fold_Close_keeps_closed:
  "st_conns w x = Some cn \<Longrightarrow> conn_closed cn \<Longrightarrow>
   \<exists>cn'. st_conns (fold Close xs w) x = Some cn' \<and> conn_closed cn'"
proof (induction xs arbitrary: w cn)
  case (Cons a xs)
  from Close_keeps_closed [OF Cons.prems] Cons.IH show ?case by auto
qed simp

lemma fold_Close_closes:
  assumes "x \<in> set xs" and "st_conns w x = Some cn" and "\<not> cn_once cn"
  shows "\<exists>cn'. st_conns (fold Close xs w) x = Some cn' \<and> conn_closed cn'"
  using assms
proof (induction xs arbitrary: w)
  case (Cons c xs)
  show ?case
  proof (cases "c = x")
    case True
    with Cons.prems obtain cn' where "st_conns (Close c w) x = Some cn'" "conn_closed cn'"
      using Close_closes by blast
    then show ?thesis by (simp add: fold_Close_keeps_closed)
  next
    case False
    with Cons show ?thesis by simp
  qed
qed simp

section \<open>Switching one database\<close>

lemma set_current_simps [simp]:
  "conns_of m (set_current n cur w) = conns_of m w"
  "st_conns (set_current n cur w) = st_conns w"
  "st_dbs w n \<noteq> None \<Longrightarrow> Current m (set_current n cur w) = (if m = n then cur else Current m w)"
  by (auto simp: set_current_def conns_of_def Current_def split: option.splits)

lemma set_current_wf [simp]: "wf_store (set_current n cur w) \<longleftrightarrow> wf_store w"
  by (simp add: wf_store_def)

lemma dropAll_eq: "dropAll n w = (length (conns_of n w), fold Close (conns_of n w) w)"
  by (auto simp: dropAll_def conns_of_def Let_def split: option.splits)

lemma dropAll_simps:
  assumes "wf_store w"
  shows "wf_store (snd (dropAll n w))"
    and "conns_of m (snd (dropAll n w)) = (if m = n then [] else conns_of m w)"
    and "Current m (snd (dropAll n w)) = Current m w"
    and "fst (dropAll n w) = length (conns_of n w)"
    and "c \<notin> set (conns_of n w) \<Longrightarrow> st_conns (snd (dropAll n w)) c = st_conns w c"
proof -
  note f = fold_Close [OF assms, where xs = "conns_of n w"]
  show "wf_store (snd (dropAll n w))" and "Current m (snd (dropAll n w)) = Current m w"
    and "fst (dropAll n w) = length (conns_of n w)"
    and "c \<notin> set (conns_of n w) \<Longrightarrow> st_conns (snd (dropAll n w)) c = st_conns w c"
    by (simp_all add: dropAll_eq f)
  have "m \<noteq> n \<Longrightarrow> filter (\<lambda>c. c \<notin> set (conns_of n w)) (conns_of m w) = conns_of m w"
    using wf_one_database [OF assms] by (auto simp: filter_id_conv)
  then show "conns_of m (snd (dropAll n w)) = (if m = n then [] else conns_of m w)"
    by (simp add: dropAll_eq f filter_empty_conv)
qed

lemma dropAll_closes:
  assumes "wf_store w" and "c \<in> set (conns_of n w)"
  shows "\<exists>cn. st_conns (snd (dropAll n w)) c = Some cn \<and> conn_closed cn"
proof -
  from assms obtain cn where "st_conns w c = Some cn" "\<not> cn_once cn"
    using wf_registered by blast
  with assms(2) show ?thesis by (simp add: dropAll_eq fold_Close_closes)
qed

lemma st_dbs_Close [simp]: "st_dbs (Close c w) n = None \<longleftrightarrow> st_dbs w n = None"
  by (auto simp: Close_def Let_def deregister_def split: option.splits)

lemma st_dbs_fold_Close [simp]: "st_dbs (fold Close xs w) n = None \<longleftrightarrow> st_dbs w n = None"
  by (induction xs arbitrary: w) auto

lemma st_dbs_set_current [simp]: "st_dbs (set_current m cur w) n = None \<longleftrightarrow> st_dbs w n = None"
  by (auto simp: set_current_def split: option.splits)

lemma st_dbs_dropAll [simp]: "st_dbs (snd (dropAll m w)) n = None \<longleftrightarrow> st_dbs w n = None"
  by (simp add: dropAll_eq)

lemma Apply_eq:
  "Apply n rt w = ((Current n w, length (conns_of n w)), snd (dropAll n (set_current n (Some rt) w)))"
  by (simp add: Apply_def Let_def dropAll_eq)

lemma Clear_eq:
  "Clear n w = ((Current n w, length (conns_of n w)), snd (dropAll n (set_current n None w)))"
  by (simp add: Clear_def Let_def dropAll_eq)

text \<open>What \<open>SwitchAll\<close> relies on: swapping the target of one database reports the previous target
  and the number of its open connections, sets its target, closes its connections and leaves every
  other database alone.\<close>

locale target_switching =
  fixes known :: "string \<Rightarrow> 's \<Rightarrow> bool"
    and cur :: "string \<Rightarrow> 's \<Rightarrow> ResolvedTarget option"
    and open_conns :: "string \<Rightarrow> 's \<Rightarrow> nat list"
    and inv :: "'s \<Rightarrow> bool"
    and apply_to :: "string \<Rightarrow> ResolvedTarget \<Rightarrow> 's \<Rightarrow> (ResolvedTarget option \<times> nat) \<times> 's"
    and clear :: "string \<Rightarrow> 's \<Rightarrow> (ResolvedTarget option \<times> nat) \<times> 's"
  assumes apply_report: "inv s \<Longrightarrow> fst (apply_to n rt s) = (cur n s, length (open_conns n s))"
    and clear_report: "inv s \<Longrightarrow> fst (clear n s) = (cur n s, length (open_conns n s))"
    and apply_inv: "inv s \<Longrightarrow> inv (snd (apply_to n rt s))"
    and clear_inv: "inv s \<Longrightarrow> inv (snd (clear n s))"
    and apply_known: "inv s \<Longrightarrow> known m (snd (apply_to n rt s)) = known m s"
    and clear_known: "inv s \<Longrightarrow> known m (snd (clear n s)) = known m s"
    and apply_cur: "inv s \<Longrightarrow> known n s \<Longrightarrow>
      cur m (snd (apply_to n rt s)) = (if m = n then Some rt else cur m s)"
    and clear_cur: "inv s \<Longrightarrow> known n s \<Longrightarrow>
      cur m (snd (clear n s)) = (if m = n then None else cur m s)"
    and apply_conns: "inv s \<Longrightarrow> open_conns m (snd (apply_to n rt s)) = (if m = n then [] else open_conns m s)"
    and clear_conns: "inv s \<Longrightarrow> open_conns m (snd (clear n s)) = (if m = n then [] else open_conns m s)"

interpretation dbs: target_switching
  "\<lambda>n w. st_dbs w n \<noteq> None" Current conns_of wf_store Apply Clear
  by unfold_locales (simp_all add: Apply_eq Clear_eq dropAll_simps)

lemma Register_simps:
  assumes "wf_store w" and "st_dbs w n = Some d" and "st_conns w c = Some cn"
    and "cn_database cn = None" and "\<not> cn_once cn"
  shows "conns_of m (Register n c w) = (if m = n then conns_of n w @ [c] else conns_of m w)"
    and "Current m (Register n c w) = Current m w"
    and "wf_store (Register n c w)"
proof -
  have new: "c \<notin> set (conns_of m w)" for m
    using assms wf_registered by fastforce
  show conns: "conns_of m (Register n c w) = (if m = n then conns_of n w @ [c] else conns_of m w)" for m
    using assms new [of n] by (auto simp: Register_def conns_of_def add_new_def)
  show "Current m (Register n c w) = Current m w"
    using assms by (auto simp: Register_def Current_def)
  have "st_conns (Register n c w) = (st_conns w)(c \<mapsto> cn\<lparr>cn_database := Some n\<rparr>)"
    using assms by (simp add: Register_def)
  moreover have "distinct (conns_of m w)" for m using assms(1) by (rule wf_distinct)
  moreover have "x \<in> set (conns_of m w) \<longleftrightarrow>
      (\<exists>cn. st_conns w x = Some cn \<and> cn_database cn = Some m \<and> \<not> cn_once cn)" for x m
    using assms(1) by (simp add: wf_store_def)
  ultimately show "wf_store (Register n c w)"
    unfolding wf_store_def conns using new assms(3-5) by auto
qed

text \<open>Applying a target swaps it in, reports the previous target and how many connections were
  open, and leaves no connection of that database registered or with an open socket; the registries
  stay consistent.\<close>

theorem Apply_closes_all:
  assumes "wf_store w" and "st_dbs w n \<noteq> None" and "Apply n rt w = ((prev, closed), w')"
  shows "prev = Current n w \<and> closed = ActiveConns n w \<and> Current n w' = Some rt
     \<and> ActiveConns n w' = 0 \<and> wf_store w'
     \<and> list_all (\<lambda>c. \<exists>cn. st_conns w' c = Some cn \<and> conn_closed cn) (conns_of n w)"
proof -
  have active: "ActiveConns n w = length (conns_of n w)" for w
    by (simp add: ActiveConns_def conns_of_def split: option.splits)
  let ?w = "set_current n (Some rt) w"
  have w': "w' = snd (dropAll n ?w)" and "prev = Current n w" "closed = length (conns_of n w)"
    using assms(3) by (auto simp: Apply_eq)
  moreover have "\<exists>cn. st_conns w' c = Some cn \<and> conn_closed cn" if "c \<in> set (conns_of n w)" for c
    using that assms(1) dropAll_closes [of ?w c n] by (simp add: w')
  ultimately show ?thesis
    using assms(1,2) by (simp add: dropAll_simps active list_all_iff)
qed

text \<open>C18. Every operation on connections and targets keeps the registries consistent: a connection
  is listed under the database it points to, once, exactly as long as it is open. Closing twice is
  closing once.\<close>

theorem registry_invariant:
  assumes "wf_store w" and "st_dbs w n = Some d" and "st_conns w c = Some cn"
    and "cn_database cn = None" and "\<not> cn_once cn"
  shows "wf_store (Register n c w) \<and> wf_store (Close x w) \<and> wf_store (snd (Apply n rt w))
     \<and> wf_store (snd (Clear n w)) \<and> wf_store (snd (dropAll n w))
     \<and> c \<in> set (conns_of n (Register n c w)) \<and> c \<notin> set (conns_of n (Close c (Register n c w)))
     \<and> Close x (Close x w) = Close x w"
proof -
  have "Close x (Close x w) = Close x w"
  proof (cases "st_conns w x")
    case (Some cn)
    then have "\<exists>cn'. st_conns (Close x w) x = Some cn' \<and> cn_once cn'"
      by (simp add: Close_st_conns)
    then show ?thesis by (auto simp: Close_def [of x "Close x w"])
  qed (simp add: Close_def)
  moreover note reg = Register_simps [OF assms]
  ultimately show ?thesis
    using assms(1) Close_conns_of [OF reg(3)]
    by (simp add: reg Close_wf dbs.apply_inv dbs.clear_inv dropAll_simps)
qed

text \<open>A store with one idle database, one registered connection (0) and one new connection (1).\<close>

definition sample_rt :: ResolvedTarget where
  "sample_rt = \<lparr>rt_Name = ''local'', rt_Host = ''127.0.0.1'', rt_Port = 5432, rt_User = ''pg'',
     rt_Password = ''pw'', rt_Database = ''app_dev'', rt_SSLMode = [], rt_AuthSource = []\<rparr>"

definition new_conn :: "ResolvedTarget \<Rightarrow> Conn" where
  "new_conn rt = \<lparr>cn_Client = Some False, cn_Upstream = Some False, cn_Resolved = rt,
     cn_once = False, cn_database = None\<rparr>"

definition sample_store :: store where
  "sample_store =
     \<lparr>st_dbs = [''appdb'' \<mapsto> (NewDatabase (c_Databases sample_config ! 0)
                              (c_ForwardTargets sample_config))
                              \<lparr>db_current := Some sample_rt, db_conns := [0]\<rparr>],
      st_conns = [0 \<mapsto> (new_conn sample_rt)\<lparr>cn_database := Some ''appdb''\<rparr>,
                  1 \<mapsto> new_conn sample_rt]\<rparr>"

lemma sample_store_wf: "wf_store sample_store"
  by (auto simp: wf_store_def conns_of_def sample_store_def new_conn_def split: if_splits)

theorem Apply_closes_all_witness:
  "wf_store sample_store \<and> fst (Apply ''appdb'' sample_rt sample_store) = (Some sample_rt, 1)
   \<and> Current ''appdb'' (snd (Apply ''appdb'' sample_rt sample_store)) = Some sample_rt
   \<and> ActiveConns ''appdb'' (snd (Apply ''appdb'' sample_rt sample_store)) = 0"
proof -
  have k: "st_dbs sample_store ''appdb'' \<noteq> None" by (simp add: sample_store_def)
  have r: "fst (Apply ''appdb'' sample_rt sample_store) = (Some sample_rt, 1)" by code_simp
  have "Apply ''appdb'' sample_rt sample_store =
      ((Some sample_rt, 1), snd (Apply ''appdb'' sample_rt sample_store))"
    by (metis prod.collapse r)
  from Apply_closes_all [OF sample_store_wf k this] r sample_store_wf show ?thesis by blast
qed

theorem registry_invariant_witness:
  "wf_store (Register ''appdb'' 1 sample_store)
   \<and> 1 \<in> set (conns_of ''appdb'' (Register ''appdb'' 1 sample_store))
   \<and> Close 0 (Close 0 sample_store) = Close 0 sample_store"
proof -
  have d: "st_dbs sample_store ''appdb'' = Some (the (st_dbs sample_store ''appdb''))"
    and c: "st_conns sample_store 1 = Some (new_conn sample_rt)"
    by (simp_all add: sample_store_def)
  have "cn_database (new_conn sample_rt) = None" and "\<not> cn_once (new_conn sample_rt)"
    by (simp_all add: new_conn_def)
  from registry_invariant [OF sample_store_wf d c this, where x = 0] show ?thesis by blast
qed

section \<open>Resolving a target\<close>

lemma NewDatabase_byName:
  "db_byName (NewDatabase c fwd) n = Some t \<Longrightarrow> t \<in> set (d_Targets c) \<and> t_Name t = n"
  by (auto simp: NewDatabase_def dest: foldl_upd_SomeD)

lemma HasTarget_iff: "HasTarget (NewDatabase c fwd) n \<longleftrightarrow> n \<in> set (map t_Name (d_Targets c))"
  using foldl_upd_None_iff [of t_Name "\<lambda>t. t" Map.empty "d_Targets c" n]
  by (auto simp: HasTarget_def NewDatabase_def)

lemma Resolve_None: "Resolve s vars = (r, m, None) \<Longrightarrow> m = []"
proof -
  have "snd (snd (Resolve_loop s vars i q b miss)) = None \<Longrightarrow>
    fst (snd (Resolve_loop s vars i q b miss)) = []" for i q b miss
    by (induction s vars i q b miss rule: Resolve_loop.induct)
      (auto split: if_splits option.splits)
  from this [of 0 s "[]" "[]"]
  show "Resolve s vars = (r, m, None) \<Longrightarrow> m = []" by (simp add: Resolve_def)
qed

lemma ResolveTarget_Inr:
  assumes "ResolveTarget d name vars = Inr rt"
  obtains t where "db_byName d name = Some t" and "rt_Name rt = t_Name t"
    and "Resolve (t_Database t) vars = (rt_Database rt, [], None)"
    and "rt_Database rt = [] \<or> ValidIdentifier (rt_Database rt)"
    and "(rt_Host rt, rt_Port rt) = ResolveEndpoint t (db_fwd d)"
    and "rt_User rt = t_User t" "rt_Password rt = t_Password t"
    and "rt_SSLMode rt = t_SSLMode t" "rt_AuthSource rt = t_AuthSource t"
proof -
  from assms obtain t where t: "db_byName d name = Some t"
    by (cases "db_byName d name") (auto simp: ResolveTarget_def)
  moreover obtain r m e where rme: "Resolve (t_Database t) vars = (r, m, e)"
    by (cases "Resolve (t_Database t) vars")
  moreover from assms t rme have "e = None"
    by (cases e) (auto simp: ResolveTarget_def split: if_splits)
  moreover from this rme have "m = []" by (simp add: Resolve_None)
  moreover obtain h p where "ResolveEndpoint t (db_fwd d) = (h, p)" by (cases "ResolveEndpoint t (db_fwd d)")
  ultimately show ?thesis
    using assms that [of t] by (auto simp: ResolveTarget_def split: if_splits)
qed

text \<open>C29. For an accepted configuration, a target that resolves is one the database declares under
  that name, with a dialable endpoint, credentials that are not empty, and a database name that is
  empty or a valid identifier, so nothing a variable expands to can smuggle other characters into it.\<close>

theorem ResolveTarget_sound:
  assumes "snd (Validate logger cfg) = Ok ()" and "c \<in> set (c_Databases cfg)"
    and "ResolveTarget (NewDatabase c (c_ForwardTargets cfg)) name vars = Inr rt"
  shows "rt_Name rt = name \<and> name \<in> set (map t_Name (d_Targets c))
     \<and> rt_Host rt \<noteq> [] \<and> 1 \<le> rt_Port rt \<and> rt_Port rt \<le> 65535
     \<and> rt_User rt \<noteq> [] \<and> rt_Password rt \<noteq> []
     \<and> (rt_Database rt = [] \<or> ValidIdentifier (rt_Database rt))"
proof -
  from assms(1) have valid: "valid_config cfg" by (simp add: Validate_Ok_iff)
  from assms(3) obtain t where t: "db_byName (NewDatabase c (c_ForwardTargets cfg)) name = Some t"
    and f: "rt_Name rt = t_Name t" "rt_Database rt = [] \<or> ValidIdentifier (rt_Database rt)"
      "(rt_Host rt, rt_Port rt) = ResolveEndpoint t (c_ForwardTargets cfg)"
      "rt_User rt = t_User t" "rt_Password rt = t_Password t"
    by (rule ResolveTarget_Inr) (simp add: NewDatabase_def)
  from t have t_in: "t \<in> set (d_Targets c)" "t_Name t = name" by (auto dest: NewDatabase_byName)
  with valid assms(2) have "t_User t \<noteq> [] \<and> t_Password t \<noteq> []"
    by (auto dest: valid_config_target simp: target_ok_def)
  moreover from t_in have "name \<in> set (map t_Name (d_Targets c))" by auto
  moreover from f(3) [symmetric] have "rt_Host rt \<noteq> [] \<and> port_ok (rt_Port rt)"
    using valid_config_endpoint_ok [OF valid assms(2) t_in(1)] by blast
  ultimately show ?thesis using f t_in by (simp add: port_ok_def)
qed

theorem ResolveTarget_sound_witness:
  "\<exists>rt. ResolveTarget (NewDatabase (c_Databases sample_config ! 0) (c_ForwardTargets sample_config))
          ''staging'' [''BRANCH'' \<mapsto> ''main''] = Inr rt
      \<and> rt_Database rt = ''app_main_staging'' \<and> ValidIdentifier (rt_Database rt) \<and> rt_Host rt \<noteq> []"
proof -
  let ?c = "c_Databases sample_config ! 0"
  have v: "snd (Validate True sample_config) = Ok ()" by code_simp
  have c: "?c \<in> set (c_Databases sample_config)" by (simp add: sample_config_def)
  have e: "ResolveTarget (NewDatabase ?c (c_ForwardTargets sample_config)) ''staging''
      [''BRANCH'' \<mapsto> ''main''] =
      Inr \<lparr>rt_Name = ''staging'', rt_Host = ''127.0.0.1'', rt_Port = 15432, rt_User = ''stg'',
        rt_Password = ''pw2'', rt_Database = ''app_main_staging'', rt_SSLMode = ''require'',
        rt_AuthSource = []\<rparr>" (is "_ = Inr ?rt")
    by code_simp
  from ResolveTarget_sound [OF v c e]
  have "ValidIdentifier (rt_Database ?rt) \<and> rt_Host ?rt \<noteq> []" by simp
  with e show ?thesis by auto
qed

definition dollar_config :: Config where
  "dollar_config = sample_config\<lparr>c_Databases :=
     map (\<lambda>d. d\<lparr>d_Targets := map (\<lambda>t. t\<lparr>t_Database := ''app$1''\<rparr>) (d_Targets d)\<rparr>)
       (c_Databases sample_config)\<rparr>"

text \<open>A plain database name may contain \<open>$\<close> and passes validation, but a single \<open>$\<close> makes the
  name unusable: switching to such a target fails whatever variables are given.\<close>

theorem dollar_name_never_resolves:
  "snd (Validate True dollar_config) = Ok () \<and> ValidIdentifier ''app$1'' \<and>
   (\<forall>vars. ResolveTarget (NewDatabase (c_Databases dollar_config ! 0) (c_ForwardTargets dollar_config))
             ''local'' vars
      = Inl ([], Errorf ''bare $ without ${...} in %q at index %d'' [AStr ''app$1'', AInt 3]))"
proof (intro conjI allI)
  show "snd (Validate True dollar_config) = Ok ()" and "ValidIdentifier ''app$1''" by code_simp+
  fix vars :: "string \<rightharpoonup> string"
  have "Resolve ''app$1'' vars =
      ([], [], Some (Errorf ''bare $ without ${...} in %q at index %d'' [AStr ''app$1'', AInt 3]))"
    by (simp add: Resolve_def)
  then show "ResolveTarget (NewDatabase (c_Databases dollar_config ! 0) (c_ForwardTargets dollar_config))
       ''local'' vars
      = Inl ([], Errorf ''bare $ without ${...} in %q at index %d'' [AStr ''app$1'', AInt 3])"
    by (simp add: ResolveTarget_def NewDatabase_def dollar_config_def sample_config_def)
qed

section \<open>What switching never changes\<close>

definition db_static :: "Database \<Rightarrow> Database" where
  "db_static d = d\<lparr>db_current := None, db_conns := []\<rparr>"

definition static_of :: "string \<Rightarrow> store \<Rightarrow> Database option" where
  "static_of n w = map_option db_static (st_dbs w n)"

lemma db_static_fields [simp]:
  "db_byName (db_static d) = db_byName d" "db_fwd (db_static d) = db_fwd d"
  "db_virtualName (db_static d) = db_virtualName d" "db_adapter (db_static d) = db_adapter d"
  by (simp_all add: db_static_def)

lemma db_static_simps [simp]:
  "HasTarget (db_static d) t = HasTarget d t"
  "ResolveTarget (db_static d) t vars = ResolveTarget d t vars"
  unfolding HasTarget_def ResolveTarget_def db_static_fields by (rule refl)+

lemma static_of_ops [simp]:
  "static_of m (set_current n cur w) = static_of m w"
  "static_of m (deregister n c w) = static_of m w"
  "static_of m (Close c w) = static_of m w"
  "static_of m (Register n c w) = static_of m w"
  by (auto simp: static_of_def set_current_def deregister_def Close_def Register_def db_static_def
      Let_def split: option.splits)

lemma static_of_conns [simp]: "static_of m (w\<lparr>st_conns := f\<rparr>) = static_of m w"
  by (simp add: static_of_def)

lemma static_of_fold_Close [simp]: "static_of m (fold Close xs w) = static_of m w"
  by (induction xs arbitrary: w) auto

lemma static_of_switch [simp]:
  "static_of m (snd (dropAll n w)) = static_of m w"
  "static_of m (snd (Apply n rt w)) = static_of m w"
  "static_of m (snd (Clear n w)) = static_of m w"
  by (simp_all add: dropAll_eq Apply_eq Clear_eq)

section \<open>A connection that comes and goes\<close>

lemma add_new_conn_wf:
  assumes "wf_store w" and "st_conns w c = None"
  shows "wf_store (w\<lparr>st_conns := (st_conns w)(c \<mapsto> new_conn rt)\<rparr>)"
proof -
  have "c \<notin> set (conns_of n w)" for n using wf_registered [OF assms(1)] assms(2) by fastforce
  with assms(1) show ?thesis by (auto simp: wf_store_def conns_of_only_dbs new_conn_def)
qed

text \<open>Registering a fresh connection and closing it leaves the registry as it was.\<close>

lemma Register_Close:
  assumes "wf_store w" and "st_conns w c = None"
    and "w' = Close c (Register n c (w\<lparr>st_conns := (st_conns w)(c \<mapsto> new_conn rt)\<rparr>))"
  shows "wf_store w'" and "conns_of m w' = conns_of m w" and "Current m w' = Current m w"
proof -
  let ?w1 = "w\<lparr>st_conns := (st_conns w)(c \<mapsto> new_conn rt)\<rparr>"
  have wf1: "wf_store ?w1" using assms(1,2) by (rule add_new_conn_wf)
  have new: "c \<notin> set (conns_of k w)" for k using wf_registered [OF assms(1)] assms(2) by fastforce
  have same: "conns_of k ?w1 = conns_of k w" "Current k ?w1 = Current k w" for k
    by (simp_all add: conns_of_def Current_def)
  have "wf_store (Register n c ?w1) \<and> Current m (Register n c ?w1) = Current m w
      \<and> removeAll c (conns_of m (Register n c ?w1)) = conns_of m w"
  proof (cases "st_dbs w n")
    case None
    then have "Register n c ?w1 = ?w1" by (simp add: Register_def)
    then show ?thesis using wf1 same new [of m] by simp
  next
    case (Some d)
    then have "st_dbs ?w1 n = Some d" and "st_conns ?w1 c = Some (new_conn rt)" by simp_all
    note reg = Register_simps [OF wf1 this]
    have c: "cn_database (new_conn rt) = None" "\<not> cn_once (new_conn rt)" by (simp_all add: new_conn_def)
    show ?thesis using reg(1,2) [OF c, of m] reg(3) [OF c] same new by (simp split: if_splits)
  qed
  then show "wf_store w'" and "conns_of m w' = conns_of m w" and "Current m w' = Current m w"
    unfolding assms(3) by (auto simp: Close_conns_of Close_wf)
qed

end
