(* ===== verification/Server.thy ===== *)
theory Server
  imports Database
begin

text \<open>
  The server state of \<open>internal/proxy/server.go\<close>: construction, the global switch \<open>SwitchAll\<close>,
  routing by adapter and name, binding of the listeners and shutdown. The \<open>range\<close> loops over the
  \<open>databases\<close> map run in an order that Go leaves open, so each loop takes its order as an argument;
  the theorems hold for any two orders that list every database once. Logging is not modelled.
\<close>

section \<open>State\<close>

text \<open>\<open>srv_listeners\<close> maps an adapter to its listener: the address it reports and whether it is
  open.\<close>

record Server =
  srv_listenAddrs :: "string \<rightharpoonup> string"
  srv_connSeq :: u32
  srv_listeners :: "string \<rightharpoonup> string \<times> bool"
  srv_store :: store
  srv_cfg :: Config
  srv_currentTarget :: string
  srv_currentVars :: "string \<rightharpoonup> string"
  srv_closed :: bool

record SwitchResult =
  sr_VirtualName :: string
  sr_Previous :: string
  sr_PreviousDatabase :: string
  sr_Current :: string
  sr_CurrentDatabase :: string
  sr_ClosedConns :: nat
  sr_Skipped :: bool

datatype plan = Skip | Switch ResolvedTarget

section \<open>SwitchAll\<close>

definition zero_rt :: ResolvedTarget where
  "zero_rt = \<lparr>rt_Name = [], rt_Host = [], rt_Port = 0, rt_User = [], rt_Password = [],
     rt_Database = [], rt_SSLMode = [], rt_AuthSource = []\<rparr>"

text \<open>Phase 1: classify every database and resolve its target.\<close>

fun plan_loop ::
  "(string \<rightharpoonup> Database) \<Rightarrow> string \<Rightarrow> (string \<rightharpoonup> string) \<Rightarrow> string list
     \<Rightarrow> (string \<rightharpoonup> plan) \<Rightarrow> nat \<Rightarrow> ((string \<rightharpoonup> plan) \<times> nat) res" where
  "plan_loop dbs target vars [] plans declared = Ok (plans, declared)"
| "plan_loop dbs target vars (name # names) plans declared =
     (case dbs name of
        None \<Rightarrow> plan_loop dbs target vars names plans declared
      | Some d \<Rightarrow>
          if \<not> HasTarget d target
          then plan_loop dbs target vars names (plans(name \<mapsto> Skip)) declared
          else (case ResolveTarget d target vars of
                  Inl (missing, err) \<Rightarrow> Err (SwitchPlanError name missing err)
                | Inr rt \<Rightarrow>
                    plan_loop dbs target vars names (plans(name \<mapsto> Switch rt)) (declared + 1)))"

definition switch_result :: "string \<Rightarrow> plan \<Rightarrow> ResolvedTarget option \<times> nat \<Rightarrow> SwitchResult" where
  "switch_result name p report =
     \<lparr>sr_VirtualName = name,
      sr_Previous = (case fst report of None \<Rightarrow> [] | Some prev \<Rightarrow> rt_Name prev),
      sr_PreviousDatabase = (case fst report of None \<Rightarrow> [] | Some prev \<Rightarrow> rt_Database prev),
      sr_Current = (case p of Skip \<Rightarrow> [] | Switch rt \<Rightarrow> rt_Name rt),
      sr_CurrentDatabase = (case p of Skip \<Rightarrow> [] | Switch rt \<Rightarrow> rt_Database rt),
      sr_ClosedConns = snd report,
      sr_Skipped = (p = Skip)\<rparr>"

text \<open>Phase 2: commit, with the two operations of a database as arguments. A name without a plan
  would read the zero \<open>plan\<close> from the map.\<close>

definition plan_of :: "(string \<rightharpoonup> plan) \<Rightarrow> string \<Rightarrow> plan" where
  "plan_of plans name = (case plans name of None \<Rightarrow> Switch zero_rt | Some p \<Rightarrow> p)"

fun commit_loop ::
  "(string \<Rightarrow> ResolvedTarget \<Rightarrow> 's \<Rightarrow> (ResolvedTarget option \<times> nat) \<times> 's)
     \<Rightarrow> (string \<Rightarrow> 's \<Rightarrow> (ResolvedTarget option \<times> nat) \<times> 's)
     \<Rightarrow> (string \<rightharpoonup> plan) \<Rightarrow> string list \<Rightarrow> 's \<Rightarrow> SwitchResult list \<times> 's" where
  "commit_loop apply_to clear plans [] s = ([], s)"
| "commit_loop apply_to clear plans (name # names) s =
     (let p = plan_of plans name;
          (report, s') = (case p of Skip \<Rightarrow> clear name s | Switch rt \<Rightarrow> apply_to name rt s);
          (results, s'') = commit_loop apply_to clear plans names s'
      in (switch_result name p report # results, s''))"

definition SwitchAll ::
  "string list \<Rightarrow> string list \<Rightarrow> string \<Rightarrow> (string \<rightharpoonup> string) \<Rightarrow> Server
     \<Rightarrow> SwitchResult list res \<times> Server" where
  "SwitchAll order1 order2 target vars s =
     (case plan_loop (st_dbs (srv_store s)) target vars order1 Map.empty 0 of
        Err e \<Rightarrow> (Err e, s)
      | Panic \<Rightarrow> (Panic, s)
      | Ok (plans, declared) \<Rightarrow>
          if declared = 0
          then (Err (Errorf ''no databases declare target %q'' [AStr target]), s)
          else (let (results, st) = commit_loop Apply Clear plans order2 (srv_store s)
                in (Ok results, s\<lparr>srv_store := st, srv_currentTarget := target,
                                  srv_currentVars := vars\<rparr>)))"

section \<open>Construction, queries, listeners, shutdown\<close>

text \<open>\<open>net.JoinHostPort\<close>.\<close>

definition JoinHostPort :: "string \<Rightarrow> string \<Rightarrow> string" where
  "JoinHostPort host port =
     (if CHR '':'' \<in> set host then ''['' @ host @ '']:'' @ port else host @ '':'' @ port)"

definition new_databases :: "Config \<Rightarrow> (string \<rightharpoonup> Database)" where
  "new_databases cfg =
     foldl (\<lambda>m c. m(d_VirtualName c \<mapsto> NewDatabase c (c_ForwardTargets cfg))) Map.empty
       (c_Databases cfg)"

fun listen_addrs :: "Config \<Rightarrow> string list \<Rightarrow> (string \<rightharpoonup> string) \<Rightarrow> (string \<rightharpoonup> string) res" where
  "listen_addrs cfg [] acc = Ok acc"
| "listen_addrs cfg (adapter # as) acc =
     (case ListenPort cfg adapter of
        None \<Rightarrow> Err (Errorf ''adapter %q has no listen_ports entry'' [AStr adapter])
      | Some port \<Rightarrow>
          listen_addrs cfg as (acc(adapter \<mapsto> JoinHostPort (ListenHostOrDefault cfg) (Itoa port))))"

definition new_server :: "Config \<Rightarrow> (string \<rightharpoonup> string) \<Rightarrow> (string \<rightharpoonup> string) \<Rightarrow> Server" where
  "new_server cfg addrs vars =
     \<lparr>srv_listenAddrs = addrs, srv_connSeq = 0, srv_listeners = Map.empty,
      srv_store = \<lparr>st_dbs = new_databases cfg, st_conns = Map.empty\<rparr>,
      srv_cfg = cfg, srv_currentTarget = [], srv_currentVars = vars, srv_closed = False\<rparr>"

definition New ::
  "string list \<Rightarrow> string list \<Rightarrow> Config \<Rightarrow> string \<Rightarrow> (string \<rightharpoonup> string) \<Rightarrow> Server res" where
  "New order1 order2 cfg target vars =
     bindR (listen_addrs cfg (UsedAdapters cfg) Map.empty) (\<lambda>addrs.
       (case SwitchAll order1 order2 target vars (new_server cfg addrs vars) of
          (Ok _, s) \<Rightarrow> Ok s
        | (Err e, _) \<Rightarrow> Err e
        | (Panic, _) \<Rightarrow> Panic))"

text \<open>A \<open>*Database\<close> is returned as the name it is stored under.\<close>

definition lookupDatabase :: "Server \<Rightarrow> string \<Rightarrow> string \<Rightarrow> string option" where
  "lookupDatabase s adapter name =
     (case st_dbs (srv_store s) name of
        None \<Rightarrow> None
      | Some d \<Rightarrow> if db_adapter d \<noteq> adapter then None else Some name)"

definition CurrentTarget :: "Server \<Rightarrow> string \<times> (string \<rightharpoonup> string)" where
  "CurrentTarget s = (srv_currentTarget s, srv_currentVars s)"

definition Addrs :: "Server \<Rightarrow> (string \<rightharpoonup> string)" where
  "Addrs s = (\<lambda>adapter.
     (case srv_listenAddrs s adapter of
        None \<Rightarrow> None
      | Some addr \<Rightarrow> (case srv_listeners s adapter of None \<Rightarrow> Some addr | Some ln \<Rightarrow> Some (fst ln))))"

definition AddrFor :: "Server \<Rightarrow> string \<Rightarrow> string" where
  "AddrFor s adapter =
     (case srv_listeners s adapter of
        Some ln \<Rightarrow> fst ln
      | None \<Rightarrow> (case srv_listenAddrs s adapter of None \<Rightarrow> [] | Some addr \<Rightarrow> addr))"

text \<open>The binding half of \<open>Start\<close>. \<open>listen\<close> stands for \<open>net.Listen\<close> and gives the address the
  listener reports; the listeners opened by a call that fails, or that finds the server shut down,
  are closed again and never stored.\<close>

fun bind_listeners ::
  "(string \<Rightarrow> string res) \<Rightarrow> (string \<times> string) list \<Rightarrow> (string \<rightharpoonup> string \<times> bool)
     \<Rightarrow> (string \<rightharpoonup> string \<times> bool) res" where
  "bind_listeners listen [] acc = Ok acc"
| "bind_listeners listen ((adapter, addr) # as) acc =
     (case listen addr of
        Ok live \<Rightarrow> bind_listeners listen as (acc(adapter \<mapsto> (live, True)))
      | Err e \<Rightarrow> Err (Errorf ''listen %s (%s): %w'' [AStr addr, AStr adapter, AWrap e])
      | Panic \<Rightarrow> Panic)"

definition Start_bind ::
  "(string \<Rightarrow> string res) \<Rightarrow> (string \<times> string) list \<Rightarrow> Server \<Rightarrow> unit res \<times> Server" where
  "Start_bind listen order s =
     (case bind_listeners listen order Map.empty of
        Err e \<Rightarrow> (Err e, s)
      | Panic \<Rightarrow> (Panic, s)
      | Ok ls \<Rightarrow> if srv_closed s then (Ok (), s) else (Ok (), s\<lparr>srv_listeners := ls\<rparr>))"

definition Shutdown :: "string list \<Rightarrow> Server \<Rightarrow> Server" where
  "Shutdown order s =
     (if srv_closed s then s
      else s\<lparr>srv_closed := True,
             srv_listeners := (\<lambda>a. map_option (\<lambda>ln. (fst ln, False)) (srv_listeners s a)),
             srv_store := fold (\<lambda>n w. snd (dropAll n w)) order (srv_store s)\<rparr>)"

section \<open>The commit phase\<close>

context target_switching
begin

text \<open>Committing a list of plans, one per known database, gives every listed database its planned
  target, closes its connections, and reports what it had before.\<close>

lemma commit_loop_post:
  assumes "inv s" and "distinct names" and "list_all (\<lambda>n. known n s) names"
    and "commit_loop apply_to clear plans names s = (results, s')"
  shows "inv s'"
    and "known m s' = known m s"
    and "cur m s' = (if m \<in> set names
           then (case plan_of plans m of Skip \<Rightarrow> None | Switch rt \<Rightarrow> Some rt) else cur m s)"
    and "open_conns m s' = (if m \<in> set names then [] else open_conns m s)"
    and "results = map (\<lambda>n. switch_result n (plan_of plans n) (cur n s, length (open_conns n s))) names"
proof -
  from assms have "inv s' \<and> known m s' = known m s
    \<and> cur m s' = (if m \<in> set names
           then (case plan_of plans m of Skip \<Rightarrow> None | Switch rt \<Rightarrow> Some rt) else cur m s)
    \<and> open_conns m s' = (if m \<in> set names then [] else open_conns m s)
    \<and> results = map (\<lambda>n. switch_result n (plan_of plans n) (cur n s, length (open_conns n s))) names"
  proof (induction names arbitrary: s results)
    case (Cons n names)
    let ?p = "plan_of plans n"
    define s1 where "s1 = snd (case ?p of Skip \<Rightarrow> clear n s | Switch rt \<Rightarrow> apply_to n rt s)"
    have n: "known n s" and names: "list_all (\<lambda>n. known n s) names" "n \<notin> set names" "distinct names"
      using Cons.prems by auto
    have s1: "inv s1" "\<And>m. known m s1 = known m s"
      "\<And>m. cur m s1 = (if m = n then (case ?p of Skip \<Rightarrow> None | Switch rt \<Rightarrow> Some rt) else cur m s)"
      "\<And>m. open_conns m s1 = (if m = n then [] else open_conns m s)"
      using Cons.prems(1) n
      by (auto simp: s1_def apply_inv clear_inv apply_known clear_known apply_cur clear_cur
          apply_conns clear_conns split: plan.splits)
    have rep: "(case ?p of Skip \<Rightarrow> clear n s | Switch rt \<Rightarrow> apply_to n rt s)
        = ((cur n s, length (open_conns n s)), s1)"
      using Cons.prems(1) apply_report clear_report
      by (auto simp: s1_def prod_eq_iff split: plan.splits)
    obtain rs where rs: "commit_loop apply_to clear plans names s1 = (rs, s')"
      and results: "results = switch_result n ?p (cur n s, length (open_conns n s)) # rs"
      using Cons.prems(4) rep by (auto simp: Let_def split: prod.splits)
    have "list_all (\<lambda>n. known n s1) names" using names s1(2) by (simp add: list_all_iff)
    from Cons.IH [OF s1(1) names(3) this rs] names(2) show ?case
      by (auto simp: s1 results)
  qed simp
  then show "inv s'" and "known m s' = known m s"
    and "cur m s' = (if m \<in> set names
           then (case plan_of plans m of Skip \<Rightarrow> None | Switch rt \<Rightarrow> Some rt) else cur m s)"
    and "open_conns m s' = (if m \<in> set names then [] else open_conns m s)"
    and "results = map (\<lambda>n. switch_result n (plan_of plans n) (cur n s, length (open_conns n s))) names"
    by blast+
qed

end

section \<open>The planning phase\<close>

text \<open>The target a database would get: none if it does not declare the name or cannot resolve it.\<close>

definition target_for :: "Database \<Rightarrow> string \<Rightarrow> (string \<rightharpoonup> string) \<Rightarrow> ResolvedTarget option" where
  "target_for d target vars =
     (case ResolveTarget d target vars of Inl _ \<Rightarrow> None | Inr rt \<Rightarrow> Some rt)"

definition switchable :: "(string \<rightharpoonup> Database) \<Rightarrow> string \<Rightarrow> (string \<rightharpoonup> string) \<Rightarrow> bool" where
  "switchable dbs target vars \<longleftrightarrow>
     (\<exists>n d. dbs n = Some d \<and> HasTarget d target)
     \<and> (\<forall>n d. dbs n = Some d \<and> HasTarget d target \<longrightarrow> target_for d target vars \<noteq> None)"

definition order_of :: "string list \<Rightarrow> Server \<Rightarrow> bool" where
  "order_of order s \<longleftrightarrow> distinct order \<and> set order = dom (st_dbs (srv_store s))"

definition plan_for :: "Database \<Rightarrow> string \<Rightarrow> (string \<rightharpoonup> string) \<Rightarrow> plan option" where
  "plan_for d target vars =
     (if \<not> HasTarget d target then Some Skip else map_option Switch (target_for d target vars))"

lemma target_for_undeclared: "\<not> HasTarget d target \<Longrightarrow> target_for d target vars = None"
  by (simp add: target_for_def HasTarget_def ResolveTarget_def)

text \<open>The plans and the count that the loop ends with, from the ones it starts with.\<close>

lemma plan_loop_step:
  assumes "plan_loop dbs target vars (a # names) plans0 k = Ok (plans, declared)" and "dbs a = Some d"
  obtains p where "plan_for d target vars = Some p"
    and "plan_loop dbs target vars names (plans0(a \<mapsto> p)) (if p = Skip then k else k + 1)
           = Ok (plans, declared)"
    and "p = Skip \<longleftrightarrow> \<not> HasTarget d target"
proof (cases "HasTarget d target")
  case False
  with assms that [of Skip] show ?thesis by (simp add: plan_for_def)
next
  case True
  with assms obtain rt where "ResolveTarget d target vars = Inr rt" by (auto split: sum.splits)
  with True assms that [of "Switch rt"] show ?thesis by (simp add: plan_for_def target_for_def)
qed

lemma plan_loop_other:
  assumes "plan_loop dbs target vars names plans0 k = Ok (plans, declared)" and "n \<notin> set names"
  shows "plans n = plans0 n"
  using assms
proof (induction names arbitrary: plans0 k)
  case (Cons a names)
  show ?case
  proof (cases "dbs a")
    case None
    with Cons show ?thesis by simp
  next
    case (Some d)
    with Cons.prems(1) obtain p where
      "plan_loop dbs target vars names (plans0(a \<mapsto> p)) (if p = Skip then k else k + 1)
         = Ok (plans, declared)" by (rule plan_loop_step)
    from Cons.IH [OF this] Cons.prems(2) show ?thesis by simp
  qed
qed simp

lemma plan_loop_plans:
  assumes "plan_loop dbs target vars names plans0 k = Ok (plans, declared)" and "distinct names"
    and "n \<in> set names" and "dbs n = Some d"
  shows "plans n = plan_for d target vars \<and> plans n \<noteq> None"
  using assms(1-3)
proof (induction names arbitrary: plans0 k)
  case (Cons a names)
  show ?case
  proof (cases "dbs a")
    case None
    with Cons assms(4) show ?thesis by auto
  next
    case (Some da)
    with Cons.prems(1) obtain p where p: "plan_for da target vars = Some p"
      "plan_loop dbs target vars names (plans0(a \<mapsto> p)) (if p = Skip then k else k + 1)
         = Ok (plans, declared)" by (rule plan_loop_step)
    show ?thesis
    proof (cases "n = a")
      case True
      with Cons.prems plan_loop_other [OF p(2), of a] p(1) Some assms(4) show ?thesis by simp
    next
      case False
      with Cons.prems have "distinct names" "n \<in> set names" by auto
      with Cons.IH [OF p(2)] show ?thesis by blast
    qed
  qed
qed simp

lemma plan_loop_declared:
  assumes "plan_loop dbs target vars names plans0 k = Ok (plans, declared)"
  shows "k \<le> declared \<and>
    (declared = k \<longleftrightarrow> (\<forall>n \<in> set names. \<forall>d. dbs n = Some d \<longrightarrow> \<not> HasTarget d target))"
  using assms
proof (induction names arbitrary: plans0 k)
  case (Cons a names)
  show ?case
  proof (cases "dbs a")
    case None
    with Cons show ?thesis by auto
  next
    case (Some d)
    with Cons.prems obtain p where
      p: "plan_loop dbs target vars names (plans0(a \<mapsto> p)) (if p = Skip then k else k + 1)
         = Ok (plans, declared)" "p = Skip \<longleftrightarrow> \<not> HasTarget d target" by (rule plan_loop_step)
    from Cons.IH [OF p(1)] p(2) Some show ?thesis by (cases "p = Skip") auto
  qed
qed simp

lemma plan_loop_complete:
  assumes "\<forall>n d. dbs n = Some d \<and> HasTarget d target \<longrightarrow> target_for d target vars \<noteq> None"
  shows "\<exists>plans declared. plan_loop dbs target vars names plans0 k = Ok (plans, declared)"
proof (induction names arbitrary: plans0 k)
  case (Cons a names)
  show ?case
  proof (cases "\<exists>d. dbs a = Some d \<and> HasTarget d target")
    case True
    then obtain d where d: "dbs a = Some d" "HasTarget d target" by blast
    with assms obtain rt where "ResolveTarget d target vars = Inr rt"
      by (fastforce simp: target_for_def split: sum.splits)
    with d Cons show ?thesis by simp
  next
    case False
    with Cons show ?thesis by (auto split: option.splits)
  qed
qed simp

lemma plan_loop_never_Panic: "plan_loop dbs target vars names plans k \<noteq> Panic"
proof (induction names arbitrary: plans k)
  case (Cons a names)
  then show ?case by (cases "dbs a") (simp_all split: sum.split prod.split)
qed simp

section \<open>SwitchAll\<close>

lemma SwitchAll_fail_unchanged:
  "fst (SwitchAll order1 order2 target vars s) = Err e \<Longrightarrow> snd (SwitchAll order1 order2 target vars s) = s"
  by (cases "plan_loop (st_dbs (srv_store s)) target vars order1 Map.empty 0")
    (simp_all add: SwitchAll_def split_def Let_def split: if_splits)

lemma SwitchAll_Ok_iff:
  assumes "order_of order1 s"
  shows "(\<exists>rs. fst (SwitchAll order1 order2 target vars s) = Ok rs) \<longleftrightarrow>
         switchable (st_dbs (srv_store s)) target vars"
proof
  let ?dbs = "st_dbs (srv_store s)"
  assume "\<exists>rs. fst (SwitchAll order1 order2 target vars s) = Ok rs"
  then obtain plans declared where
    p: "plan_loop ?dbs target vars order1 Map.empty 0 = Ok (plans, declared)" "declared \<noteq> 0"
    by (auto simp: SwitchAll_def split: res.splits if_splits)
  from assms have o: "distinct order1" "set order1 = dom ?dbs" by (auto simp: order_of_def)
  from plan_loop_declared [OF p(1)] p(2) o(2) have "\<exists>n d. ?dbs n = Some d \<and> HasTarget d target" by auto
  moreover have "target_for d target vars \<noteq> None" if "?dbs n = Some d" "HasTarget d target" for n d
  proof -
    from that(1) o(2) have "n \<in> set order1" by auto
    from plan_loop_plans [OF p(1) o(1) this that(1)] that(2) show ?thesis
      by (cases "target_for d target vars") (auto simp: plan_for_def)
  qed
  ultimately show "switchable ?dbs target vars" by (auto simp: switchable_def)
next
  let ?dbs = "st_dbs (srv_store s)"
  assume sw: "switchable ?dbs target vars"
  then have "\<forall>n d. ?dbs n = Some d \<and> HasTarget d target \<longrightarrow> target_for d target vars \<noteq> None"
    unfolding switchable_def by (rule conjunct2)
  from plan_loop_complete [OF this] obtain plans declared where
    p: "plan_loop ?dbs target vars order1 Map.empty 0 = Ok (plans, declared)" by blast
  from assms have o: "distinct order1" "set order1 = dom ?dbs" by (auto simp: order_of_def)
  from sw obtain n d where "?dbs n = Some d" "HasTarget d target"
    unfolding switchable_def by blast
  with plan_loop_declared [OF p] o(2) have "declared \<noteq> 0" by blast
  with p show "\<exists>rs. fst (SwitchAll order1 order2 target vars s) = Ok rs"
    by (cases "commit_loop Apply Clear plans order2 (srv_store s)") (simp add: SwitchAll_def)
qed

lemma SwitchAll_never_Panic: "fst (SwitchAll order1 order2 target vars s) \<noteq> Panic"
proof (cases "plan_loop (st_dbs (srv_store s)) target vars order1 Map.empty 0")
  case (Ok r)
  then show ?thesis by (simp add: SwitchAll_def split_def Let_def)
next
  case (Err e)
  then show ?thesis by (simp add: SwitchAll_def)
next
  case Panic
  with plan_loop_never_Panic show ?thesis by blast
qed

lemma static_of_commit_loop [simp]:
  "static_of m (snd (commit_loop Apply Clear plans names w)) = static_of m w"
proof (induction names arbitrary: w)
  case (Cons n names)
  show ?case
    by (cases "plan_of plans n") (simp_all add: Let_def split_def Cons.IH)
qed simp

lemma static_of_target_for:
  assumes "static_of n w' = static_of n w" and "st_dbs w n = Some d" and "st_dbs w' n = Some d'"
  shows "target_for d' target vars = target_for d target vars" and "db_adapter d' = db_adapter d"
proof -
  from assms have "db_static d' = db_static d" by (simp add: static_of_def)
  then have "ResolveTarget d' target vars = ResolveTarget d target vars"
    and "db_adapter d' = db_adapter d"
    by (metis db_static_simps(2), metis db_static_fields(4))
  then show "target_for d' target vars = target_for d target vars" and "db_adapter d' = db_adapter d"
    by (simp_all add: target_for_def)
qed

lemma SwitchAll_Ok_cases:
  assumes "SwitchAll order1 order2 target vars s = (Ok rs, s')"
  obtains plans declared st where
    "plan_loop (st_dbs (srv_store s)) target vars order1 Map.empty 0 = Ok (plans, declared)"
    and "declared \<noteq> 0" and "commit_loop Apply Clear plans order2 (srv_store s) = (rs, st)"
    and "s' = s\<lparr>srv_store := st, srv_currentTarget := target, srv_currentVars := vars\<rparr>"
proof (cases "plan_loop (st_dbs (srv_store s)) target vars order1 Map.empty 0")
  case (Ok r)
  obtain plans declared where r: "r = (plans, declared)" by (cases r)
  obtain rs' st where c: "commit_loop Apply Clear plans order2 (srv_store s) = (rs', st)"
    by (cases "commit_loop Apply Clear plans order2 (srv_store s)")
  from assms Ok r c that [of plans declared st] show ?thesis
    by (simp add: SwitchAll_def split: if_splits)
qed (use assms in \<open>simp_all add: SwitchAll_def\<close>)

lemma SwitchAll_post:
  assumes wf: "wf_store (srv_store s)" and o1: "order_of order1 s" and o2: "order_of order2 s"
    and ok: "SwitchAll order1 order2 target vars s = (Ok rs, s')"
  shows "wf_store (srv_store s')"
    and "static_of n (srv_store s') = static_of n (srv_store s)"
    and "st_dbs (srv_store s) n = Some d \<Longrightarrow> Current n (srv_store s') = target_for d target vars"
    and "conns_of n (srv_store s') = []"
    and "CurrentTarget s' = (target, vars)"
    and "rs = map (\<lambda>n. switch_result n
            (case target_for (the (st_dbs (srv_store s) n)) target vars of None \<Rightarrow> Skip | Some rt \<Rightarrow> Switch rt)
            (Current n (srv_store s), length (conns_of n (srv_store s)))) order2"
proof -
  let ?dbs = "st_dbs (srv_store s)"
  from ok obtain plans declared st where
    p: "plan_loop ?dbs target vars order1 Map.empty 0 = Ok (plans, declared)"
    and c: "commit_loop Apply Clear plans order2 (srv_store s) = (rs, st)"
    and s': "s' = s\<lparr>srv_store := st, srv_currentTarget := target, srv_currentVars := vars\<rparr>"
    by (rule SwitchAll_Ok_cases)
  from o1 o2 have o: "distinct order1" "set order1 = dom ?dbs" "distinct order2" "set order2 = dom ?dbs"
    by (auto simp: order_of_def)
  then have known: "list_all (\<lambda>n. ?dbs n \<noteq> None) order2" by (auto simp: list_all_iff)
  note post = dbs.commit_loop_post [OF wf o(3) known c]
  have plan: "plan_of plans n =
      (case target_for d target vars of None \<Rightarrow> Skip | Some rt \<Rightarrow> Switch rt)" if "?dbs n = Some d" for n d
  proof -
    from that o(2) have "n \<in> set order1" by auto
    from plan_loop_plans [OF p o(1) this that] show ?thesis
      by (cases "HasTarget d target"; cases "target_for d target vars")
        (auto simp: plan_of_def plan_for_def target_for_undeclared)
  qed
  show "wf_store (srv_store s')" using post(1) by (simp add: s')
  show "static_of n (srv_store s') = static_of n (srv_store s)"
    using static_of_commit_loop [of n plans order2 "srv_store s"] by (simp add: s' c)
  show "CurrentTarget s' = (target, vars)" by (simp add: s' CurrentTarget_def)
  show "Current n (srv_store s') = target_for d target vars" if "?dbs n = Some d"
    using post(3) [of n] plan [OF that] that o(4) by (auto simp: s' split: option.splits)
  show "conns_of n (srv_store s') = []"
    using post(4) [of n] o(4) by (auto simp: s' conns_of_def domIff split: option.splits)
  show "rs = map (\<lambda>n. switch_result n
      (case target_for (the (?dbs n)) target vars of None \<Rightarrow> Skip | Some rt \<Rightarrow> Switch rt)
      (Current n (srv_store s), length (conns_of n (srv_store s)))) order2"
    unfolding post(5)
  proof (rule map_cong [OF refl])
    fix n assume "n \<in> set order2"
    with o(4) obtain d where "?dbs n = Some d" by auto
    with plan [OF this] show "switch_result n (plan_of plans n)
        (Current n (srv_store s), length (conns_of n (srv_store s))) = switch_result n
      (case target_for (the (?dbs n)) target vars of None \<Rightarrow> Skip | Some rt \<Rightarrow> Switch rt)
      (Current n (srv_store s), length (conns_of n (srv_store s)))" by simp
  qed
qed

section \<open>The switch as the operator sees it\<close>

lemma new_databases_SomeD:
  assumes "new_databases cfg n = Some d"
  shows "\<exists>c \<in> set (c_Databases cfg). d_VirtualName c = n \<and> d = NewDatabase c (c_ForwardTargets cfg)"
  using foldl_upd_SomeD [OF assms [unfolded new_databases_def]] by simp

lemma new_databases_distinct:
  assumes "distinct (map d_VirtualName (c_Databases cfg))" and "c \<in> set (c_Databases cfg)"
  shows "new_databases cfg (d_VirtualName c) = Some (NewDatabase c (c_ForwardTargets cfg))"
  unfolding new_databases_def by (rule foldl_upd_distinct [OF assms])

lemma new_databases_dom: "dom (new_databases cfg) = set (map d_VirtualName (c_Databases cfg))"
  unfolding new_databases_def by (rule set_eqI) (simp add: domIff foldl_upd_None_iff del: not_None_eq)

lemma NewDatabase_simps [simp]:
  "db_conns (NewDatabase c fwd) = []" "db_current (NewDatabase c fwd) = None"
  "db_adapter (NewDatabase c fwd) = d_Adapter c" "db_virtualName (NewDatabase c fwd) = d_VirtualName c"
  by (simp_all add: NewDatabase_def)

lemma new_server_simps [simp]:
  "st_dbs (srv_store (new_server cfg addrs vars)) = new_databases cfg"
  "conns_of n (srv_store (new_server cfg addrs vars)) = []"
  "wf_store (srv_store (new_server cfg addrs vars))"
proof -
  show conns: "conns_of n (srv_store (new_server cfg addrs vars)) = []" for n
  proof (cases "new_databases cfg n")
    case None
    then show ?thesis by (simp add: conns_of_def new_server_def)
  next
    case (Some d)
    from new_databases_SomeD [OF this] Some show ?thesis by (auto simp: conns_of_def new_server_def)
  qed
  then show "wf_store (srv_store (new_server cfg addrs vars))"
    by (simp add: wf_store_def) (simp add: new_server_def)
qed (simp add: new_server_def)

text \<open>Whether a configuration can be switched to a target, decided over its list of databases.\<close>

definition cfg_switchable :: "Config \<Rightarrow> string \<Rightarrow> (string \<rightharpoonup> string) \<Rightarrow> bool" where
  "cfg_switchable cfg target vars \<longleftrightarrow>
     list_ex (\<lambda>c. target \<in> set (map t_Name (d_Targets c))) (c_Databases cfg)
     \<and> list_all (\<lambda>c. target \<in> set (map t_Name (d_Targets c)) \<longrightarrow>
          target_for (NewDatabase c (c_ForwardTargets cfg)) target vars \<noteq> None) (c_Databases cfg)"

lemma switchable_new_databases:
  assumes "distinct (map d_VirtualName (c_Databases cfg))"
  shows "switchable (new_databases cfg) target vars = cfg_switchable cfg target vars"
proof -
  let ?new = "\<lambda>c. NewDatabase c (c_ForwardTargets cfg)"
  have from_map: "P d" if "new_databases cfg n = Some d" and "\<forall>c \<in> set (c_Databases cfg). P (?new c)" for P n d
    using new_databases_SomeD [OF that(1)] that(2) by auto
  have to_map: "P (?new c)" if "\<forall>n d. new_databases cfg n = Some d \<longrightarrow> P d" and "c \<in> set (c_Databases cfg)" for P c
    using new_databases_distinct [OF assms that(2)] that(1) by simp
  have all: "(\<forall>n d. new_databases cfg n = Some d \<longrightarrow> P d) \<longleftrightarrow> (\<forall>c \<in> set (c_Databases cfg). P (?new c))" for P
    by (intro iffI ballI allI impI) (erule (1) to_map, erule (1) from_map)
  have ex: "(\<exists>n d. new_databases cfg n = Some d \<and> HasTarget d target) \<longleftrightarrow>
      (\<exists>c \<in> set (c_Databases cfg). HasTarget (?new c) target)"
    using all [of "\<lambda>d. \<not> HasTarget d target"] by metis
  show ?thesis
    using ex all [of "\<lambda>d. HasTarget d target \<longrightarrow> target_for d target vars \<noteq> None"]
    by (simp only: switchable_def cfg_switchable_def list_ex_iff list_all_iff HasTarget_iff imp_conjL)
qed

lemma order_of_new_server:
  "order_of order (new_server cfg addrs vars) \<longleftrightarrow>
     distinct order \<and> set order = set (map d_VirtualName (c_Databases cfg))"
  by (simp add: order_of_def new_databases_dom)

text \<open>C1. \<open>SwitchAll\<close> is all or nothing: it succeeds exactly when some database declares the target
  and every database that declares it can resolve it with the given variables, in whatever order the
  databases are visited; when it does not succeed the server is unchanged.\<close>

theorem SwitchAll_all_or_nothing:
  assumes "order_of order1 s"
  shows "((\<exists>rs. fst (SwitchAll order1 order2 target vars s) = Ok rs)
            \<longleftrightarrow> switchable (st_dbs (srv_store s)) target vars)
       \<and> (switchable (st_dbs (srv_store s)) target vars \<or> snd (SwitchAll order1 order2 target vars s) = s)"
proof -
  have "snd (SwitchAll order1 order2 target vars s) = s"
    if "\<not> switchable (st_dbs (srv_store s)) target vars"
  proof -
    from that SwitchAll_Ok_iff [OF assms, of order2 target vars]
      SwitchAll_never_Panic [of order1 order2 target vars s]
    obtain e where "fst (SwitchAll order1 order2 target vars s) = Err e"
      by (cases "fst (SwitchAll order1 order2 target vars s)") auto
    then show ?thesis by (rule SwitchAll_fail_unchanged)
  qed
  with SwitchAll_Ok_iff [OF assms] show ?thesis by blast
qed



text \<open>Two databases are configured, and both declare the target \<open>local\<close>.\<close>

lemma sample_switch:
  shows "order_of [''appdb'', ''shop''] (new_server sample_config addrs vars)"
    and "order_of [''shop'', ''appdb''] (new_server sample_config addrs vars)"
    and "switchable (new_databases sample_config) ''local'' Map.empty"
proof -
  show "order_of [''appdb'', ''shop''] (new_server sample_config addrs vars)"
    and "order_of [''shop'', ''appdb''] (new_server sample_config addrs vars)"
    by (auto simp: order_of_new_server sample_config_def)
  have "distinct (map d_VirtualName (c_Databases sample_config))" by (simp add: sample_config_def)
  moreover have "cfg_switchable sample_config ''local'' Map.empty" by code_simp
  ultimately show "switchable (new_databases sample_config) ''local'' Map.empty"
    by (simp add: switchable_new_databases)
qed

theorem SwitchAll_all_or_nothing_witness:
  "\<exists>rs. fst (SwitchAll [''appdb'', ''shop''] [''shop'', ''appdb''] ''local'' Map.empty
      (new_server sample_config Map.empty Map.empty)) = Ok rs"
  using SwitchAll_all_or_nothing [OF sample_switch(1)] sample_switch(3) by simp


end
