(* ===== verification/Interleaving.thy ===== *)
theory Interleaving
  imports Server
begin

text \<open>
  Connection handlers and \<open>use\<close> commands run in their own goroutines. A handler reads
  \<open>database.Current()\<close>, then dials and authenticates, and only then calls \<open>database.Register\<close>
  (\<open>handleStartup\<close>, \<open>dispatchMySQL\<close>, \<open>dispatchMongo\<close>); \<open>SwitchAll\<close> swaps and drops one database
  after the other. Here these run in steps, one per critical section of the source, in any order:
  a handler's read and its registration, and for each database of a switch the swap of the current
  target, the snapshot of the registry in \<open>dropAll\<close>, and each \<open>Close\<close>.
\<close>

section \<open>Steps\<close>

text \<open>Where a switch is: before the next database, between the swap and the snapshot, closing the
  snapshot.\<close>

datatype switch_pc =
    At "string list"
  | Swapped string "string list"
  | Dropping string "nat list" "string list"

record switch =
  sw_target :: string
  sw_vars :: "string \<rightharpoonup> string"
  sw_plans :: "string \<rightharpoonup> plan"
  sw_pc :: switch_pc

text \<open>\<open>sy_loaded\<close> holds the handlers that have read the current target of a database and have not
  registered yet. \<open>sy_overtaken\<close> is a history variable: the handlers that were in that window when
  their database was switched.\<close>

record sys =
  sy_srv :: Server
  sy_loaded :: "nat \<rightharpoonup> string \<times> ResolvedTarget"
  sy_switch :: "nat \<rightharpoonup> switch"
  sy_overtaken :: "nat \<Rightarrow> bool"

datatype event =
    Load nat string string
  | Abort nat
  | RegisterConn nat
  | CloseConn nat
  | Plan nat string "string \<rightharpoonup> string" "string list" "string list"
  | Swap nat
  | Snapshot nat
  | Drop nat
  | NextDatabase nat
  | Finish nat

definition sy_store :: "sys \<Rightarrow> store" where
  "sy_store s = srv_store (sy_srv s)"

definition set_store :: "store \<Rightarrow> sys \<Rightarrow> sys" where
  "set_store w s = s\<lparr>sy_srv := (sy_srv s)\<lparr>srv_store := w\<rparr>\<rparr>"

definition set_pc :: "nat \<Rightarrow> switch \<Rightarrow> switch_pc \<Rightarrow> sys \<Rightarrow> sys" where
  "set_pc t sw pc s = s\<lparr>sy_switch := (sy_switch s)(t \<mapsto> sw\<lparr>sw_pc := pc\<rparr>)\<rparr>"

fun handler_step :: "event \<Rightarrow> sys \<Rightarrow> sys option" where
  "handler_step (Load c adapter name) s =
     (case lookupDatabase (sy_srv s) adapter name of
        None \<Rightarrow> None
      | Some n \<Rightarrow>
          (case Current n (sy_store s) of
             None \<Rightarrow> None
           | Some rt \<Rightarrow>
               if sy_loaded s c \<noteq> None \<or> st_conns (sy_store s) c \<noteq> None then None
               else Some (s\<lparr>sy_loaded := (sy_loaded s)(c \<mapsto> (n, rt)),
                            sy_overtaken := (sy_overtaken s)(c := False)\<rparr>)))"
| "handler_step (Abort c) s = Some (s\<lparr>sy_loaded := (sy_loaded s)(c := None)\<rparr>)"
| "handler_step (RegisterConn c) s =
     (case sy_loaded s c of
        None \<Rightarrow> None
      | Some (n, rt) \<Rightarrow>
          let w = sy_store s; w' = w\<lparr>st_conns := (st_conns w)(c \<mapsto> new_conn rt)\<rparr>
          in Some (set_store (Register n c w') (s\<lparr>sy_loaded := (sy_loaded s)(c := None)\<rparr>)))"
| "handler_step (CloseConn c) s = Some (set_store (Close c (sy_store s)) s)"
| "handler_step _ s = None"

definition planned :: "switch \<Rightarrow> string \<Rightarrow> ResolvedTarget option" where
  "planned sw n = (case plan_of (sw_plans sw) n of Skip \<Rightarrow> None | Switch rt \<Rightarrow> Some rt)"

fun switch_step :: "event \<Rightarrow> switch \<Rightarrow> sys \<Rightarrow> sys option" where
  "switch_step (Swap t) sw s =
     (case sw_pc sw of
        At (n # ns) \<Rightarrow>
          Some (set_pc t sw (Swapped n ns) (set_store (set_current n (planned sw n) (sy_store s))
            (s\<lparr>sy_overtaken := (\<lambda>c. sy_overtaken s c
                 \<or> (case sy_loaded s c of None \<Rightarrow> False | Some (m, _) \<Rightarrow> m = n))\<rparr>)))
      | _ \<Rightarrow> None)"
| "switch_step (Snapshot t) sw s =
     (case sw_pc sw of
        Swapped n ns \<Rightarrow> Some (set_pc t sw (Dropping n (conns_of n (sy_store s)) ns) s)
      | _ \<Rightarrow> None)"
| "switch_step (Drop t) sw s =
     (case sw_pc sw of
        Dropping n (c # cs) ns \<Rightarrow>
          Some (set_pc t sw (Dropping n cs ns) (set_store (Close c (sy_store s)) s))
      | _ \<Rightarrow> None)"
| "switch_step (NextDatabase t) sw s =
     (case sw_pc sw of Dropping n [] ns \<Rightarrow> Some (set_pc t sw (At ns) s) | _ \<Rightarrow> None)"
| "switch_step (Finish t) sw s =
     (case sw_pc sw of
        At [] \<Rightarrow> Some (s\<lparr>sy_srv := (sy_srv s)\<lparr>srv_currentTarget := sw_target sw,
                                            srv_currentVars := sw_vars sw\<rparr>,
                       sy_switch := (sy_switch s)(t := None)\<rparr>)
      | _ \<Rightarrow> None)"
| "switch_step _ sw s = None"

definition plan_step ::
  "nat \<Rightarrow> string \<Rightarrow> (string \<rightharpoonup> string) \<Rightarrow> string list \<Rightarrow> string list \<Rightarrow> sys \<Rightarrow> sys option" where
  "plan_step t target vars order1 order2 s =
     (if sy_switch s t \<noteq> None then None
      else (case plan_loop (st_dbs (sy_store s)) target vars order1 Map.empty 0 of
              Ok (plans, declared) \<Rightarrow>
                if declared = 0 then None
                else Some (s\<lparr>sy_switch := (sy_switch s)(t \<mapsto>
                       \<lparr>sw_target = target, sw_vars = vars, sw_plans = plans, sw_pc = At order2\<rparr>)\<rparr>)
            | _ \<Rightarrow> None))"

text \<open>One step of the system; \<open>None\<close> when the event is not possible in this state.\<close>

fun sys_step :: "event \<Rightarrow> sys \<Rightarrow> sys option" where
  "sys_step (Plan t target vars order1 order2) s = plan_step t target vars order1 order2 s"
| "sys_step (Swap t) s = Option.bind (sy_switch s t) (\<lambda>sw. switch_step (Swap t) sw s)"
| "sys_step (Snapshot t) s = Option.bind (sy_switch s t) (\<lambda>sw. switch_step (Snapshot t) sw s)"
| "sys_step (Drop t) s = Option.bind (sy_switch s t) (\<lambda>sw. switch_step (Drop t) sw s)"
| "sys_step (NextDatabase t) s = Option.bind (sy_switch s t) (\<lambda>sw. switch_step (NextDatabase t) sw s)"
| "sys_step (Finish t) s = Option.bind (sy_switch s t) (\<lambda>sw. switch_step (Finish t) sw s)"
| "sys_step e s = handler_step e s"

fun sys_run :: "event list \<Rightarrow> sys \<Rightarrow> sys option" where
  "sys_run [] s = Some s"
| "sys_run (e # es) s = Option.bind (sys_step e s) (sys_run es)"

definition init_sys :: "Config \<Rightarrow> sys" where
  "init_sys cfg = \<lparr>sy_srv = new_server cfg Map.empty Map.empty, sy_loaded = Map.empty,
     sy_switch = Map.empty, sy_overtaken = (\<lambda>_. False)\<rparr>"

inductive reachable :: "Config \<Rightarrow> sys \<Rightarrow> bool" for cfg :: Config where
  start: "reachable cfg (init_sys cfg)"
| step: "reachable cfg s \<Longrightarrow> sys_step e s = Some s' \<Longrightarrow> reachable cfg s'"

lemma reachable_run: "reachable cfg s \<Longrightarrow> sys_run es s = Some s' \<Longrightarrow> reachable cfg s'"
  by (induction es arbitrary: s) (auto simp: bind_eq_Some_conv intro: reachable.step)

section \<open>What a switch guarantees to connections\<close>

text \<open>The switch is still going to close connection \<open>c\<close> of database \<open>n\<close>.\<close>

definition will_drop :: "switch \<Rightarrow> string \<Rightarrow> nat \<Rightarrow> bool" where
  "will_drop sw n c =
     (case sw_pc sw of
        At _ \<Rightarrow> False
      | Swapped m _ \<Rightarrow> m = n
      | Dropping m cs _ \<Rightarrow> m = n \<and> c \<in> set cs)"

definition loaded_ok :: "sys \<Rightarrow> bool" where
  "loaded_ok s \<longleftrightarrow>
     (\<forall>c n rt. sy_loaded s c = Some (n, rt) \<longrightarrow>
        st_conns (sy_store s) c = None \<and> st_dbs (sy_store s) n \<noteq> None
        \<and> (sy_overtaken s c \<or> Current n (sy_store s) = Some rt))"

definition conns_ok :: "sys \<Rightarrow> bool" where
  "conns_ok s \<longleftrightarrow>
     (\<forall>n c. c \<in> set (conns_of n (sy_store s)) \<longrightarrow>
        sy_overtaken s c
        \<or> Current n (sy_store s) = map_option cn_Resolved (st_conns (sy_store s) c)
        \<or> (\<exists>t sw. sy_switch s t = Some sw \<and> will_drop sw n c))"

definition sys_inv :: "sys \<Rightarrow> bool" where
  "sys_inv s \<longleftrightarrow> wf_store (sy_store s) \<and> loaded_ok s \<and> conns_ok s"

lemma conn_cases:
  assumes "sys_inv s" and "c \<in> set (conns_of n (sy_store s))"
  obtains (overtaken) "sy_overtaken s c"
    | (current) "Current n (sy_store s) = map_option cn_Resolved (st_conns (sy_store s) c)"
    | (dropping) t sw where "sy_switch s t = Some sw" and "will_drop sw n c"
  using assms unfolding sys_inv_def conns_ok_def by blast

lemma sy_simps [simp]:
  "sy_store (set_store w s) = w" "sy_loaded (set_store w s) = sy_loaded s"
  "sy_switch (set_store w s) = sy_switch s" "sy_overtaken (set_store w s) = sy_overtaken s"
  "sy_store (set_pc t sw pc s) = sy_store s" "sy_loaded (set_pc t sw pc s) = sy_loaded s"
  "sy_switch (set_pc t sw pc s) = (sy_switch s)(t \<mapsto> sw\<lparr>sw_pc := pc\<rparr>)"
  "sy_overtaken (set_pc t sw pc s) = sy_overtaken s"
  "sy_store (s\<lparr>sy_loaded := l\<rparr>) = sy_store s" "sy_store (s\<lparr>sy_switch := x\<rparr>) = sy_store s"
  "sy_store (s\<lparr>sy_overtaken := f\<rparr>) = sy_store s"
  "sy_store (s\<lparr>sy_srv := srv\<rparr>) = srv_store srv"
  by (simp_all add: sy_store_def set_store_def set_pc_def)

lemma will_drop_pc [simp]:
  "\<not> will_drop (sw\<lparr>sw_pc := At ns\<rparr>) n c"
  "will_drop (sw\<lparr>sw_pc := Swapped m ns\<rparr>) n c \<longleftrightarrow> m = n"
  "will_drop (sw\<lparr>sw_pc := Dropping m cs ns\<rparr>) n c \<longleftrightarrow> m = n \<and> c \<in> set cs"
  "sw_pc sw = At ns \<Longrightarrow> \<not> will_drop sw n c"
  "sw_pc sw = Swapped m ns \<Longrightarrow> will_drop sw n c \<longleftrightarrow> m = n"
  "sw_pc sw = Dropping m cs ns \<Longrightarrow> will_drop sw n c \<longleftrightarrow> m = n \<and> c \<in> set cs"
  by (simp_all add: will_drop_def)

lemma sys_inv_init: "sys_inv (init_sys cfg)"
  using new_server_simps(2) [of _ cfg Map.empty Map.empty] new_server_simps(3) [of cfg Map.empty Map.empty]
  by (simp add: sys_inv_def init_sys_def loaded_ok_def conns_ok_def sy_store_def)

text \<open>Changing the state of one switch keeps the invariant if everything the switch was going to
  close it still is, or is no longer registered.\<close>

lemma conns_ok_pc:
  assumes "conns_ok s" and "sy_switch s t = Some sw"
    and "\<And>n c. will_drop sw n c \<Longrightarrow> c \<in> set (conns_of n (sy_store s)) \<Longrightarrow> will_drop (sw\<lparr>sw_pc := pc\<rparr>) n c"
  shows "conns_ok (set_pc t sw pc s)"
  unfolding conns_ok_def
proof (intro allI impI)
  fix n c assume "c \<in> set (conns_of n (sy_store (set_pc t sw pc s)))"
  then have reg: "c \<in> set (conns_of n (sy_store s))" by simp
  have "\<exists>t' sw'. sy_switch (set_pc t sw pc s) t' = Some sw' \<and> will_drop sw' n c"
    if "sy_switch s t' = Some sw'" and "will_drop sw' n c" for t' sw'
  proof (cases "t' = t")
    case True
    with that assms(2,3) reg show ?thesis by auto
  next
    case False
    with that show ?thesis by (intro exI [of _ t'] exI [of _ sw']) simp
  qed
  with assms(1) reg show "sy_overtaken (set_pc t sw pc s) c
      \<or> Current n (sy_store (set_pc t sw pc s)) = map_option cn_Resolved (st_conns (sy_store (set_pc t sw pc s)) c)
      \<or> (\<exists>t' sw'. sy_switch (set_pc t sw pc s) t' = Some sw' \<and> will_drop sw' n c)"
    unfolding conns_ok_def sy_simps by blast
qed

lemma sys_inv_Close:
  assumes "sys_inv s"
  shows "sys_inv (set_store (Close c (sy_store s)) s)"
proof -
  have wf: "wf_store (sy_store s)" using assms by (simp add: sys_inv_def)
  have res: "map_option cn_Resolved (st_conns (Close c (sy_store s)) x)
      = map_option cn_Resolved (st_conns (sy_store s) x)" for x
    by (auto simp: Close_st_conns split: option.splits)
  have fresh: "st_conns (Close c (sy_store s)) x = None \<longleftrightarrow> st_conns (sy_store s) x = None" for x
    by (auto simp: Close_st_conns split: option.splits)
  have "loaded_ok (set_store (Close c (sy_store s)) s)"
    using assms unfolding sys_inv_def loaded_ok_def sy_simps fresh st_dbs_Close Close_Current by blast
  moreover have "conns_ok (set_store (Close c (sy_store s)) s)"
    using assms unfolding sys_inv_def conns_ok_def sy_simps res Close_Current Close_conns_of [OF wf] by auto
  ultimately show ?thesis using wf by (simp add: sys_inv_def Close_wf)
qed

lemma sys_inv_Load:
  assumes "sys_inv s" and "st_dbs (sy_store s) n \<noteq> None" and "Current n (sy_store s) = Some rt"
    and "st_conns (sy_store s) c = None"
  shows "sys_inv (s\<lparr>sy_loaded := (sy_loaded s)(c \<mapsto> (n, rt)), sy_overtaken := (sy_overtaken s)(c := False)\<rparr>)"
    (is "sys_inv ?s")
proof -
  have wf: "wf_store (sy_store s)" using assms by (simp add: sys_inv_def)
  have st: "sy_store ?s = sy_store s" by (simp add: sy_store_def)
  have new: "c \<notin> set (conns_of m (sy_store s))" for m
    using wf_registered [OF wf] assms(4) by fastforce
  have "loaded_ok ?s" using assms by (auto simp: sys_inv_def loaded_ok_def st)
  moreover have "conns_ok ?s"
    unfolding conns_ok_def st
  proof (intro allI impI)
    fix m x assume x: "x \<in> set (conns_of m (sy_store s))"
    with new have "x \<noteq> c" by blast
    with x assms(1) show "sy_overtaken ?s x
        \<or> Current m (sy_store s) = map_option cn_Resolved (st_conns (sy_store s) x)
        \<or> (\<exists>t sw. sy_switch ?s t = Some sw \<and> will_drop sw m x)"
      by (simp add: sys_inv_def conns_ok_def)
  qed
  ultimately show ?thesis using wf by (simp add: sys_inv_def st)
qed

lemma sys_inv_Abort: "sys_inv s \<Longrightarrow> sys_inv (s\<lparr>sy_loaded := (sy_loaded s)(c := None)\<rparr>)"
  by (simp add: sys_inv_def loaded_ok_def conns_ok_def)

lemma sys_inv_Register:
  assumes inv: "sys_inv s" and loaded: "sy_loaded s c = Some (n, rt)"
  defines "w \<equiv> (sy_store s)\<lparr>st_conns := (st_conns (sy_store s))(c \<mapsto> new_conn rt)\<rparr>"
  shows "sys_inv (set_store (Register n c w) (s\<lparr>sy_loaded := (sy_loaded s)(c := None)\<rparr>))" (is "sys_inv ?s")
proof -
  have c: "st_conns (sy_store s) c = None" and d: "st_dbs (sy_store s) n \<noteq> None"
    and cur: "sy_overtaken s c \<or> Current n (sy_store s) = Some rt"
    using inv loaded by (auto simp: sys_inv_def loaded_ok_def)
  from d obtain db where db: "st_dbs w n = Some db" by (auto simp: w_def)
  have wf: "wf_store w" using inv c unfolding w_def sys_inv_def by (intro add_new_conn_wf) auto
  have wc: "st_conns w c = Some (new_conn rt)" by (simp add: w_def)
  note reg = Register_simps [OF wf db wc, unfolded new_conn_def, simplified]
  have old: "conns_of m w = conns_of m (sy_store s)" "Current m w = Current m (sy_store s)" for m
    by (simp_all add: w_def conns_of_def Current_def)
  have st: "st_conns (Register n c w) =
      (st_conns (sy_store s))(c \<mapsto> (new_conn rt)\<lparr>cn_database := Some n\<rparr>)"
    using db wc by (simp add: Register_def) (simp add: w_def)
  have dbs: "st_dbs (Register n c w) m = None \<longleftrightarrow> st_dbs (sy_store s) m = None" for m
    using db wc by (simp add: Register_def w_def)
  have "loaded_ok ?s"
    using inv unfolding sys_inv_def loaded_ok_def sy_simps dbs reg old st by auto
  moreover have "sy_overtaken s x
        \<or> Current m (sy_store s) = map_option cn_Resolved (st_conns (Register n c w) x)
        \<or> (\<exists>t sw. sy_switch s t = Some sw \<and> will_drop sw m x)"
    if x: "x \<in> set (if m = n then conns_of n (sy_store s) @ [c] else conns_of m (sy_store s))" for m x
  proof (cases "x = c")
    case True
    have "c \<notin> set (conns_of m (sy_store s))"
      using inv c wf_registered [of "sy_store s" c m] by (auto simp: sys_inv_def)
    with x True have "m = n" by (auto split: if_splits)
    with True cur show ?thesis by (auto simp: st new_conn_def)
  next
    case False
    with x have "x \<in> set (conns_of m (sy_store s))" by (auto split: if_splits)
    with inv False show ?thesis by (simp add: sys_inv_def conns_ok_def st)
  qed
  then have "conns_ok ?s" unfolding conns_ok_def sy_simps reg old by simp
  ultimately show ?thesis using reg by (simp add: sys_inv_def)
qed


lemma sys_inv_Swap:
  assumes inv: "sys_inv s" and sw: "sy_switch s t = Some sw" "sw_pc sw = At (n # ns)"
  shows "sys_inv (set_pc t sw (Swapped n ns) (set_store (set_current n tgt (sy_store s))
            (s\<lparr>sy_overtaken := (\<lambda>c. sy_overtaken s c
                 \<or> (case sy_loaded s c of None \<Rightarrow> False | Some (m, _) \<Rightarrow> m = n))\<rparr>)))" (is "sys_inv ?s")
proof -
  have cur: "Current m (set_current n tgt (sy_store s)) = Current m (sy_store s)" if "m \<noteq> n" for m
    using that by (auto simp: set_current_def Current_def split: option.splits)
  have "loaded_ok ?s"
    unfolding loaded_ok_def sy_simps set_current_simps(2) st_dbs_set_current
  proof (intro allI impI)
    fix c m rt assume l: "sy_loaded (s\<lparr>sy_overtaken := (\<lambda>c. sy_overtaken s c
                 \<or> (case sy_loaded s c of None \<Rightarrow> False | Some (m, _) \<Rightarrow> m = n))\<rparr>) c = Some (m, rt)"
    then show "st_conns (sy_store s) c = None \<and> st_dbs (sy_store s) m \<noteq> None
      \<and> (sy_overtaken (s\<lparr>sy_overtaken := (\<lambda>c. sy_overtaken s c
                 \<or> (case sy_loaded s c of None \<Rightarrow> False | Some (m, _) \<Rightarrow> m = n))\<rparr>) c
         \<or> Current m (set_current n tgt (sy_store s)) = Some rt)"
      using inv cur [of m] by (cases "m = n") (auto simp: sys_inv_def loaded_ok_def)
  qed
  moreover have "sy_overtaken ?s c
        \<or> Current m (sy_store ?s) = map_option cn_Resolved (st_conns (sy_store s) c)
        \<or> (\<exists>t' sw'. sy_switch ?s t' = Some sw' \<and> will_drop sw' m c)"
    if "c \<in> set (conns_of m (sy_store s))" for m c
  proof (cases "m = n")
    case True
    then have "sy_switch ?s t = Some (sw\<lparr>sw_pc := Swapped n ns\<rparr>) \<and> will_drop (sw\<lparr>sw_pc := Swapped n ns\<rparr>) m c"
      by simp
    then show ?thesis by blast
  next
    case False
    from inv that show ?thesis
    proof (cases rule: conn_cases)
      case (dropping t' sw')
      with sw have "t' \<noteq> t" by auto
      with dropping show ?thesis by (intro disjI2 exI [of _ t'] exI [of _ sw']) simp
    qed (simp_all add: cur [OF False])
  qed
  then have "conns_ok ?s" unfolding conns_ok_def sy_simps(1,5) set_current_simps(1,2) by blast
  ultimately show ?thesis using inv by (simp add: sys_inv_def)
qed

lemma sys_inv_pc:
  assumes "sys_inv s" and "sy_switch s t = Some sw"
    and "\<And>n c. will_drop sw n c \<Longrightarrow> c \<in> set (conns_of n (sy_store s)) \<Longrightarrow> will_drop (sw\<lparr>sw_pc := pc\<rparr>) n c"
  shows "sys_inv (set_pc t sw pc s)"
  using assms conns_ok_pc [OF _ assms(2,3)] by (simp add: sys_inv_def loaded_ok_def)

lemma sys_inv_Plan:
  assumes "sys_inv s" and "sy_switch s t = None"
  shows "sys_inv (s\<lparr>sy_switch := (sy_switch s)(t \<mapsto> sw)\<rparr>)"
proof -
  have "conns_ok (s\<lparr>sy_switch := (sy_switch s)(t \<mapsto> sw)\<rparr>)"
    unfolding conns_ok_def
  proof (intro allI impI)
    fix n c assume "c \<in> set (conns_of n (sy_store (s\<lparr>sy_switch := (sy_switch s)(t \<mapsto> sw)\<rparr>)))"
    then have "c \<in> set (conns_of n (sy_store s))" by simp
    with assms(1) show "sy_overtaken (s\<lparr>sy_switch := (sy_switch s)(t \<mapsto> sw)\<rparr>) c
      \<or> Current n (sy_store (s\<lparr>sy_switch := (sy_switch s)(t \<mapsto> sw)\<rparr>))
          = map_option cn_Resolved (st_conns (sy_store (s\<lparr>sy_switch := (sy_switch s)(t \<mapsto> sw)\<rparr>)) c)
      \<or> (\<exists>t' sw'. sy_switch (s\<lparr>sy_switch := (sy_switch s)(t \<mapsto> sw)\<rparr>) t' = Some sw' \<and> will_drop sw' n c)"
    proof (cases rule: conn_cases)
      case (dropping t' sw')
      with assms(2) have "t' \<noteq> t" by auto
      with dropping show ?thesis by (intro disjI2 exI [of _ t'] exI [of _ sw']) simp
    qed simp_all
  qed
  with assms(1) show ?thesis by (simp add: sys_inv_def loaded_ok_def)
qed


lemma sys_inv_Finish:
  assumes inv: "sys_inv s" and sw: "sy_switch s t = Some sw" "sw_pc sw = At ns"
  shows "sys_inv (s\<lparr>sy_srv := (sy_srv s)\<lparr>srv_currentTarget := x, srv_currentVars := y\<rparr>,
                    sy_switch := (sy_switch s)(t := None)\<rparr>)" (is "sys_inv ?s")
proof -
  have st: "sy_store ?s = sy_store s" by (simp add: sy_store_def)
  have "sy_overtaken ?s c \<or> Current n (sy_store s) = map_option cn_Resolved (st_conns (sy_store s) c)
      \<or> (\<exists>t' sw'. sy_switch ?s t' = Some sw' \<and> will_drop sw' n c)"
    if "c \<in> set (conns_of n (sy_store s))" for n c
    using inv that
  proof (cases rule: conn_cases)
    case (dropping t' sw')
    with sw have "t' \<noteq> t" by auto
    with dropping show ?thesis by (intro disjI2 exI [of _ t'] exI [of _ sw']) simp
  qed simp_all
  then have "conns_ok ?s" unfolding conns_ok_def st by blast
  with inv show ?thesis by (simp add: sys_inv_def loaded_ok_def sy_store_def [symmetric])
qed

lemma handler_step_inv:
  assumes "handler_step e s = Some s'" and "sys_inv s"
  shows "sys_inv s'"
proof (cases e)
  case (Load c adapter name)
  with assms(1) obtain n rt where "lookupDatabase (sy_srv s) adapter name = Some n"
    "Current n (sy_store s) = Some rt" "st_conns (sy_store s) c = None"
    and s': "s' = s\<lparr>sy_loaded := (sy_loaded s)(c \<mapsto> (n, rt)), sy_overtaken := (sy_overtaken s)(c := False)\<rparr>"
    by (auto split: option.splits if_splits)
  moreover from this(1) have "st_dbs (sy_store s) n \<noteq> None"
    by (auto simp: lookupDatabase_def sy_store_def split: option.splits if_splits)
  ultimately show ?thesis using assms(2) sys_inv_Load by blast
next
  case (RegisterConn c)
  with assms(1) obtain n rt where l: "sy_loaded s c = Some (n, rt)"
    by (auto split: option.splits)
  with RegisterConn assms sys_inv_Register [OF assms(2) l] show ?thesis by (simp add: Let_def)
qed (use assms sys_inv_Abort sys_inv_Close in auto)

lemma switch_step_inv:
  assumes "switch_step e sw s = Some s'" and "sys_inv s"
    and "\<And>t. e = Swap t \<or> e = Snapshot t \<or> e = Drop t \<or> e = NextDatabase t \<or> e = Finish t \<Longrightarrow> sy_switch s t = Some sw"
  shows "sys_inv s'"
proof (cases e)
  case (Swap t)
  with assms sys_inv_Swap [OF assms(2)] show ?thesis
    by (auto split: switch_pc.splits list.splits)
next
  case (Snapshot t)
  with assms show ?thesis
    by (auto split: switch_pc.splits intro!: sys_inv_pc)
next
  case (Drop t)
  with assms(1) obtain n c cs ns where pc: "sw_pc sw = Dropping n (c # cs) ns"
    and s': "s' = set_pc t sw (Dropping n cs ns) (set_store (Close c (sy_store s)) s)"
    by (auto split: switch_pc.splits list.splits)
  have wf: "wf_store (sy_store s)" using assms(2) by (simp add: sys_inv_def)
  from sys_inv_Close [OF assms(2), of c] assms(3) Drop pc wf show ?thesis
    unfolding s' by (intro sys_inv_pc) (auto simp: Close_conns_of)
next
  case (NextDatabase t)
  with assms show ?thesis
    by (auto split: switch_pc.splits list.splits intro!: sys_inv_pc)
next
  case (Finish t)
  with assms sys_inv_Finish [OF assms(2)] show ?thesis
    by (auto split: switch_pc.splits list.splits)
qed (use assms in auto)

lemma sys_step_inv:
  assumes "sys_step e s = Some s'" and "sys_inv s"
  shows "sys_inv s'"
proof (cases e)
  case (Plan t target vars order1 order2)
  with assms show ?thesis
    by (auto simp: plan_step_def split: if_splits res.splits intro: sys_inv_Plan)
qed (use assms in \<open>auto simp: bind_eq_Some_conv intro: handler_step_inv switch_step_inv simp del: handler_step.simps switch_step.simps\<close>)

lemma reachable_inv: "reachable cfg s \<Longrightarrow> sys_inv s"
  by (induction rule: reachable.induct) (auto intro: sys_inv_init sys_step_inv)


section \<open>Connections and switches under any schedule\<close>

text \<open>C6. Whatever the schedule, once no switch is in progress every registered connection of a
  database goes to the target that is current for it, except the connections whose handler had read
  the previous target and not yet registered when the switch replaced it.\<close>

theorem registered_conns_current:
  assumes "reachable cfg s" and "sy_switch s = Map.empty"
    and "c \<in> set (conns_of n (sy_store s))" and "\<not> sy_overtaken s c"
  shows "\<exists>cn rt. st_conns (sy_store s) c = Some cn \<and> \<not> cn_once cn
     \<and> Current n (sy_store s) = Some rt \<and> cn_Resolved cn = rt"
proof -
  from assms(1) have inv: "sys_inv s" by (rule reachable_inv)
  then have "wf_store (sy_store s)" by (simp add: sys_inv_def)
  from wf_registered [OF this assms(3)] obtain cn where cn: "st_conns (sy_store s) c = Some cn" "\<not> cn_once cn"
    by blast
  from inv assms(3) have "Current n (sy_store s) = map_option cn_Resolved (st_conns (sy_store s) c)"
    using assms(2,4) by (cases rule: conn_cases) auto
  with cn show ?thesis by simp
qed

text \<open>A complete switch of the two databases of \<open>sample_config\<close>, and a connection to one of them
  whose handler is or is not overtaken by the next switch.\<close>

definition switch_run :: "nat \<Rightarrow> string \<Rightarrow> (string \<rightharpoonup> string) \<Rightarrow> event list" where
  "switch_run t target vars =
     [Plan t target vars [''appdb'', ''shop''] [''appdb'', ''shop''], Swap t, Snapshot t, NextDatabase t,
      Swap t, Snapshot t, NextDatabase t, Finish t]"

definition to_staging :: "string \<rightharpoonup> string" where
  "to_staging = [''BRANCH'' \<mapsto> ''main'']"

lemma switch_step_idle:
  assumes "switch_step e sw s = Some s'" and "sy_switch s u = None"
    and "\<And>t. e = Swap t \<or> e = Snapshot t \<or> e = Drop t \<or> e = NextDatabase t \<or> e = Finish t \<Longrightarrow> sy_switch s t = Some sw"
  shows "sy_switch s' u = None"
  using assms
  by (cases e) (fastforce simp: set_store_def split: switch_pc.splits list.splits)+

lemma handler_step_idle: "handler_step e s = Some s' \<Longrightarrow> sy_switch s' = sy_switch s"
  by (cases e) (auto simp: Let_def set_store_def split: option.splits if_splits)

lemma no_switch_run:
  assumes "sys_run es s = Some s'" and "\<forall>t \<ge> k. sy_switch s t = None"
    and "list_all (\<lambda>e. case e of Plan t _ _ _ _ \<Rightarrow> t < k | _ \<Rightarrow> True) es"
  shows "\<forall>t \<ge> k. sy_switch s' t = None"
  using assms
proof (induction es arbitrary: s)
  case (Cons e es)
  then obtain s1 where s1: "sys_step e s = Some s1" "sys_run es s1 = Some s'" by (auto simp: bind_eq_Some_conv)
  have "sy_switch s1 t = None" if "k \<le> t" for t
  proof (cases e)
    case (Plan u x1 x2 x3 x4)
    with s1(1) Cons.prems(2,3) that show ?thesis by (auto simp: plan_step_def split: if_splits res.splits)
  qed (use s1(1) Cons.prems(2) that in
      \<open>auto simp: bind_eq_Some_conv simp del: handler_step.simps switch_step.simps
         dest: handler_step_idle intro: switch_step_idle\<close>)
  with Cons.IH [OF s1(2)] Cons.prems(3) show ?case by simp
qed simp

lemma no_switch:
  assumes "sys_run es (init_sys cfg) = Some s" and "list_all (\<lambda>t. sy_switch s t = None) [0..<k]"
    and "list_all (\<lambda>e. case e of Plan t _ _ _ _ \<Rightarrow> t < k | _ \<Rightarrow> True) es"
  shows "sy_switch s = Map.empty"
proof
  fix t
  show "sy_switch s t = None"
    using assms(2) no_switch_run [OF assms(1) _ assms(3)]
    by (cases "t < k") (auto simp: init_sys_def list_all_iff)
qed

lemma reachable_quiet:
  assumes "case sys_run es (init_sys cfg) of None \<Rightarrow> False
      | Some s \<Rightarrow> list_all (\<lambda>t. sy_switch s t = None) [0..<k] \<and> P s"
    and "list_all (\<lambda>e. case e of Plan t _ _ _ _ \<Rightarrow> t < k | _ \<Rightarrow> True) es"
  shows "\<exists>s. reachable cfg s \<and> sy_switch s = Map.empty \<and> P s"
proof (cases "sys_run es (init_sys cfg)")
  case (Some s)
  with assms(1) have l: "list_all (\<lambda>t. sy_switch s t = None) [0..<k]" and "P s"
    by simp_all
  with no_switch [OF Some l assms(2)] reachable_run [OF reachable.start Some] show ?thesis by blast
qed (use assms(1) in simp)




theorem registered_conns_current_witness:
  "\<exists>s cn. reachable sample_config s \<and> st_conns (sy_store s) 7 = Some cn \<and> \<not> cn_once cn
     \<and> Current ''appdb'' (sy_store s) = Some (cn_Resolved cn)"
proof -
  have "\<exists>s. reachable sample_config s \<and> sy_switch s = Map.empty
      \<and> conns_of ''appdb'' (sy_store s) = [7] \<and> \<not> sy_overtaken s 7"
    by (rule reachable_quiet [where k = 1 and es =
          "switch_run 0 ''local'' Map.empty @ [Load 7 ''postgres'' ''appdb'', RegisterConn 7]"])
      code_simp+
  then obtain s where s: "reachable sample_config s" "sy_switch s = Map.empty"
    "conns_of ''appdb'' (sy_store s) = [7]" "\<not> sy_overtaken s 7" by blast
  from s(3) have "7 \<in> set (conns_of ''appdb'' (sy_store s))" by simp
  from registered_conns_current [OF s(1,2) this s(4)] s(1) show ?thesis by blast
qed

end
