(* ===== verification/Refinement.thy ===== *)
theory Refinement
  imports Server
begin

text \<open>
  What the switch promises, without the machinery behind it. An abstract \<open>pivot\<close> has a global target and,
  for every database, the targets it declares, the one it is at and its set of open connections; to use
  a target, to open and to close a connection and to shut down are each one step. The server of
  \<open>internal/proxy/server.go\<close>, with its two-phase switch, its registry of connections and the back pointers
  from connections to databases, refines it: every run of the server is a run of the abstract pivot.
\<close>

section \<open>Runs\<close>

inductive run :: "('s \<Rightarrow> 'l \<Rightarrow> 's \<Rightarrow> bool) \<Rightarrow> 's \<Rightarrow> 'l list \<Rightarrow> 's \<Rightarrow> bool" for step where
  run_done: "run step s [] s"
| run_step: "step s l s1 \<Longrightarrow> run step s1 ls s' \<Longrightarrow> run step s (l # ls) s'"

inductive_simps run_Nil [simp]: "run step s [] s'"
inductive_simps run_Cons [simp]: "run step s (l # ls) s'"

text \<open>A system that simulates an abstract one: a view of its states, and an invariant under which every step
  is the abstract step with the same label. Then every run is an abstract run.\<close>

locale simulation =
  fixes step :: "'s \<Rightarrow> 'l \<Rightarrow> 's \<Rightarrow> bool" and astep :: "'l \<Rightarrow> 'a \<Rightarrow> 'a" and view :: "'s \<Rightarrow> 'a" and ok :: "'s \<Rightarrow> bool"
  assumes step_ok: "step s l s' \<Longrightarrow> ok s \<Longrightarrow> ok s'"
    and step_view: "step s l s' \<Longrightarrow> ok s \<Longrightarrow> view s' = astep l (view s)"
begin

lemma run_ok: "run step s ls s' \<Longrightarrow> ok s \<Longrightarrow> ok s'"
  by (induction rule: run.induct) (auto intro: step_ok)

lemma run_view: "run step s ls s' \<Longrightarrow> ok s \<Longrightarrow> view s' = fold astep ls (view s)"
  by (induction rule: run.induct) (auto simp: step_view step_ok)

end

section \<open>The abstract pivot\<close>

text \<open>A database maps a target name and variables to \<open>None\<close> if it does not declare the name, and to
  \<open>Some None\<close> if it declares it but cannot resolve it.\<close>

type_synonym targets = "string \<Rightarrow> (string \<rightharpoonup> string) \<Rightarrow> ResolvedTarget option option"

record pivot =
  pv_databases :: "string \<rightharpoonup> targets"
  pv_target :: "string \<times> (string \<rightharpoonup> string)"
  pv_current :: "string \<rightharpoonup> ResolvedTarget"
  pv_conns :: "string \<Rightarrow> nat set"
  pv_closed :: bool

datatype cmd =
    Use string "string \<rightharpoonup> string"
  | Open string nat ResolvedTarget
  | Hang nat
  | Down

definition usable :: "pivot \<Rightarrow> string \<Rightarrow> (string \<rightharpoonup> string) \<Rightarrow> bool" where
  "usable p target vars \<longleftrightarrow>
     (\<exists>n f. pv_databases p n = Some f \<and> f target vars \<noteq> None)
     \<and> (\<forall>n f. pv_databases p n = Some f \<longrightarrow> f target vars \<noteq> Some None)"

fun pivot_step :: "cmd \<Rightarrow> pivot \<Rightarrow> pivot" where
  "pivot_step (Use target vars) p =
     (if usable p target vars
      then p\<lparr>pv_target := (target, vars),
             pv_current := (\<lambda>n. case pv_databases p n of
                              Some f \<Rightarrow> (case f target vars of Some (Some rt) \<Rightarrow> Some rt | _ \<Rightarrow> None)
                            | None \<Rightarrow> None),
             pv_conns := (\<lambda>_. {})\<rparr>
      else p)"
| "pivot_step (Open n c rt) p = p\<lparr>pv_conns := (pv_conns p)(n := insert c (pv_conns p n))\<rparr>"
| "pivot_step (Hang c) p = p\<lparr>pv_conns := (\<lambda>n. pv_conns p n - {c})\<rparr>"
| "pivot_step Down p = (if pv_closed p then p else p\<lparr>pv_closed := True, pv_conns := (\<lambda>_. {})\<rparr>)"

section \<open>The server\<close>

definition declared :: "Database \<Rightarrow> targets" where
  "declared d target vars = (if HasTarget d target then Some (target_for d target vars) else None)"

definition pivot_of :: "Server \<Rightarrow> pivot" where
  "pivot_of s =
     \<lparr>pv_databases = (\<lambda>n. map_option declared (static_of n (srv_store s))), pv_target = CurrentTarget s,
      pv_current = (\<lambda>n. Current n (srv_store s)), pv_conns = (\<lambda>n. set (conns_of n (srv_store s))),
      pv_closed = srv_closed s\<rparr>"

text \<open>The steps of a server: a switch, the registration of a new connection of a known database, the close of
  a connection, a shutdown; the loops over maps run in any order.\<close>

inductive server_step :: "Server \<Rightarrow> cmd \<Rightarrow> Server \<Rightarrow> bool" where
  step_use: "order_of order1 s \<Longrightarrow> order_of order2 s \<Longrightarrow>
    server_step s (Use target vars) (snd (SwitchAll order1 order2 target vars s))"
| step_open: "st_dbs (srv_store s) n \<noteq> None \<Longrightarrow> st_conns (srv_store s) c = None \<Longrightarrow>
    server_step s (Open n c rt)
      (s\<lparr>srv_store := Register n c ((srv_store s)\<lparr>st_conns := (st_conns (srv_store s))(c \<mapsto> new_conn rt)\<rparr>)\<rparr>)"
| step_hang: "server_step s (Hang c) (s\<lparr>srv_store := Close c (srv_store s)\<rparr>)"
| step_down: "order_of order s \<Longrightarrow> server_step s Down (Shutdown order s)"

section \<open>Every step is a step of the pivot\<close>

lemma declared_static: "declared (db_static d) = declared d"
  by (simp add: declared_def fun_eq_iff target_for_def)

lemma pivot_databases: "pv_databases (pivot_of s) n = map_option declared (st_dbs (srv_store s) n)"
  by (cases "st_dbs (srv_store s) n") (simp_all add: pivot_of_def static_of_def declared_static)

lemma declared_iff:
  "declared d target vars \<noteq> None \<longleftrightarrow> HasTarget d target"
  "declared d target vars \<noteq> Some None \<longleftrightarrow> (HasTarget d target \<longrightarrow> target_for d target vars \<noteq> None)"
  by (auto simp: declared_def)

lemma usable_pivot: "usable (pivot_of s) target vars \<longleftrightarrow> switchable (st_dbs (srv_store s)) target vars"
  unfolding usable_def switchable_def pivot_databases map_option_eq_Some using declared_iff by blast

lemma refine_use:
  assumes "wf_store (srv_store s)" and "order_of order1 s" and "order_of order2 s"
    and "s' = snd (SwitchAll order1 order2 target vars s)"
  shows "wf_store (srv_store s') \<and> pivot_of s' = pivot_step (Use target vars) (pivot_of s)"
proof (cases "switchable (st_dbs (srv_store s)) target vars")
  case True
  then obtain rs where ok: "SwitchAll order1 order2 target vars s = (Ok rs, s')"
    using SwitchAll_Ok_iff [OF assms(2), of order2 target vars] assms(4) by (metis prod.collapse)
  note post = SwitchAll_post [OF assms(1-3) ok]
  have cur: "Current n (srv_store s') = (case pv_databases (pivot_of s) n of
      Some f \<Rightarrow> (case f target vars of Some (Some rt) \<Rightarrow> Some rt | _ \<Rightarrow> None) | None \<Rightarrow> None)" for n
  proof (cases "st_dbs (srv_store s) n")
    case None
    then have "st_dbs (srv_store s') n = None" using post(2) [of n] by (simp add: static_of_def)
    with None show ?thesis by (simp add: Current_def pivot_databases)
  next
    case (Some d)
    with post(3) [OF Some] show ?thesis
      using target_for_undeclared [of d target vars] by (auto simp: pivot_databases declared_def split: option.splits)
  qed
  have "srv_closed s' = srv_closed s" using ok by (auto elim: SwitchAll_Ok_cases)
  moreover have "usable (pivot_of s) target vars" using True by (simp add: usable_pivot)
  ultimately show ?thesis using post(1,2,4,5) cur by (simp add: pivot_of_def fun_eq_iff)
next
  case False
  then obtain e where "fst (SwitchAll order1 order2 target vars s) = Err e"
    using SwitchAll_Ok_iff [OF assms(2), of order2 target vars] SwitchAll_never_Panic [of order1 order2 target vars s]
    by (cases "fst (SwitchAll order1 order2 target vars s)") auto
  then have "s' = s" using SwitchAll_fail_unchanged assms(4) by blast
  with False assms(1) show ?thesis by (simp add: usable_pivot)
qed

lemma fold_dropAll:
  assumes "wf_store w"
  shows "wf_store (fold (\<lambda>n w. snd (dropAll n w)) ns w)
    \<and> conns_of m (fold (\<lambda>n w. snd (dropAll n w)) ns w) = (if m \<in> set ns then [] else conns_of m w)
    \<and> Current m (fold (\<lambda>n w. snd (dropAll n w)) ns w) = Current m w
    \<and> static_of m (fold (\<lambda>n w. snd (dropAll n w)) ns w) = static_of m w"
  using assms
proof (induction ns arbitrary: w)
  case (Cons n ns)
  from Cons.IH [OF dropAll_simps(1) [OF Cons.prems, of n]] dropAll_simps [OF Cons.prems] show ?case
    by (auto simp: dropAll_eq)
qed simp

lemma refine_down:
  assumes "wf_store (srv_store s)" and "order_of order s"
  shows "wf_store (srv_store (Shutdown order s)) \<and> pivot_of (Shutdown order s) = pivot_step Down (pivot_of s)"
proof -
  have "conns_of m (srv_store s) = []" if "m \<notin> set order" for m
    using that assms(2) by (auto simp: order_of_def conns_of_def domIff split: option.splits)
  then show ?thesis using fold_dropAll [OF assms(1), where ns = order] assms(1)
    by (auto simp: Shutdown_def pivot_of_def CurrentTarget_def fun_eq_iff)
qed

lemma refine_open:
  assumes "wf_store w" and "st_dbs w n \<noteq> None" and "st_conns w c = None"
    and w': "w' = Register n c (w\<lparr>st_conns := (st_conns w)(c \<mapsto> new_conn rt)\<rparr>)"
  shows "wf_store w'"
    and "set (conns_of m w') = (if m = n then insert c (set (conns_of m w)) else set (conns_of m w))"
    and "Current m w' = Current m w" and "static_of m w' = static_of m w"
proof -
  let ?w1 = "w\<lparr>st_conns := (st_conns w)(c \<mapsto> new_conn rt)\<rparr>"
  obtain d where d: "st_dbs ?w1 n = Some d" using assms(2) by auto
  have c: "st_conns ?w1 c = Some (new_conn rt)" "cn_database (new_conn rt) = None" "\<not> cn_once (new_conn rt)"
    by (simp_all add: new_conn_def)
  note reg = Register_simps [OF add_new_conn_wf [OF assms(1,3), of rt] d c(1) c(2,3)]
  show "wf_store w'" unfolding w' by (rule reg(3))
  show "set (conns_of m w') = (if m = n then insert c (set (conns_of m w)) else set (conns_of m w))"
    "Current m w' = Current m w" unfolding w' using reg(1,2) by (simp_all add: conns_of_def Current_def)
  show "static_of m w' = static_of m w" unfolding w' by simp
qed

lemma refine_step:
  assumes "server_step s c s'" and "wf_store (srv_store s)"
  shows "wf_store (srv_store s') \<and> pivot_of s' = pivot_step c (pivot_of s)"
  using assms
proof (induction rule: server_step.induct)
  case (step_use order1 s order2 target vars)
  then show ?case using refine_use by blast
next
  case (step_open s n c rt)
  then show ?case using refine_open [of "srv_store s" n c _ rt, OF _ _ _ refl]
    by (auto simp: pivot_of_def CurrentTarget_def fun_eq_iff)
next
  case (step_hang s c)
  then show ?case by (auto simp: pivot_of_def CurrentTarget_def fun_eq_iff Close_conns_of Close_wf)
next
  case (step_down order s)
  then show ?case using refine_down by blast
qed

interpretation server_sim: simulation server_step pivot_step pivot_of "\<lambda>s. wf_store (srv_store s)"
  by unfold_locales (use refine_step in blast)+

text \<open>The set of databases never changes, so an order of the loops stays one.\<close>

lemma pivot_step_databases: "pv_databases (pivot_step c p) = pv_databases p"
  by (cases c) simp_all

lemma step_order:
  assumes "server_step s c s'" and "wf_store (srv_store s)"
  shows "order_of order s' \<longleftrightarrow> order_of order s"
proof -
  have "pv_databases (pivot_of s') = pv_databases (pivot_of s)" using refine_step [OF assms] by (simp add: pivot_step_databases)
  then have "map_option declared (st_dbs (srv_store s') n) = map_option declared (st_dbs (srv_store s) n)" for n
    by (metis pivot_databases)
  then have "st_dbs (srv_store s') n = None \<longleftrightarrow> st_dbs (srv_store s) n = None" for n by (metis map_option_is_None)
  then have "dom (st_dbs (srv_store s')) = dom (st_dbs (srv_store s))" by (simp add: dom_def)
  then show ?thesis by (simp add: order_of_def)
qed

text \<open>C5. The server refines the abstract pivot: whatever sequence of switches, new connections, closed
  connections and shutdowns a well-formed server runs through, its declared targets, global target,
  current targets and open connections are those of the pivot after the same sequence, and it is still
  well-formed.\<close>

theorem server_refines_pivot:
  assumes "run server_step s cs s'" and "wf_store (srv_store s)"
  shows "pivot_of s' = fold pivot_step cs (pivot_of s) \<and> wf_store (srv_store s')"
  using server_sim.run_view [OF assms] server_sim.run_ok [OF assms] by simp

text \<open>A switch to \<open>local\<close> and a shutdown.\<close>

theorem server_refines_pivot_witness:
  "\<exists>s'. run server_step (new_server sample_config Map.empty Map.empty) [Use ''local'' Map.empty, Down] s'
     \<and> pv_target (pivot_of s') = (''local'', Map.empty) \<and> pv_closed (pivot_of s')"
proof -
  let ?s = "new_server sample_config Map.empty Map.empty"
  obtain s1 where s1: "server_step ?s (Use ''local'' Map.empty) s1" using step_use [OF sample_switch(1,2)] by blast
  have "order_of [''appdb'', ''shop''] s1" using step_order [OF s1 new_server_simps(3)] sample_switch(1) by blast
  then have "server_step s1 Down (Shutdown [''appdb'', ''shop''] s1)" by (rule step_down)
  with s1 obtain s' where run: "run server_step ?s [Use ''local'' Map.empty, Down] s'" by auto
  have u: "usable (pivot_of ?s) ''local'' Map.empty" using sample_switch(3) by (simp add: usable_pivot)
  have c: "\<not> pv_closed (pivot_of ?s)" by (simp add: pivot_of_def new_server_def)
  from server_refines_pivot [OF run new_server_simps(3)]
  have p: "pivot_of s' = pivot_step Down (pivot_step (Use ''local'' Map.empty) (pivot_of ?s))" by simp
  have "pv_target (pivot_of s') = (''local'', Map.empty)" "pv_closed (pivot_of s')" unfolding p using u c by simp_all
  with run show ?thesis by blast
qed

end
