(* ===== verification/GoFmt.thy ===== *)
theory GoFmt
  imports GoBase
begin

text \<open>
  The text of errors and messages: \<open>fmt.Sprintf\<close> for the verbs the source uses (\<open>%s\<close>, \<open>%v\<close>,
  \<open>%w\<close>, \<open>%d\<close>, \<open>%q\<close>, \<open>%c\<close>, \<open>%T\<close>, \<open>%02x\<close>, \<open>%08x\<close>), \<open>strconv.Quote\<close> with its UTF-8 decoding,
  and \<open>Error()\<close> of the error values. The Unicode table behind \<open>strconv.IsPrint\<close> is a parameter
  \<open>tbl\<close> for code points above \<open>0xFF\<close>; below, it is written out.
\<close>

section \<open>Hexadecimal, UTF-8\<close>

definition hex_digit :: "nat \<Rightarrow> char" where
  "hex_digit d = (if d < 10 then char_of (48 + d) else char_of (87 + d))"

primrec hex_pad :: "nat \<Rightarrow> nat \<Rightarrow> string" where
  "hex_pad 0 n = []"
| "hex_pad (Suc k) n = hex_pad k (n div 16) @ [hex_digit (n mod 16)]"

text \<open>\<open>utf8.EncodeRune\<close> for a valid rune.\<close>

definition EncodeRune :: "nat \<Rightarrow> bytes" where
  "EncodeRune r =
     (if r < 0x80 then [char_of r]
      else if r < 0x800 then [char_of (0xC0 + r div 64), char_of (0x80 + r mod 64)]
      else if r < 0x10000
      then [char_of (0xE0 + r div 4096), char_of (0x80 + r div 64 mod 64), char_of (0x80 + r mod 64)]
      else [char_of (0xF0 + r div 262144), char_of (0x80 + r div 4096 mod 64),
            char_of (0x80 + r div 64 mod 64), char_of (0x80 + r mod 64)])"

definition cont_byte :: "nat \<Rightarrow> bool" where
  "cont_byte b \<longleftrightarrow> 0x80 \<le> b \<and> b \<le> 0xBF"

text \<open>The range of the second byte that \<open>utf8.DecodeRune\<close> accepts after a first byte.\<close>

definition second_ok :: "nat \<Rightarrow> nat \<Rightarrow> bool" where
  "second_ok b0 b1 \<longleftrightarrow>
     (if b0 = 0xE0 then 0xA0 else if b0 = 0xF0 then 0x90 else 0x80) \<le> b1
     \<and> b1 \<le> (if b0 = 0xED then 0x9F else if b0 = 0xF4 then 0x8F else 0xBF)"

text \<open>\<open>utf8.DecodeRuneInString\<close> on a non-empty string: the rune and its width, or \<open>None\<close> for an
  invalid encoding (\<open>RuneError\<close>, width 1).\<close>

definition DecodeRune :: "bytes \<Rightarrow> (nat \<times> nat) option" where
  "DecodeRune s =
     (let b = map of_char s :: nat list; b0 = b ! 0; b1 = b ! 1; b2 = b ! 2; b3 = b ! 3 in
      if b0 < 0x80 then Some (b0, 1)
      else if 0xC2 \<le> b0 \<and> b0 \<le> 0xDF \<and> 2 \<le> length b \<and> second_ok b0 b1
      then Some ((b0 - 0xC0) * 64 + (b1 - 0x80), 2)
      else if 0xE0 \<le> b0 \<and> b0 \<le> 0xEF \<and> 3 \<le> length b \<and> second_ok b0 b1 \<and> cont_byte b2
      then Some ((b0 - 0xE0) * 4096 + (b1 - 0x80) * 64 + (b2 - 0x80), 3)
      else if 0xF0 \<le> b0 \<and> b0 \<le> 0xF4 \<and> 4 \<le> length b \<and> second_ok b0 b1 \<and> cont_byte b2 \<and> cont_byte b3
      then Some ((b0 - 0xF0) * 262144 + (b1 - 0x80) * 4096 + (b2 - 0x80) * 64 + (b3 - 0x80), 4)
      else None)"

section \<open>strconv.Quote\<close>

definition IsPrint :: "(nat \<Rightarrow> bool) \<Rightarrow> nat \<Rightarrow> bool" where
  "IsPrint tbl r =
     (if r \<le> 0xFF then (0x20 \<le> r \<and> r < 0x7F) \<or> (0xA1 \<le> r \<and> r \<noteq> 0xAD) else tbl r)"

definition escape_rune :: "(nat \<Rightarrow> bool) \<Rightarrow> char \<Rightarrow> nat \<Rightarrow> string" where
  "escape_rune tbl quote r =
     (if r = of_char quote \<or> r = of_char (CHR 0x5C) then [CHR 0x5C, char_of r]
      else if IsPrint tbl r then EncodeRune r
      else if r = 7 then [CHR 0x5C, CHR ''a'']
      else if r = 8 then [CHR 0x5C, CHR ''b'']
      else if r = 12 then [CHR 0x5C, CHR ''f'']
      else if r = 10 then [CHR 0x5C, CHR ''n'']
      else if r = 13 then [CHR 0x5C, CHR ''r'']
      else if r = 9 then [CHR 0x5C, CHR ''t'']
      else if r = 11 then [CHR 0x5C, CHR ''v'']
      else if r < 32 \<or> r = 0x7F then [CHR 0x5C, CHR ''x''] @ hex_pad 2 r
      else if r < 0x10000 then [CHR 0x5C, CHR ''u''] @ hex_pad 4 r
      else [CHR 0x5C, CHR ''U''] @ hex_pad 8 r)"

function quote_body :: "(nat \<Rightarrow> bool) \<Rightarrow> string \<Rightarrow> string" where
  "quote_body tbl s =
     (if s = [] then []
      else (case DecodeRune s of
              None \<Rightarrow> [CHR 0x5C, CHR ''x''] @ hex_pad 2 (of_char (hd s)) @ quote_body tbl (drop 1 s)
            | Some (r, w) \<Rightarrow> escape_rune tbl (CHR 0x22) r @ quote_body tbl (drop w s)))"
  by pat_completeness auto

lemma DecodeRune_width: "DecodeRune s = Some (r, w) \<Longrightarrow> 0 < w"
  by (auto simp: DecodeRune_def Let_def split: if_splits)

termination quote_body
  by (relation "measure (length \<circ> snd)") (auto dest: DecodeRune_width)

declare quote_body.simps [simp del]

definition Quote :: "(nat \<Rightarrow> bool) \<Rightarrow> string \<Rightarrow> string" where
  "Quote tbl s = CHR 0x22 # quote_body tbl s @ [CHR 0x22]"

definition QuoteRune :: "(nat \<Rightarrow> bool) \<Rightarrow> nat \<Rightarrow> string" where
  "QuoteRune tbl r = CHR 0x27 # escape_rune tbl (CHR 0x27) r @ [CHR 0x27]"

section \<open>fmt.Sprintf and Error()\<close>

datatype farg = FStr string | FInt int | FByte byte | FStrs "string list"

definition verb_text :: "(nat \<Rightarrow> bool) \<Rightarrow> char \<Rightarrow> farg \<Rightarrow> string" where
  "verb_text tbl v a =
     (case a of
        FStr s \<Rightarrow> if v = CHR ''q'' then Quote tbl s else s
      | FInt i \<Rightarrow> if v = CHR ''x'' then hex_pad 8 (nat i) else Itoa i
      | FByte b \<Rightarrow>
          if v = CHR ''q'' then QuoteRune tbl (of_char b)
          else if v = CHR ''c'' then EncodeRune (of_char b)
          else if v = CHR ''x'' then hex_pad 2 (of_char b)
          else Itoa (of_char b)
      | FStrs l \<Rightarrow> CHR ''['' # Join l '' '' @ '']'')"

text \<open>The flag and width of \<open>%02x\<close> and \<open>%08x\<close> are skipped: \<open>%02x\<close> is only used for a byte and
  \<open>%08x\<close> only for a \<open>uint32\<close>, so \<open>verb_text\<close> knows the width.\<close>

function sprintf :: "(nat \<Rightarrow> bool) \<Rightarrow> string \<Rightarrow> farg list \<Rightarrow> string" where
  "sprintf tbl [] as = []"
| "sprintf tbl (c # f) as =
     (if c \<noteq> CHR ''%'' then c # sprintf tbl f as
      else (case dropWhile (\<lambda>d. d \<in> set ''0123456789'') f of
              [] \<Rightarrow> ''%!(NOVERB)''
            | v # f' \<Rightarrow>
                (case as of
                   [] \<Rightarrow> ''%!'' @ v # ''(MISSING)'' @ sprintf tbl f' []
                 | a # as' \<Rightarrow> verb_text tbl v a @ sprintf tbl f' as')))"
  by pat_completeness auto

lemma dropWhile_shorter: "dropWhile P xs = y # ys \<Longrightarrow> length ys < length xs"
  using length_dropWhile_le [of P xs] by simp

termination sprintf
  by (relation "measure (\<lambda>(tbl, f, as). length f)") (auto dest!: sym [of _ "dropWhile _ _"] dest: dropWhile_shorter)

fun farg_of :: "(nat \<Rightarrow> bool) \<Rightarrow> go_arg \<Rightarrow> farg"
and err_text :: "(nat \<Rightarrow> bool) \<Rightarrow> go_err \<Rightarrow> string"
where
  "farg_of tbl (AStr s) = FStr s"
| "farg_of tbl (AInt i) = FInt i"
| "farg_of tbl (AByte b) = FByte b"
| "farg_of tbl (AStrs l) = FStrs l"
| "farg_of tbl (AErr e) = FStr (err_text tbl e)"
| "farg_of tbl (AWrap e) = FStr (err_text tbl e)"
| "err_text tbl EOF = ''EOF''"
| "err_text tbl ErrUnexpectedEOF = ''unexpected EOF''"
| "err_text tbl (SysErr s) = s"
| "err_text tbl (Errorf f as) = sprintf tbl f (map (farg_of tbl) as)"
| "err_text tbl (SwitchPlanError name missing e) =
     sprintf tbl ''database %q: %v'' [FStr name, FStr (err_text tbl e)]"

text \<open>\<open>fmt.Sprintf\<close> with the arguments of an error.\<close>

definition Sprintf :: "(nat \<Rightarrow> bool) \<Rightarrow> string \<Rightarrow> go_arg list \<Rightarrow> string" where
  "Sprintf tbl f as = sprintf tbl f (map (farg_of tbl) as)"

section \<open>Quoted text\<close>

lemma hex_digit_not_NUL: "d < 16 \<Longrightarrow> hex_digit d \<noteq> CHR 0x00"
proof
  assume d: "d < 16" and "hex_digit d = CHR 0x00"
  then have "of_char (hex_digit d) = (of_char (CHR 0x00) :: nat)" by simp
  with d show False by (simp add: hex_digit_def split: if_splits)
qed

lemma hex_pad_no_NUL: "CHR 0x00 \<notin> set (hex_pad k n)"
  by (induction k arbitrary: n) (auto dest: sym simp: hex_digit_not_NUL)

lemma char_of_not_NUL: "0 < n \<Longrightarrow> n < 256 \<Longrightarrow> char_of (n :: nat) \<noteq> CHR 0x00"
proof
  assume n: "0 < n" "n < 256" and "char_of n = CHR 0x00"
  then have "of_char (char_of n :: char) = (of_char (CHR 0x00) :: nat)" by simp
  with n show False by simp
qed

lemma EncodeRune_no_NUL:
  assumes "0 < r" and "r < 0x110000"
  shows "CHR 0x00 \<notin> set (EncodeRune r)"
proof -
  have "r div 262144 < 8" "r div 4096 mod 64 < 64" "r div 64 mod 64 < 64" "r mod 64 < 64"
    using assms(2) by simp_all
  moreover have "r < 0x800 \<Longrightarrow> r div 64 < 32" and "r < 0x10000 \<Longrightarrow> r div 4096 < 16" by simp_all
  ultimately show ?thesis
    using assms(1) by (auto simp: EncodeRune_def dest!: sym [of "CHR 0x00"] simp: char_of_not_NUL)
qed

lemma DecodeRune_range:
  assumes "DecodeRune s = Some (r, w)" and "s \<noteq> []"
  shows "r < 0x110000"
  using assms
  by (auto simp: DecodeRune_def Let_def second_ok_def cont_byte_def split: if_splits)

lemma escape_rune_no_NUL:
  assumes "r < 0x110000" and "quote \<noteq> CHR 0x00"
  shows "CHR 0x00 \<notin> set (escape_rune tbl quote r)"
proof -
  have "char_of r \<noteq> CHR 0x00" if "r = of_char quote \<or> r = of_char (CHR 0x5C)"
    using that assms(2) char_of_not_NUL [of 92] by auto
  moreover have "CHR 0x00 \<notin> set (EncodeRune r)" if "IsPrint tbl r"
    using that assms(1) by (cases "r = 0") (auto simp: IsPrint_def EncodeRune_no_NUL)
  ultimately show ?thesis
    using assms(2) by (auto simp: escape_rune_def hex_pad_no_NUL)
qed

text \<open>Quoted text has no NUL byte, whatever the string.\<close>

lemma Quote_no_NUL: "CHR 0x00 \<notin> set (Quote tbl s)"
proof -
  have "CHR 0x00 \<notin> set (quote_body tbl s)"
  proof (induction tbl s rule: quote_body.induct)
    case (1 tbl s)
    show ?case
    proof (cases "s = []")
      case False
      note step = quote_body.simps [of tbl s]
      show ?thesis
      proof (cases "DecodeRune s")
        case None
        with False 1 step show ?thesis by (simp add: hex_pad_no_NUL)
      next
        case (Some rw)
        then obtain r w where rw: "DecodeRune s = Some (r, w)" by (cases rw) simp
        with False 1(2) [OF False rw refl] step DecodeRune_range [OF rw False] show ?thesis
          by (simp add: escape_rune_no_NUL)
      qed
    qed (simp add: quote_body.simps)
  qed
  then show ?thesis by (simp add: Quote_def)
qed

text \<open>Printable ASCII without quote and backslash is quoted as it is.\<close>

definition plain_char :: "char \<Rightarrow> bool" where
  "plain_char c \<longleftrightarrow> CHR 0x20 \<le> c \<and> c < CHR 0x7F \<and> c \<noteq> CHR 0x22 \<and> c \<noteq> CHR 0x5C"

lemma Quote_plain:
  assumes "list_all plain_char s"
  shows "Quote tbl s = CHR 0x22 # s @ [CHR 0x22]"
proof -
  have "quote_body tbl s = s"
    using assms
  proof (induction s)
    case (Cons c s)
    let ?n = "of_char c :: nat"
    from Cons.prems have c: "0x20 \<le> ?n" "?n < 0x7F" "c \<noteq> CHR 0x22" "c \<noteq> CHR 0x5C"
      by (auto simp: plain_char_def less_eq_char_def less_char_def)
    then have "DecodeRune (c # s) = Some (?n, 1)" by (simp add: DecodeRune_def)
    moreover have n: "?n \<noteq> 34" "?n \<noteq> 92"
    proof -
      have "of_char (CHR 0x22) = (34 :: nat)" and "of_char (CHR 0x5C) = (92 :: nat)" by simp_all
      with c(3,4) show "?n \<noteq> 34" and "?n \<noteq> 92" by (metis of_char_eq_iff)+
    qed
    moreover have "escape_rune tbl (CHR 0x22) ?n = [c]"
      using c n by (auto simp: escape_rune_def IsPrint_def EncodeRune_def)
    ultimately show ?case using Cons by (subst quote_body.simps) simp
  qed (simp add: quote_body.simps)
  then show ?thesis by (simp add: Quote_def)
qed

section \<open>strings.ToLower\<close>

text \<open>ASCII letters are lowered here, other runes by the table; bytes that are not UTF-8 become U+FFFD.\<close>

definition lower_rune :: "(nat \<Rightarrow> nat) \<Rightarrow> nat \<Rightarrow> nat" where
  "lower_rune tbl r = (if r < 0x80 then (if 0x41 \<le> r \<and> r \<le> 0x5A then r + 32 else r) else tbl r)"

function ToLower :: "(nat \<Rightarrow> nat) \<Rightarrow> string \<Rightarrow> string" where
  "ToLower tbl s =
     (if s = [] then []
      else (case DecodeRune s of
              None \<Rightarrow> EncodeRune 0xFFFD @ ToLower tbl (drop 1 s)
            | Some (r, w) \<Rightarrow> EncodeRune (lower_rune tbl r) @ ToLower tbl (drop w s)))"
  by pat_completeness auto

termination ToLower
  by (relation "measure (length \<circ> snd)") (auto dest: DecodeRune_width)

declare ToLower.simps [simp del]

section \<open>UTF-8 encodes and decodes\<close>

definition valid_rune :: "nat \<Rightarrow> bool" where
  "valid_rune r \<longleftrightarrow> r < 0xD800 \<or> (0xE000 \<le> r \<and> r < 0x110000)"

lemma DecodeRune_EncodeRune:
  assumes "valid_rune r"
  shows "DecodeRune (EncodeRune r @ t) = Some (r, length (EncodeRune r))"
proof -
  define c where "c = r mod 64"
  define q where "q = r div 64"
  define b where "b = q mod 64"
  define a where "a = q div 64"
  define b' where "b' = a mod 64"
  define a' where "a' = a div 64"
  have r: "r = 64 * q + c" "q = 64 * a + b" "a = 64 * a' + b'" and bd: "c < 64" "b < 64" "b' < 64"
    by (simp_all add: c_def q_def b_def a_def a'_def b'_def)
  have d: "r div 4096 = a" "r div 64 mod 64 = b" "r mod 64 = c" "r div 64 = q" "r div 262144 = a'" "r div 4096 mod 64 = b'"
    "q mod 64 = b" "a mod 64 = b'"
    by (simp_all add: c_def q_def b_def a_def a'_def b'_def flip: div_mult2_eq)
  consider "r < 0x80" | "0x80 \<le> r" "r < 0x800" | "0x800 \<le> r" "r < 0x10000" | "0x10000 \<le> r" "r < 0x110000"
    using assms by (force simp: valid_rune_def)
  then show ?thesis
  proof cases
    case 1
    then show ?thesis by (simp add: EncodeRune_def DecodeRune_def)
  next
    case 2
    then have "2 \<le> q" "q < 32" using r bd by linarith+
    moreover have "EncodeRune r = [char_of (0xC0 + q), char_of (0x80 + c)]" using 2 by (simp add: EncodeRune_def d)
    ultimately show ?thesis using bd(1) by (simp add: DecodeRune_def Let_def second_ok_def r(1))
  next
    case 3
    then have "a < 16" "a = 0 \<Longrightarrow> 32 \<le> b" using r bd by linarith+
    moreover have "a = 13 \<Longrightarrow> b \<le> 31" using r bd assms unfolding valid_rune_def by linarith
    moreover have "EncodeRune r = [char_of (0xE0 + a), char_of (0x80 + b), char_of (0x80 + c)]"
      using 3 by (simp add: EncodeRune_def d)
    moreover have "r = a * 4096 + b * 64 + c" using r by simp
    ultimately show ?thesis using bd(1,2) by (simp add: DecodeRune_def Let_def second_ok_def cont_byte_def)
  next
    case 4
    then have "a' < 5" "a' = 0 \<Longrightarrow> 16 \<le> b'" "a' = 4 \<Longrightarrow> b' \<le> 15" using r bd by linarith+
    moreover have "EncodeRune r = [char_of (0xF0 + a'), char_of (0x80 + b'), char_of (0x80 + b), char_of (0x80 + c)]"
      using 4 by (simp add: EncodeRune_def d)
    moreover have "r = a' * 262144 + b' * 4096 + b * 64 + c" using r by simp
    ultimately show ?thesis using bd by (simp add: DecodeRune_def Let_def second_ok_def cont_byte_def)
  qed
qed


lemma EncodeRune_bytes:
  "2 \<le> x \<Longrightarrow> x < 32 \<Longrightarrow> y < 64 \<Longrightarrow> EncodeRune (x * 64 + y) = [char_of (0xC0 + x), char_of (0x80 + y)]"
  "x < 16 \<Longrightarrow> y < 64 \<Longrightarrow> z < 64 \<Longrightarrow> 32 \<le> x * 64 + y \<Longrightarrow>
     EncodeRune (x * 4096 + y * 64 + z) = [char_of (0xE0 + x), char_of (0x80 + y), char_of (0x80 + z)]"
  "x < 5 \<Longrightarrow> y < 64 \<Longrightarrow> z < 64 \<Longrightarrow> u < 64 \<Longrightarrow> 16 \<le> x * 64 + y \<Longrightarrow>
     EncodeRune (x * 262144 + y * 4096 + z * 64 + u) = [char_of (0xF0 + x), char_of (0x80 + y), char_of (0x80 + z), char_of (0x80 + u)]"
proof -
  show "EncodeRune (x * 64 + y) = [char_of (0xC0 + x), char_of (0x80 + y)]" if "2 \<le> x" "x < 32" "y < 64"
  proof -
    have "(x * 64 + y) div 64 = x" "(x * 64 + y) mod 64 = y" using that(3) by simp_all
    with that show ?thesis by (simp add: EncodeRune_def)
  qed
  show "EncodeRune (x * 4096 + y * 64 + z) = [char_of (0xE0 + x), char_of (0x80 + y), char_of (0x80 + z)]"
    if "x < 16" "y < 64" "z < 64" "32 \<le> x * 64 + y"
  proof -
    define q where "q = x * 64 + y"
    have r: "x * 4096 + y * 64 + z = q * 64 + z" by (simp add: q_def)
    have "(q * 64 + z) div 64 = q" "(q * 64 + z) mod 64 = z" using that(3) by simp_all
    moreover have "q div 64 = x" "q mod 64 = y" using that(2) by (simp_all add: q_def)
    moreover have "(q * 64 + z) div 4096 = q div 64" using calculation(1) div_mult2_eq [of "q * 64 + z" 64 64] by simp
    moreover have "q < 1024" "32 \<le> q" using that by (simp_all add: q_def)
    ultimately show ?thesis using that(3) by (simp add: EncodeRune_def r)
  qed
  show "EncodeRune (x * 262144 + y * 4096 + z * 64 + u) = [char_of (0xF0 + x), char_of (0x80 + y), char_of (0x80 + z), char_of (0x80 + u)]"
    if "x < 5" "y < 64" "z < 64" "u < 64" "16 \<le> x * 64 + y"
  proof -
    define p where "p = x * 64 + y"
    define q where "q = p * 64 + z"
    have r: "x * 262144 + y * 4096 + z * 64 + u = q * 64 + u" by (simp add: q_def p_def)
    have "(q * 64 + u) div 64 = q" "(q * 64 + u) mod 64 = u" "p div 64 = x" "p mod 64 = y"
      using that(2,4) by (simp_all add: p_def)
    moreover have "q div 64 = p" "q mod 64 = z" using that(3) by (simp_all add: q_def)
    moreover have "(q * 64 + u) div 4096 = q div 64" using calculation(1) div_mult2_eq [of "q * 64 + u" 64 64] by simp
    moreover have "(q * 64 + u) div 262144 = p div 64" using calculation div_mult2_eq [of "q * 64 + u" 4096 64] by simp
    moreover have "16 \<le> p" using that(5) by (simp add: p_def)
    then have "1024 \<le> q" by (simp add: q_def)
    ultimately show ?thesis by (simp add: EncodeRune_def r)
  qed
qed


lemma take_nths:
  "2 \<le> length s \<Longrightarrow> take 2 s = [s ! 0, s ! 1]"
  "3 \<le> length s \<Longrightarrow> take 3 s = [s ! 0, s ! 1, s ! 2]"
  "4 \<le> length s \<Longrightarrow> take 4 s = [s ! 0, s ! 1, s ! 2, s ! 3]"
proof -
  have n: "(2 :: nat) = Suc (Suc 0)" "(3 :: nat) = Suc (Suc (Suc 0))" "(4 :: nat) = Suc (Suc (Suc (Suc 0)))" by simp_all
  show "2 \<le> length s \<Longrightarrow> take 2 s = [s ! 0, s ! 1]" "3 \<le> length s \<Longrightarrow> take 3 s = [s ! 0, s ! 1, s ! 2]"
    "4 \<le> length s \<Longrightarrow> take 4 s = [s ! 0, s ! 1, s ! 2, s ! 3]"
    unfolding n Suc_le_length_iff by auto
qed

lemma valid_rune_bytes:
  assumes "y < 64" and "z < 64"
  shows "x < 16 \<Longrightarrow> (x = 13 \<Longrightarrow> y < 32) \<Longrightarrow> valid_rune (x * 4096 + y * 64 + z)"
    and "x < 5 \<Longrightarrow> u < 64 \<Longrightarrow> (x = 0 \<Longrightarrow> 16 \<le> y) \<Longrightarrow> (x = 4 \<Longrightarrow> y < 16) \<Longrightarrow>
      valid_rune (x * 262144 + y * 4096 + z * 64 + u)"
proof -
  show "valid_rune (x * 4096 + y * 64 + z)" if x: "x < 16" "x = 13 \<Longrightarrow> y < 32"
  proof -
    consider "x < 13" | "x = 13" "y < 32" | "13 < x" using x by linarith
    then show ?thesis using assms x(1) unfolding valid_rune_def by cases linarith+
  qed
  show "valid_rune (x * 262144 + y * 4096 + z * 64 + u)" if x: "x < 5" "u < 64" "x = 0 \<Longrightarrow> 16 \<le> y" "x = 4 \<Longrightarrow> y < 16"
  proof -
    consider "x = 0" "16 \<le> y" | "0 < x" "x < 4" | "x = 4" "y < 16" using x by linarith
    then show ?thesis using assms x(1,2) unfolding valid_rune_def by cases linarith+
  qed
qed

lemma DecodeRune_SomeD:
  assumes "DecodeRune s = Some (r, w)" and "s \<noteq> []"
  shows "valid_rune r" and "take w s = EncodeRune r" and "w = length (EncodeRune r)" and "w \<le> length s"
proof -
  have c: "s ! i = char_of (of_char (s ! i) :: nat)" for i by simp
  let ?b = "\<lambda>i. of_char (s ! i) :: nat"
  have "(?b 0 < 0x80 \<and> r = ?b 0 \<and> w = 1)
    \<or> (0xC2 \<le> ?b 0 \<and> ?b 0 \<le> 0xDF \<and> 2 \<le> length s \<and> second_ok (?b 0) (?b 1) \<and> r = (?b 0 - 0xC0) * 64 + (?b 1 - 0x80) \<and> w = 2)
    \<or> (0xE0 \<le> ?b 0 \<and> ?b 0 \<le> 0xEF \<and> 3 \<le> length s \<and> second_ok (?b 0) (?b 1) \<and> cont_byte (?b 2)
        \<and> r = (?b 0 - 0xE0) * 4096 + (?b 1 - 0x80) * 64 + (?b 2 - 0x80) \<and> w = 3)
    \<or> (0xF0 \<le> ?b 0 \<and> ?b 0 \<le> 0xF4 \<and> 4 \<le> length s \<and> second_ok (?b 0) (?b 1) \<and> cont_byte (?b 2) \<and> cont_byte (?b 3)
        \<and> r = (?b 0 - 0xF0) * 262144 + (?b 1 - 0x80) * 4096 + (?b 2 - 0x80) * 64 + (?b 3 - 0x80) \<and> w = 4)" (is "?A \<or> ?B \<or> ?C \<or> ?D")
    using assms unfolding DecodeRune_def Let_def by (simp split: if_splits)
  then consider ?A | ?B | ?C | ?D by blast
  note cases = this
  have "valid_rune r \<and> take w s = EncodeRune r \<and> w = length (EncodeRune r) \<and> w \<le> length s"
  proof (cases rule: cases)
    case 1
    then have "EncodeRune r = [s ! 0]" by (simp add: EncodeRune_def)
    then show ?thesis using 1 assms(2) by (cases s) (auto simp: valid_rune_def)
  next
    case 2
    define x where "x = ?b 0 - 0xC0"
    define y where "y = ?b 1 - 0x80"
    have x: "2 \<le> x" "x < 32" "y < 64" "?b 0 = 0xC0 + x" "?b 1 = 0x80 + y" "r = x * 64 + y"
      using 2 by (auto simp: x_def y_def second_ok_def split: if_splits)
    then have "valid_rune r" by (simp add: valid_rune_def)
    moreover have "EncodeRune r = [s ! 0, s ! 1]" using EncodeRune_bytes(1) [OF x(1-3)] x(4-6) c by metis
    ultimately show ?thesis using 2 take_nths(1) [of s] by simp
  next
    case 3
    define x where "x = ?b 0 - 0xE0"
    define y where "y = ?b 1 - 0x80"
    define z where "z = ?b 2 - 0x80"
    have x: "x < 16" "y < 64" "z < 64" "?b 0 = 0xE0 + x" "?b 1 = 0x80 + y" "?b 2 = 0x80 + z" "r = x * 4096 + y * 64 + z"
      and x0: "x = 0 \<Longrightarrow> 32 \<le> y" "x = 13 \<Longrightarrow> y < 32"
      using 3 by (auto simp: x_def y_def z_def second_ok_def cont_byte_def split: if_splits)
    have "valid_rune r" unfolding x(7) using x x0 by (intro valid_rune_bytes) auto
    moreover have "32 \<le> x * 64 + y" using x0(1) by (cases "x = 0") auto
    then have "EncodeRune r = [s ! 0, s ! 1, s ! 2]" using EncodeRune_bytes(2) [OF x(1-3)] x(4-7) c by metis
    ultimately show ?thesis using 3 take_nths(2) [of s] by simp
  next
    case 4
    define x where "x = ?b 0 - 0xF0"
    define y where "y = ?b 1 - 0x80"
    define z where "z = ?b 2 - 0x80"
    define u where "u = ?b 3 - 0x80"
    have x: "x < 5" "y < 64" "z < 64" "u < 64" "?b 0 = 0xF0 + x" "?b 1 = 0x80 + y" "?b 2 = 0x80 + z" "?b 3 = 0x80 + u"
      "r = x * 262144 + y * 4096 + z * 64 + u" and x0: "x = 0 \<Longrightarrow> 16 \<le> y" "x = 4 \<Longrightarrow> y < 16"
      using 4 by (auto simp: x_def y_def z_def u_def second_ok_def cont_byte_def split: if_splits)
    have "valid_rune r" unfolding x(9) using x x0 by (intro valid_rune_bytes) auto
    moreover have "16 \<le> x * 64 + y" using x0(1) by (cases "x = 0") auto
    then have "EncodeRune r = [s ! 0, s ! 1, s ! 2, s ! 3]" using EncodeRune_bytes(3) [OF x(1-4)] x(5-9) c by metis
    ultimately show ?thesis using 4 take_nths(3) [of s] by simp
  qed
  then show "valid_rune r" and "take w s = EncodeRune r" and "w = length (EncodeRune r)" and "w \<le> length s" by blast+
qed

text \<open>A string with every byte that is not UTF-8 replaced by U+FFFD.\<close>

function to_valid :: "string \<Rightarrow> string" where
  "to_valid s =
     (if s = [] then []
      else (case DecodeRune s of
              None \<Rightarrow> EncodeRune 0xFFFD @ to_valid (drop 1 s)
            | Some (r, w) \<Rightarrow> EncodeRune r @ to_valid (drop w s)))"
  by pat_completeness auto

termination to_valid
  by (relation "measure length") (auto dest: DecodeRune_width)

declare to_valid.simps [simp del]

definition valid_utf8 :: "string \<Rightarrow> bool" where
  "valid_utf8 s \<longleftrightarrow> to_valid s = s"

end
