(* ===== verification/GoIO.thy ===== *)
theory GoIO
  imports GoFmt "HOL-Library.Sublist"
begin

text \<open>
  Network connections and the programs that run on them.

  \<^item> A \<open>conn\<close> is one end of a byte stream: the bytes the peer will have sent, the error its
    stream ends with, the bytes written so far, and how many more can be written before a write
    fails (\<open>None\<close>: any number). A write that fails has written a prefix. Because the theorems hold
    for every input stream, they hold for a peer that answers what it receives.
  \<^item> A program that uses a state and can fail or panic is a function from the state to a result
    and the state; \<open>bindIO\<close>, \<open>catchIO\<close> and \<open>tryIO\<close> are the three ways the source handles \<open>err\<close>:
    return it, return another one in its place after some action, or ignore it.
  \<^item> \<open>framing\<close> is what a message protocol promises on a stream: what the encoder writes, the
    reader reads back.
  \<^item> \<open>env\<close> is the world outside the source: dialling, TLS, SCRAM, randomness, RSA.
\<close>

section \<open>Connections\<close>

record conn =
  cin :: bytes
  cend :: go_err
  cout :: bytes
  ccap :: "nat option"
  cclosed :: bool

type_synonym ('s, 'a) io = "'s \<Rightarrow> 'a res \<times> 's"

definition retIO :: "'a \<Rightarrow> ('s, 'a) io" where
  "retIO x s = (Ok x, s)"

definition errIO :: "go_err \<Rightarrow> ('s, 'a) io" where
  "errIO e s = (Err e, s)"

definition bindIO :: "('s, 'a) io \<Rightarrow> ('a \<Rightarrow> ('s, 'b) io) \<Rightarrow> ('s, 'b) io" where
  "bindIO m k s =
     (case m s of (Ok x, s') \<Rightarrow> k x s' | (Err e, s') \<Rightarrow> (Err e, s') | (Panic, s') \<Rightarrow> (Panic, s'))"

text \<open>\<open>if err != nil { handler }\<close>, where the handler returns.\<close>

definition catchIO ::
  "('s, 'a) io \<Rightarrow> (go_err \<Rightarrow> ('s, 'b) io) \<Rightarrow> ('a \<Rightarrow> ('s, 'b) io) \<Rightarrow> ('s, 'b) io" where
  "catchIO m h k s =
     (case m s of (Ok x, s') \<Rightarrow> k x s' | (Err e, s') \<Rightarrow> h e s' | (Panic, s') \<Rightarrow> (Panic, s'))"

text \<open>\<open>_ = m\<close>: the error is dropped.\<close>

definition tryIO :: "('s, 'a) io \<Rightarrow> ('s, unit) io" where
  "tryIO m s = (case m s of (Panic, s') \<Rightarrow> (Panic, s') | (_, s') \<Rightarrow> (Ok (), s'))"

definition liftIO :: "'a res \<Rightarrow> ('s, 'a) io" where
  "liftIO r s = (r, s)"

text \<open>\<open>return fmt.Errorf("...: %w", err)\<close>.\<close>

definition wrapIO :: "string \<Rightarrow> ('s, 'a) io \<Rightarrow> ('s, 'a) io" where
  "wrapIO f m s = (let (r, s') = m s in (wrapR (\<lambda>e. Errorf f [AWrap e]) r, s'))"

lemma io_simps [simp]:
  "retIO x s = (Ok x, s)" "errIO e s = (Err e, s)" "liftIO r s = (r, s)"
  by (simp_all add: retIO_def errIO_def liftIO_def)

lemma bindIO_Ok [simp]: "m s = (Ok x, s') \<Longrightarrow> bindIO m k s = k x s'"
  by (simp add: bindIO_def)

lemma bindIO_Err [simp]: "m s = (Err e, s') \<Longrightarrow> bindIO m k s = (Err e, s')"
  by (simp add: bindIO_def)

lemma catchIO_Ok [simp]: "m s = (Ok x, s') \<Longrightarrow> catchIO m h k s = k x s'"
  by (simp add: catchIO_def)

lemma catchIO_Err [simp]: "m s = (Err e, s') \<Longrightarrow> catchIO m h k s = h e s'"
  by (simp add: catchIO_def)

lemma tryIO_Ok [simp]: "m s = (Ok x, s') \<Longrightarrow> tryIO m s = (Ok (), s')"
  by (simp add: tryIO_def)

lemma tryIO_Err [simp]: "m s = (Err e, s') \<Longrightarrow> tryIO m s = (Ok (), s')"
  by (simp add: tryIO_def)

lemma wrapIO_Ok [simp]: "m s = (Ok x, s') \<Longrightarrow> wrapIO f m s = (Ok x, s')"
  by (simp add: wrapIO_def)

lemma wrapIO_Err [simp]: "m s = (Err e, s') \<Longrightarrow> wrapIO f m s = (Err (Errorf f [AWrap e]), s')"
  by (simp add: wrapIO_def)

lemma bindIO_eq_Ok_iff:
  "bindIO m k s = (Ok y, s2) \<longleftrightarrow> (\<exists>x s1. m s = (Ok x, s1) \<and> k x s1 = (Ok y, s2))"
  by (auto simp: bindIO_def split: prod.splits res.splits)

lemma wrapIO_eq_Ok_iff: "wrapIO f m s = (Ok y, s') \<longleftrightarrow> m s = (Ok y, s')"
  by (auto simp: wrapIO_def split: prod.splits)

text \<open>Error handlers that return an error in any case.\<close>

definition never_Ok :: "('s, 'a) io \<Rightarrow> bool" where
  "never_Ok m \<longleftrightarrow> (\<forall>s x. fst (m s) \<noteq> Ok x)"

lemma never_Ok_errIO [simp]: "never_Ok (errIO e)"
  by (simp add: never_Ok_def)

lemma never_Ok_bindIO [simp]: "(\<And>x. never_Ok (k x)) \<Longrightarrow> never_Ok (bindIO m k)"
  by (auto simp: never_Ok_def bindIO_def split: prod.splits res.splits)

lemma catchIO_eq_Ok_iff:
  assumes "\<And>e. never_Ok (h e)"
  shows "catchIO m h k s = (Ok y, s2) \<longleftrightarrow> (\<exists>x s1. m s = (Ok x, s1) \<and> k x s1 = (Ok y, s2))"
proof -
  have "h e s1 \<noteq> (Ok y, s2)" for e s1 using assms [of e] by (auto simp: never_Ok_def) (metis fst_conv)
  then show ?thesis by (auto simp: catchIO_def split: prod.splits res.splits)
qed

text \<open>\<open>io.ReadFull\<close>.\<close>

definition ReadFull :: "nat \<Rightarrow> (conn, bytes) io" where
  "ReadFull n c =
     (if n = 0 then (Ok [], c)
      else if cclosed c then (Err (SysErr ''use of closed network connection''), c)
      else if n \<le> length (cin c) then (Ok (take n (cin c)), c\<lparr>cin := drop n (cin c)\<rparr>)
      else (Err (if cin c \<noteq> [] \<and> cend c = EOF then ErrUnexpectedEOF else cend c), c\<lparr>cin := []\<rparr>))"

text \<open>\<open>net.Conn.Write\<close>: a failing write has sent a prefix.\<close>

definition Write :: "bytes \<Rightarrow> (conn, unit) io" where
  "Write b c =
     (if cclosed c then (Err (SysErr ''use of closed network connection''), c)
      else (case ccap c of
              None \<Rightarrow> (Ok (), c\<lparr>cout := cout c @ b\<rparr>)
            | Some k \<Rightarrow>
                if length b \<le> k then (Ok (), c\<lparr>cout := cout c @ b, ccap := Some (k - length b)\<rparr>)
                else (Err (SysErr ''write: broken pipe''), c\<lparr>cout := cout c @ take k b, ccap := Some 0\<rparr>)))"

definition close_sock :: "conn \<Rightarrow> conn" where
  "close_sock c = c\<lparr>cclosed := True\<rparr>"

section \<open>Reading and writing\<close>

definition can_write :: "nat \<Rightarrow> conn \<Rightarrow> bool" where
  "can_write n c \<longleftrightarrow> \<not> cclosed c \<and> (case ccap c of None \<Rightarrow> True | Some k \<Rightarrow> n \<le> k)"

definition wrote :: "bytes \<Rightarrow> conn \<Rightarrow> conn" where
  "wrote b c = c\<lparr>cout := cout c @ b, ccap := map_option (\<lambda>k. k - length b) (ccap c)\<rparr>"

lemma Write_Ok [simp]: "can_write (length b) c \<Longrightarrow> Write b c = (Ok (), wrote b c)"
  by (auto simp: can_write_def Write_def wrote_def split: option.splits)

lemma wrote_simps [simp]:
  "cout (wrote b c) = cout c @ b" "cin (wrote b c) = cin c" "cclosed (wrote b c) = cclosed c"
  "cend (wrote b c) = cend c" "wrote b' (wrote b c) = wrote (b @ b') c" "wrote [] c = c"
  by (auto simp: wrote_def map_option.compositionality comp_def option.map_ident)

lemma wrote_cin: "(wrote b c)\<lparr>cin := i\<rparr> = wrote b (c\<lparr>cin := i\<rparr>)"
  by (cases c) (simp add: wrote_def)

lemma can_write_wrote [simp]: "can_write (length b + n) c \<Longrightarrow> can_write n (wrote b c)"
  by (auto simp: can_write_def wrote_def split: option.splits)

lemma can_write_mono: "can_write n c \<Longrightarrow> m \<le> n \<Longrightarrow> can_write m c"
  by (auto simp: can_write_def split: option.splits)

lemma can_write_append:
  "can_write (length (a @ b)) c \<longleftrightarrow> can_write (length a) c \<and> can_write (length b) (wrote a c)"
  by (auto simp: can_write_def wrote_def split: option.splits)

lemma Write_Ok_iff: "Write b c = (Ok (), c') \<longleftrightarrow> can_write (length b) c \<and> c' = wrote b c"
  by (auto simp: can_write_def Write_def wrote_def split: option.splits if_splits)

lemma Write_not_Panic [simp]: "fst (Write b c) \<noteq> Panic"
  by (auto simp: Write_def split: option.splits)

text \<open>Whether or not it succeeds, a write appends a prefix of its argument.\<close>

lemma Write_prefix:
  "\<exists>p. cout (snd (Write b c)) = cout c @ p \<and> prefix p b \<and> (fst (Write b c) = Ok () \<longrightarrow> p = b)
     \<and> cin (snd (Write b c)) = cin c \<and> cclosed (snd (Write b c)) = cclosed c"
  by (auto simp: Write_def take_is_prefix split: option.splits)

lemma ReadFull_append [simp]:
  "\<not> cclosed c \<Longrightarrow> cin c = b @ rest \<Longrightarrow> n = length b \<Longrightarrow> ReadFull n c = (Ok b, c\<lparr>cin := rest\<rparr>)"
  by (cases "b = []") (auto simp: ReadFull_def)

lemma ReadFull_end: "\<not> cclosed c \<Longrightarrow> cin c = [] \<Longrightarrow> 0 < n \<Longrightarrow> ReadFull n c = (Err (cend c), c)"
  by (simp add: ReadFull_def)

lemma ReadFull_not_Panic [simp]: "fst (ReadFull n c) \<noteq> Panic"
  by (simp add: ReadFull_def)

lemma ReadFull_OkD:
  "ReadFull n c = (Ok b, c') \<Longrightarrow> length b = n \<and> cin c = b @ cin c' \<and> c' = c\<lparr>cin := cin c'\<rparr>"
  by (auto simp: ReadFull_def split: if_splits)

lemma ReadFull_keeps [simp]:
  "cout (snd (ReadFull n c)) = cout c" "cclosed (snd (ReadFull n c)) = cclosed c"
  "ccap (snd (ReadFull n c)) = ccap c" "cend (snd (ReadFull n c)) = cend c"
  by (auto simp: ReadFull_def)

lemma read_only_cout: "c' = c\<lparr>cin := x\<rparr> \<Longrightarrow> cout c' = cout c"
  by simp

text \<open>A stream that is cut short: what \<open>ReadFull\<close> returns.\<close>

lemma ReadFull_short:
  "\<not> cclosed c \<Longrightarrow> length (cin c) < n \<Longrightarrow>
   ReadFull n c = (Err (if cin c \<noteq> [] \<and> cend c = EOF then ErrUnexpectedEOF else cend c), c\<lparr>cin := []\<rparr>)"
  by (simp add: ReadFull_def)

text \<open>A new connection whose peer sends \<open>b\<close> and then closes.\<close>

definition fresh_conn :: "bytes \<Rightarrow> conn" where
  "fresh_conn b = \<lparr>cin = b, cend = EOF, cout = [], ccap = None, cclosed = False\<rparr>"

text \<open>What a read returns depends only on the bytes the peer sends.\<close>

lemma ReadFull_fresh:
  "ReadFull n c = (Ok b, c') \<Longrightarrow>
   length b = n \<and> cin c = b @ cin c' \<and> (\<exists>i. c' = c\<lparr>cin := i\<rparr>)
   \<and> ReadFull n (fresh_conn (cin c)) = (Ok b, fresh_conn (cin c'))"
  by (auto simp: ReadFull_def fresh_conn_def split: if_splits intro: exI [of _ "cin c"])

text \<open>Read \<open>n\<close> messages.\<close>

fun read_n :: "(conn, 'm) io \<Rightarrow> nat \<Rightarrow> (conn, 'm list) io" where
  "read_n rd 0 = retIO []"
| "read_n rd (Suc n) = bindIO rd (\<lambda>m. bindIO (read_n rd n) (\<lambda>ms. retIO (m # ms)))"

section \<open>Message framing\<close>

locale framing =
  fixes enc :: "'m \<Rightarrow> bytes" and rd :: "(conn, 'm) io" and valid :: "'m \<Rightarrow> bool"
  assumes read_enc: "valid m \<Longrightarrow> \<not> cclosed c \<Longrightarrow> cin c = enc m @ rest \<Longrightarrow> rd c = (Ok m, c\<lparr>cin := rest\<rparr>)"
    and enc_nonempty: "valid m \<Longrightarrow> enc m \<noteq> []"
begin

lemma read_stream:
  assumes "list_all valid ms" and "\<not> cclosed c" and "cin c = concat (map enc ms) @ rest"
  shows "read_n rd (length ms) c = (Ok ms, c\<lparr>cin := rest\<rparr>)"
  using assms
proof (induction ms arbitrary: c)
  case (Cons m ms)
  have "rd c = (Ok m, c\<lparr>cin := concat (map enc ms) @ rest\<rparr>)"
    using Cons.prems by (intro read_enc) auto
  moreover have "read_n rd (length ms) (c\<lparr>cin := concat (map enc ms) @ rest\<rparr>) = (Ok ms, c\<lparr>cin := rest\<rparr>)"
    using Cons by simp
  ultimately show ?case by simp
qed auto

lemma prefix_free:
  assumes "valid m" and "valid m'" and "enc m @ p = enc m' @ q"
  shows "m = m' \<and> p = q"
proof -
  let ?c = "\<lparr>cin = enc m @ p, cend = EOF, cout = [], ccap = None, cclosed = False\<rparr>"
  have "rd ?c = (Ok m, ?c\<lparr>cin := p\<rparr>)" using assms(1) by (intro read_enc) auto
  moreover have "rd ?c = (Ok m', ?c\<lparr>cin := q\<rparr>)" using assms(2,3) by (intro read_enc) auto
  ultimately show ?thesis by simp
qed

lemma stream_unique:
  assumes "list_all valid ms" and "list_all valid ms'" and "concat (map enc ms) = concat (map enc ms')"
  shows "ms = ms'"
  using assms
proof (induction ms arbitrary: ms')
  case Nil
  then show ?case by (cases ms') (auto simp: enc_nonempty)
next
  case (Cons m ms)
  then obtain m' ms1 where ms': "ms' = m' # ms1" by (cases ms') (auto simp: enc_nonempty)
  with Cons.prems prefix_free [of m m'] have "m = m'" "concat (map enc ms) = concat (map enc ms1)" by auto
  with Cons ms' show ?case by simp
qed

end

section \<open>The outside world\<close>

text \<open>What the source calls and does not contain. \<open>'c\<close> is a conversation of \<open>xdg-go/scram\<close>:
  \<open>env_scram_new\<close> is \<open>SHA256.NewClient(user, password, "").NewConversation()\<close>, \<open>env_scram_step\<close> and
  \<open>env_scram_valid\<close> are its methods. \<open>env_tls\<close> is a TLS client handshake on a connection for a
  server name, and gives the encrypted stream as a connection of its own. \<open>env_pem_decode\<close>,
  \<open>env_parse_pkix\<close> and \<open>env_oaep\<close> are the steps of encrypting with a server's public key.
  \<open>env_f2i\<close> is the conversion of a \<open>float64\<close> (its bits) to \<open>int32\<close>.
  \<open>env_now\<close> is the clock in milliseconds at the moment when so many bytes of the client's stream are
  left, and \<open>env_toLower\<close> and \<open>env_isPrint\<close> are tables of the \<open>unicode\<close> package. \<open>env_buffered\<close> is how much of
  the rest of the client's stream \<open>bufio.Reader\<close> holds when the startup message has been read, and
  \<open>env_copy\<close> how many bytes each direction of \<open>pipeBidi\<close> copies before it ends.\<close>

datatype pubkey = RSAKey bytes | OtherKey bytes

record 'c env =
  env_isPrint :: "nat \<Rightarrow> bool"
  env_dial :: "string \<Rightarrow> conn res"
  env_tls :: "string \<Rightarrow> conn \<Rightarrow> conn res"
  env_scram_new :: "string \<Rightarrow> string \<Rightarrow> 'c res"
  env_scram_step :: "'c \<Rightarrow> string \<Rightarrow> string res \<times> 'c"
  env_scram_valid :: "'c \<Rightarrow> bool"
  env_rand :: "nat \<Rightarrow> bytes res"
  env_pem_decode :: "bytes \<Rightarrow> bytes option"
  env_parse_pkix :: "bytes \<Rightarrow> pubkey res"
  env_oaep :: "bytes \<Rightarrow> bytes \<Rightarrow> bytes res"
  env_f2i :: "u64 \<Rightarrow> u32"
  env_now :: "nat \<Rightarrow> u64"
  env_toLower :: "nat \<Rightarrow> nat"
  env_remote :: string
  env_goos :: string
  env_buffered :: nat
  env_copy :: "nat \<times> nat"

end
