(* ===== verification/Handler.thy ===== *)
theory Handler
  imports Server GoIO
begin

text \<open>
  The state of one connection handler, shared by the three protocols: the client's connection, the
  upstream's once it is dialled, the server, and the identity its \<open>Conn\<close> object will have. The end of
  every handler is the same: \<open>Register\<close>, \<open>pipeBidi\<close>, \<open>Close\<close>.
\<close>

record hstate =
  h_client :: conn
  h_up :: "conn option"
  h_srv :: Server
  h_id :: nat

definition on_client :: "(conn, 'a) io \<Rightarrow> (hstate, 'a) io" where
  "on_client m s = (let (r, c) = m (h_client s) in (r, s\<lparr>h_client := c\<rparr>))"

definition on_up :: "(conn, 'a) io \<Rightarrow> (hstate, 'a) io" where
  "on_up m s =
     (case h_up s of
        None \<Rightarrow> (Panic, s)
      | Some u \<Rightarrow> (let (r, c) = m u in (r, s\<lparr>h_up := Some c\<rparr>)))"

definition set_up :: "conn \<Rightarrow> (hstate, unit) io" where
  "set_up c s = (Ok (), s\<lparr>h_up := Some c\<rparr>)"

definition close_up :: "(hstate, unit) io" where
  "close_up s = (Ok (), s\<lparr>h_up := map_option close_sock (h_up s)\<rparr>)"

definition upstream_addr :: "ResolvedTarget \<Rightarrow> string" where
  "upstream_addr rt = JoinHostPort (rt_Host rt) (Itoa (rt_Port rt))"

definition dial_up :: "'c env \<Rightarrow> string \<Rightarrow> (hstate, unit) io" where
  "dial_up env addr = bindIO (liftIO (env_dial env addr)) set_up"

text \<open>\<open>s.connSeq.Add(1)\<close>.\<close>

definition next_connID :: "(hstate, u32) io" where
  "next_connID s =
     (let connID = srv_connSeq (h_srv s) + 1
      in (Ok connID, s\<lparr>h_srv := (h_srv s)\<lparr>srv_connSeq := connID\<rparr>\<rparr>))"

text \<open>\<open>conn := &Conn{...}; database.Register(conn)\<close>.\<close>

definition attach :: "string \<Rightarrow> ResolvedTarget \<Rightarrow> (hstate, unit) io" where
  "attach n rt s =
     (let srv = h_srv s; w = srv_store srv;
          w' = w\<lparr>st_conns := (st_conns w)(h_id s \<mapsto> new_conn rt)\<rparr>
      in (Ok (), s\<lparr>h_srv := srv\<lparr>srv_store := Register n (h_id s) w'\<rparr>\<rparr>))"

text \<open>Each direction of \<open>pipeBidi\<close> copies a prefix of what its source sends, in order and unchanged;
  in the end both connections are closed.\<close>

definition copied :: "nat \<Rightarrow> conn \<Rightarrow> conn \<Rightarrow> conn" where
  "copied n src dst = snd (Write (take n (cin src)) dst)"

definition pipeBidi :: "'c env \<Rightarrow> (hstate, unit) io" where
  "pipeBidi env s =
     (case h_up s of
        None \<Rightarrow> (Panic, s)
      | Some u \<Rightarrow>
          let (k, j) = env_copy env; c = h_client s;
              u' = (copied k c u)\<lparr>cin := drop j (cin u)\<rparr>;
              c' = (copied j u c)\<lparr>cin := drop k (cin c)\<rparr>
          in (Ok (), s\<lparr>h_client := close_sock c', h_up := Some (close_sock u')\<rparr>))"

text \<open>\<open>defer conn.Close()\<close>.\<close>

definition detach :: "(hstate, unit) io" where
  "detach s =
     (let srv = h_srv s in (Ok (), s\<lparr>h_srv := srv\<lparr>srv_store := Close (h_id s) (srv_store srv)\<rparr>\<rparr>))"

definition relay :: "'c env \<Rightarrow> (hstate, unit) io" where
  "relay env = bindIO (pipeBidi env) (\<lambda>_. detach)"

section \<open>Lemmas\<close>

lemma on_client_eq [simp]: "m (h_client s) = (r, c) \<Longrightarrow> on_client m s = (r, s\<lparr>h_client := c\<rparr>)"
  by (simp add: on_client_def)

lemma on_up_eq [simp]: "h_up s = Some u \<Longrightarrow> m u = (r, c) \<Longrightarrow> on_up m s = (r, s\<lparr>h_up := Some c\<rparr>)"
  by (simp add: on_up_def)

lemma on_client_Ok_iff:
  "on_client m s = (Ok x, s') \<longleftrightarrow> (\<exists>c. m (h_client s) = (Ok x, c) \<and> s' = s\<lparr>h_client := c\<rparr>)"
  by (auto simp: on_client_def split: prod.splits)

lemma on_up_Ok_iff:
  "on_up m s = (Ok x, s') \<longleftrightarrow> (\<exists>u c. h_up s = Some u \<and> m u = (Ok x, c) \<and> s' = s\<lparr>h_up := Some c\<rparr>)"
  by (auto simp: on_up_def split: prod.splits option.splits)

lemma handler_simps [simp]:
  "set_up c s = (Ok (), s\<lparr>h_up := Some c\<rparr>)" "close_up s = (Ok (), s\<lparr>h_up := map_option close_sock (h_up s)\<rparr>)"
  by (simp_all add: set_up_def close_up_def)

text \<open>Relaying adds to each side's output a prefix of the other side's input and nothing else.\<close>

lemma copied_prefix:
  "\<exists>p. cout (copied n src dst) = cout dst @ p \<and> prefix p (cin src)"
proof -
  obtain p where "cout (copied n src dst) = cout dst @ p" "prefix p (take n (cin src))"
    using Write_prefix [of "take n (cin src)" dst] by (auto simp: copied_def)
  then show ?thesis using take_is_prefix prefix_order.trans by blast
qed

lemma pipeBidi_prefix:
  assumes "pipeBidi env s = (Ok (), s')" and "h_up s = Some u"
  shows "\<exists>u' p q. h_up s' = Some u' \<and> cout u' = cout u @ p \<and> prefix p (cin (h_client s))
     \<and> cout (h_client s') = cout (h_client s) @ q \<and> prefix q (cin u)
     \<and> cclosed u' \<and> cclosed (h_client s')"
proof -
  obtain k j where kj: "env_copy env = (k, j)" by (cases "env_copy env")
  obtain p q where "cout (copied k (h_client s) u) = cout u @ p" "prefix p (cin (h_client s))"
    "cout (copied j u (h_client s)) = cout (h_client s) @ q" "prefix q (cin u)"
    using copied_prefix [of k "h_client s" u] copied_prefix [of j u "h_client s"] by auto
  with assms kj show ?thesis by (auto simp: pipeBidi_def Let_def close_sock_def)
qed


section \<open>What a handler changes in the server\<close>

definition keeps_srv :: "(hstate, 'a) io \<Rightarrow> bool" where
  "keeps_srv m \<longleftrightarrow> (\<forall>s. h_srv (snd (m s)) = h_srv s)"

text \<open>The server changes only if the program succeeds.\<close>

definition commits :: "(hstate, 'a) io \<Rightarrow> bool" where
  "commits m \<longleftrightarrow> (\<forall>s. (\<forall>x. fst (m s) \<noteq> Ok x) \<longrightarrow> h_srv (snd (m s)) = h_srv s)"

lemma keeps_srv_intros [simp]:
  "keeps_srv (retIO x)" "keeps_srv (errIO e)" "keeps_srv (liftIO r)" "keeps_srv (on_client mc)"
  "keeps_srv (on_up mu)" "keeps_srv close_up" "keeps_srv (set_up c)" "keeps_srv (dial_up env addr)"
  by (auto simp: keeps_srv_def on_client_def on_up_def dial_up_def bindIO_def set_up_def close_up_def
      split: prod.splits option.splits res.splits)

lemma keeps_srvD: "keeps_srv m \<Longrightarrow> m s = (r, s') \<Longrightarrow> h_srv s' = h_srv s"
  by (metis keeps_srv_def snd_conv)

lemma keeps_srvI: "(\<And>s r s'. m s = (r, s') \<Longrightarrow> h_srv s' = h_srv s) \<Longrightarrow> keeps_srv m"
  by (metis keeps_srv_def prod.collapse)

lemma keeps_srv_catchIO [simp]:
  assumes "keeps_srv m" and "\<And>e. keeps_srv (h e)" and "\<And>x. keeps_srv (k x)"
  shows "keeps_srv (catchIO m h k)"
proof (rule keeps_srvI)
  fix s r s' assume run: "catchIO m h k s = (r, s')"
  obtain r1 s1 where m: "m s = (r1, s1)" by (cases "m s")
  with assms(1) have "h_srv s1 = h_srv s" by (rule keeps_srvD)
  with run m keeps_srvD [OF assms(2)] keeps_srvD [OF assms(3)] show "h_srv s' = h_srv s"
    by (cases r1) (auto simp: catchIO_def)
qed

lemma bindIO_catchIO: "bindIO m k = catchIO m errIO k"
  by (rule ext) (auto simp: bindIO_def catchIO_def split: prod.splits res.splits)

lemma keeps_srv_bindIO [simp]: "keeps_srv m \<Longrightarrow> (\<And>x. keeps_srv (k x)) \<Longrightarrow> keeps_srv (bindIO m k)"
  by (simp add: bindIO_catchIO)

lemma keeps_srv_tryIO [simp]:
  assumes "keeps_srv m"
  shows "keeps_srv (tryIO m)"
proof (rule keeps_srvI)
  fix s r s' assume run: "tryIO m s = (r, s')"
  obtain r1 s1 where m: "m s = (r1, s1)" by (cases "m s")
  with run keeps_srvD [OF assms m] show "h_srv s' = h_srv s"
    by (cases r1) (auto simp: tryIO_def)
qed

lemma keeps_srv_wrapIO [simp]: "keeps_srv m \<Longrightarrow> keeps_srv (wrapIO f m)"
  by (rule keeps_srvI) (auto simp: wrapIO_def dest: keeps_srvD split: prod.splits)

lemma commits_keeps: "keeps_srv m \<Longrightarrow> commits m"
  by (simp add: keeps_srv_def commits_def)

lemma commits_attach [simp]: "commits (attach n rt)"
  by (simp add: commits_def attach_def Let_def)

lemma commits_catchIO:
  assumes "keeps_srv m" and "\<And>e. keeps_srv (h e)" and "\<And>x. commits (k x)"
  shows "commits (catchIO m h k)"
  unfolding commits_def
proof (intro allI impI)
  fix s assume fail: "\<forall>x. fst (catchIO m h k s) \<noteq> Ok x"
  obtain r s1 where m: "m s = (r, s1)" by (cases "m s")
  have "h_srv s1 = h_srv s" using assms(1) m by (rule keeps_srvD)
  moreover have "h_srv (snd (k x s1)) = h_srv s1" if "r = Ok x" for x
    using assms(3) [of x] fail m that by (simp add: commits_def)
  moreover have "h_srv (snd (h e s1)) = h_srv s1" for e
    using assms(2) [of e] by (simp add: keeps_srv_def)
  ultimately show "h_srv (snd (catchIO m h k s)) = h_srv s"
    using m by (cases r) (simp_all add: catchIO_def)
qed


lemma commits_bindIO: "keeps_srv m \<Longrightarrow> (\<And>x. commits (k x)) \<Longrightarrow> commits (bindIO m k)"
  unfolding bindIO_catchIO by (rule commits_catchIO) simp_all

section \<open>Sessions\<close>

text \<open>Programs of a handler that touch the client's connection only.\<close>

definition client_only :: "(hstate, 'a) io \<Rightarrow> bool" where
  "client_only m \<longleftrightarrow>
     (\<forall>s. h_srv (snd (m s)) = h_srv s \<and> h_id (snd (m s)) = h_id s \<and> h_up (snd (m s)) = h_up s)"

lemma client_onlyD:
  "client_only m \<Longrightarrow> m s = (r, s') \<Longrightarrow> h_srv s' = h_srv s \<and> h_id s' = h_id s \<and> h_up s' = h_up s"
  by (metis client_only_def snd_conv)

lemma client_onlyI:
  "(\<And>s r s'. m s = (r, s') \<Longrightarrow> h_srv s' = h_srv s \<and> h_id s' = h_id s \<and> h_up s' = h_up s) \<Longrightarrow> client_only m"
  by (metis client_only_def prod.collapse)

lemma client_only_intros [simp]:
  "client_only (retIO x)" "client_only (errIO e)" "client_only (liftIO r)" "client_only (on_client mc)"
  by (auto simp: client_only_def on_client_def split: prod.splits)

lemma client_only_bindIO [simp]:
  assumes "client_only m" and "\<And>x. client_only (k x)"
  shows "client_only (bindIO m k)"
proof (rule client_onlyI)
  fix s r s' assume run: "bindIO m k s = (r, s')"
  obtain r1 s1 where m: "m s = (r1, s1)" by (cases "m s")
  with run client_onlyD [OF assms(1) m] client_onlyD [OF assms(2)]
  show "h_srv s' = h_srv s \<and> h_id s' = h_id s \<and> h_up s' = h_up s"
    by (cases r1) (auto simp: bindIO_def)
qed

lemma client_only_tryIO [simp]: "client_only m \<Longrightarrow> client_only (tryIO m)"
  by (rule client_onlyI) (auto simp: tryIO_def dest: client_onlyD split: prod.splits res.splits)

lemma client_only_wrapIO [simp]: "client_only m \<Longrightarrow> client_only (wrapIO f m)"
  by (rule client_onlyI) (auto simp: wrapIO_def dest: client_onlyD split: prod.splits)

text \<open>An upstream that was dialled is closed again.\<close>

definition up_closed :: "hstate \<Rightarrow> bool" where
  "up_closed s \<longleftrightarrow> (case h_up s of None \<Rightarrow> True | Some u \<Rightarrow> cclosed u)"

definition closes_on_err :: "(hstate, 'a) io \<Rightarrow> bool" where
  "closes_on_err m \<longleftrightarrow> (\<forall>s e s'. m s = (Err e, s') \<longrightarrow> up_closed s')"

lemma closes_on_err_intros [simp]:
  "closes_on_err (retIO x)" "closes_on_err (tryIO m)" "closes_on_err (set_up c)" "closes_on_err close_up"
  "closes_on_err (attach n rt)"
  by (auto simp: closes_on_err_def tryIO_def attach_def Let_def split: prod.splits res.splits)

lemma closes_on_err_close_up [simp]: "closes_on_err (bindIO close_up (\<lambda>_. errIO e))"
  by (auto simp: closes_on_err_def up_closed_def close_sock_def split: option.splits)

lemma closes_on_err_catchIO [simp]:
  "(\<And>e. closes_on_err (h e)) \<Longrightarrow> (\<And>x. closes_on_err (k x)) \<Longrightarrow> closes_on_err (catchIO m h k)"
  unfolding closes_on_err_def by (auto simp: catchIO_def split: prod.splits res.splits)

lemma closes_on_err_bindIO [simp]:
  "closes_on_err m \<Longrightarrow> (\<And>x. closes_on_err (k x)) \<Longrightarrow> closes_on_err (bindIO m k)"
  unfolding closes_on_err_def by (auto simp: bindIO_def split: prod.splits res.splits)

text \<open>Dialling fails without an upstream, and the rest closes the one it has.\<close>

lemma dial_closes:
  assumes "up_closed s" and "catchIO (dial_up env addr) h k s = (Err e, s')"
    and "\<And>e. client_only (h e)" and "\<And>x. closes_on_err (k x)"
  shows "up_closed s'"
proof (cases "env_dial env addr")
  case (Ok u)
  then have "k () (s\<lparr>h_up := Some u\<rparr>) = (Err e, s')" using assms(2) by (simp add: dial_up_def)
  with assms(4) show ?thesis by (auto simp: closes_on_err_def)
next
  case (Err e0)
  then have "h e0 s = (Err e, s')" using assms(2) by (simp add: dial_up_def bindIO_def catchIO_def)
  from client_onlyD [OF assms(3) this] assms(1) show ?thesis by (simp add: up_closed_def)
next
  case Panic
  then show ?thesis using assms(2) by (simp add: dial_up_def bindIO_def catchIO_def)
qed

text \<open>The server as it was, up to connections that came and went: every database has the same target
  and the same registered connections.\<close>

definition restored :: "Server \<Rightarrow> Server \<Rightarrow> bool" where
  "restored srv srv' \<longleftrightarrow> wf_store (srv_store srv')
     \<and> (\<forall>n. conns_of n (srv_store srv') = conns_of n (srv_store srv) \<and> Current n (srv_store srv') = Current n (srv_store srv)
          \<and> static_of n (srv_store srv') = static_of n (srv_store srv))
     \<and> CurrentTarget srv' = CurrentTarget srv \<and> srv_closed srv' = srv_closed srv \<and> srv_listeners srv' = srv_listeners srv"

text \<open>A handler starts with a new identity and no upstream.\<close>

definition ready :: "hstate \<Rightarrow> bool" where
  "ready s \<longleftrightarrow> wf_store (srv_store (h_srv s)) \<and> st_conns (srv_store (h_srv s)) (h_id s) = None \<and> up_closed s"

definition clean :: "(hstate, 'a) io \<Rightarrow> bool" where
  "clean m \<longleftrightarrow> (\<forall>s r s'. ready s \<and> m s = (r, s') \<longrightarrow> restored (h_srv s) (h_srv s') \<and> (r = Panic \<or> up_closed s'))"

lemma restored_refl: "wf_store (srv_store srv) \<Longrightarrow> restored srv srv"
  by (simp add: restored_def)

lemma cleanD:
  "clean m \<Longrightarrow> ready s \<Longrightarrow> m s = (r, s') \<Longrightarrow> restored (h_srv s) (h_srv s') \<and> (r = Panic \<or> up_closed s')"
  by (simp add: clean_def)

lemma clean_client_only: "client_only m \<Longrightarrow> clean m"
  unfolding clean_def by (metis client_onlyD ready_def restored_refl up_closed_def)

lemma clean_bindIO:
  assumes "client_only m" and "\<And>x. clean (k x)"
  shows "clean (bindIO m k)"
  unfolding clean_def
proof (intro allI impI)
  fix s r s' assume a: "ready s \<and> bindIO m k s = (r, s')"
  obtain r1 s1 where m: "m s = (r1, s1)" by (cases "m s")
  note c = client_onlyD [OF assms(1) m]
  then have r: "ready s1" using a by (simp add: ready_def up_closed_def)
  show "restored (h_srv s) (h_srv s') \<and> (r = Panic \<or> up_closed s')"
  proof (cases r1)
    case (Ok x)
    with a m have "k x s1 = (r, s')" by (simp add: bindIO_def)
    from cleanD [OF assms(2) r this] c show ?thesis by simp
  qed (use a m c in \<open>auto simp: bindIO_def ready_def restored_refl up_closed_def\<close>)
qed

text \<open>A program that looks at the state and runs one of several clean ones.\<close>

lemma clean_choice: "(\<And>s. \<exists>m'. clean m' \<and> m s = m' s) \<Longrightarrow> clean m"
  unfolding clean_def by metis

lemma relay_prefix:
  assumes "h_up s = Some u"
  shows "\<exists>s' u' p q. relay env s = (Ok (), s') \<and> h_up s' = Some u'
     \<and> cout u' = cout u @ p \<and> prefix p (cin (h_client s))
     \<and> cout (h_client s') = cout (h_client s) @ q \<and> prefix q (cin u)
     \<and> cclosed u' \<and> cclosed (h_client s')
     \<and> h_srv s' = (h_srv s)\<lparr>srv_store := Close (h_id s) (srv_store (h_srv s))\<rparr>"
proof -
  obtain s1 where p1: "pipeBidi env s = (Ok (), s1)" and srv: "h_srv s1 = h_srv s" "h_id s1 = h_id s"
    using assms by (cases "env_copy env") (simp add: pipeBidi_def Let_def)
  then have "relay env s = detach s1" by (simp add: relay_def)
  then have r: "relay env s = (Ok (), s1\<lparr>h_srv := (h_srv s)\<lparr>srv_store := Close (h_id s) (srv_store (h_srv s))\<rparr>\<rparr>)"
    by (simp add: detach_def Let_def srv)
  from pipeBidi_prefix [OF p1 assms] show ?thesis unfolding r by auto
qed

text \<open>What the three protocols promise of the part of a handler that connects: the server changes only
  if it succeeds, and then the connection is registered and there is an upstream; if it fails, no
  upstream stays open. The rest of the handler is the same for all.\<close>

locale session =
  fixes connect :: "(hstate, unit) io" and n :: string and rt :: ResolvedTarget
  assumes connect_commits: "commits connect"
    and connect_up: "connect s = (Ok (), s') \<Longrightarrow> \<exists>u. h_up s' = Some u"
    and connect_srv: "connect s = (Ok (), s') \<Longrightarrow> h_id s' = h_id s
      \<and> h_srv s' = (h_srv s)\<lparr>srv_store := Register n (h_id s)
          ((srv_store (h_srv s))\<lparr>st_conns := (st_conns (srv_store (h_srv s)))(h_id s \<mapsto> new_conn rt)\<rparr>)\<rparr>"
    and connect_closes: "up_closed s \<Longrightarrow> connect s = (Err e, s') \<Longrightarrow> up_closed s'"
begin

lemma session_runs:
  assumes "connect s = (Ok (), s1)"
  shows "\<exists>u s' u' p q. bindIO connect (\<lambda>_. relay env) s = (Ok (), s') \<and> h_up s1 = Some u \<and> h_up s' = Some u'
     \<and> cout u' = cout u @ p \<and> prefix p (cin (h_client s1))
     \<and> cout (h_client s') = cout (h_client s1) @ q \<and> prefix q (cin u)
     \<and> cclosed u' \<and> cclosed (h_client s')
     \<and> h_srv s' = (h_srv s1)\<lparr>srv_store := Close (h_id s1) (srv_store (h_srv s1))\<rparr>"
proof -
  obtain u where u: "h_up s1 = Some u" using connect_up [OF assms] by blast
  have "bindIO connect (\<lambda>_. relay env) s = relay env s1" using assms by simp
  with relay_prefix [OF u, of env] u show ?thesis by auto
qed

lemma session_fails:
  assumes "bindIO connect (\<lambda>_. relay env) s = (r, s')" and "r \<noteq> Ok ()"
  shows "h_srv s' = h_srv s"
proof -
  obtain r1 s1 where c: "connect s = (r1, s1)" by (cases "connect s")
  have r1: "r1 \<noteq> Ok ()"
  proof
    assume "r1 = Ok ()"
    with session_runs [of s s1 env] c assms show False by auto
  qed
  then have "s1 = s'" using assms c by (cases r1) (auto simp: bindIO_def)
  moreover have "h_srv s1 = h_srv s"
    using connect_commits c r1 unfolding commits_def by (metis fst_conv old.unit.exhaust snd_conv)
  ultimately show ?thesis by simp
qed

text \<open>A session leaves the server as it found it, and no upstream open.\<close>

lemma session_clean: "clean (bindIO connect (\<lambda>_. relay env))"
  unfolding clean_def
proof (intro allI impI)
  fix s r s' assume a: "ready s \<and> bindIO connect (\<lambda>_. relay env) s = (r, s')"
  then have wf: "wf_store (srv_store (h_srv s))" "st_conns (srv_store (h_srv s)) (h_id s) = None" by (simp_all add: ready_def)
  obtain r1 s1 where c: "connect s = (r1, s1)" by (cases "connect s")
  show "restored (h_srv s) (h_srv s') \<and> (r = Panic \<or> up_closed s')"
  proof (cases r1)
    case (Ok x)
    then have ok: "connect s = (Ok (), s1)" using c by simp
    from session_runs [OF ok, of env] a have "up_closed s'"
      and "h_srv s' = (h_srv s1)\<lparr>srv_store := Close (h_id s1) (srv_store (h_srv s1))\<rparr>" by (auto simp: up_closed_def)
    moreover note connect_srv [OF ok] Register_Close [OF wf refl, where n = n and rt = rt]
    ultimately show ?thesis by (simp add: restored_def CurrentTarget_def)
  next
    case (Err e)
    then have "r \<noteq> Ok ()" and "s' = s1" and "up_closed s1" using a c connect_closes [of s e s1]
      by (auto simp: bindIO_def ready_def)
    moreover have "h_srv s' = h_srv s" using session_fails a calculation(1) by blast
    ultimately show ?thesis using wf(1) by (simp add: restored_refl)
  next
    case Panic
    then have r: "r = Panic" using a c by (simp add: bindIO_def)
    then have "h_srv s' = h_srv s" using session_fails a by blast
    then show ?thesis using wf(1) r by (simp add: restored_refl)
  qed
qed

end

end
