(* ===== verification/PgWire.thy ===== *)
theory PgWire
  imports GoIO
begin

text \<open>
  \<open>internal/proxy/pgwire.go\<close>: the PostgreSQL frames the proxy reads and writes itself. The parser
  of the startup parameters accepts exactly what the encoder produces, message framing is lossless,
  and an error response is read back as its fields.
\<close>

section \<open>Constants\<close>

definition SSLRequestCode :: u32 where "SSLRequestCode = 0x04D2162F"
definition GSSENCRequestCode :: u32 where "GSSENCRequestCode = 0x04D21630"
definition CancelRequestCode :: u32 where "CancelRequestCode = 0x04D2162E"
definition ProtocolV3 :: u32 where "ProtocolV3 = 0x00030000"
definition MaxStartupLen :: nat where "MaxStartupLen = 64 * 1024"

definition AuthOk :: u32 where "AuthOk = 0"
definition AuthCleartextPassword :: u32 where "AuthCleartextPassword = 3"
definition AuthMD5Password :: u32 where "AuthMD5Password = 5"
definition AuthSASL :: u32 where "AuthSASL = 10"
definition AuthSASLContinue :: u32 where "AuthSASLContinue = 11"
definition AuthSASLFinal :: u32 where "AuthSASLFinal = 12"

section \<open>Startup parameters\<close>

record KV =
  kv_K :: string
  kv_V :: string

definition indexByte :: "bytes \<Rightarrow> nat \<Rightarrow> byte \<Rightarrow> nat option" where
  "indexByte b from c = index_from b from c"

function parse_params :: "bytes \<Rightarrow> nat \<Rightarrow> KV list \<Rightarrow> KV list res" where
  "parse_params b cursor out =
     (if cursor < length b - 1 then
        (case indexByte b cursor NUL of
           None \<Rightarrow> Err (Errorf ''startup body: unterminated key at %d'' [AInt (int cursor)])
         | Some keyEnd \<Rightarrow>
             bindR (slice b cursor keyEnd) (\<lambda>key.
               if key = [] then Err (Errorf ''startup body: empty key at %d'' [AInt (int cursor)])
               else
                 (case indexByte b (keyEnd + 1) NUL of
                    None \<Rightarrow> Err (Errorf ''startup body: unterminated value for key %q'' [AStr key])
                  | Some valEnd \<Rightarrow>
                      bindR (slice b (keyEnd + 1) valEnd) (\<lambda>val.
                        parse_params b (valEnd + 1) (out @ [\<lparr>kv_K = key, kv_V = val\<rparr>])))))
      else if cursor \<noteq> length b - 1 then Err (Errorf ''startup body: missing end-of-params NUL'' [])
      else Ok out)"
  by pat_completeness auto

termination parse_params
  by (relation "measure (\<lambda>(b, cursor, out). length b - cursor)")
    (auto dest!: index_from_SomeD simp: indexByte_def)

declare parse_params.simps [simp del]

definition ParseStartupBody :: "bytes \<Rightarrow> KV list res" where
  "ParseStartupBody b =
     (if b = [] \<or> b ! (length b - 1) \<noteq> NUL then Err (Errorf ''startup body: missing trailing NUL'' [])
      else parse_params b 0 [])"

fun LookupParam :: "KV list \<Rightarrow> string \<Rightarrow> string" where
  "LookupParam [] key = []"
| "LookupParam (kv # p) key = (if kv_K kv = key then kv_V kv else LookupParam p key)"

fun UpsertParam :: "KV list \<Rightarrow> string \<Rightarrow> string \<Rightarrow> KV list" where
  "UpsertParam [] key value = [\<lparr>kv_K = key, kv_V = value\<rparr>]"
| "UpsertParam (kv # p) key value =
     (if kv_K kv = key then kv\<lparr>kv_V := value\<rparr> # p else kv # UpsertParam p key value)"

definition startup_params :: "KV list \<Rightarrow> bytes" where
  "startup_params params = concat (map (\<lambda>kv. kv_K kv @ [NUL] @ kv_V kv @ [NUL]) params) @ [NUL]"

definition EncodeStartup :: "KV list \<Rightarrow> bytes" where
  "EncodeStartup params =
     (let bodyLen = foldl (\<lambda>n kv. n + (length (kv_K kv) + 1 + length (kv_V kv) + 1)) 1 params;
          total = 4 + 4 + bodyLen
      in put_be32 (word_of_nat total) @ put_be32 ProtocolV3 @ startup_params params)"

section \<open>Messages\<close>

definition ReadMessage :: "(conn, byte \<times> bytes) io" where
  "ReadMessage =
     bindIO (ReadFull 5) (\<lambda>hdr.
       let typ = hdr ! 0; len = unat (be_uint32 (drop 1 hdr)) in
       if len < 4 then errIO (Errorf ''message length %d < 4'' [AInt (int len)])
       else if len - 4 > MaxStartupLen
       then errIO (Errorf ''message body length %d out of range'' [AInt (int len - 4)])
       else bindIO (ReadFull (len - 4)) (\<lambda>body. retIO (typ, body)))"

definition msg_header :: "byte \<Rightarrow> bytes \<Rightarrow> bytes" where
  "msg_header typ body = typ # put_be32 (word_of_nat (4 + length body))"

definition WriteMessage :: "byte \<Rightarrow> bytes \<Rightarrow> (conn, unit) io" where
  "WriteMessage typ body = bindIO (Write (msg_header typ body)) (\<lambda>_. Write body)"

definition WriteAuthenticationOk :: "(conn, unit) io" where
  "WriteAuthenticationOk = WriteMessage (CHR ''R'') (put_be32 AuthOk)"

definition WriteSASLInitialResponse :: "string \<Rightarrow> string \<Rightarrow> (conn, unit) io" where
  "WriteSASLInitialResponse mechanism d =
     WriteMessage (CHR ''p'') (mechanism @ [NUL] @ put_be32 (word_of_nat (length d)) @ d)"

definition WriteSASLResponse :: "string \<Rightarrow> (conn, unit) io" where
  "WriteSASLResponse d = WriteMessage (CHR ''p'') d"

definition ParseAuthenticationMessage :: "bytes \<Rightarrow> (u32 \<times> bytes) res" where
  "ParseAuthenticationMessage body =
     (if length body < 4
      then Err (Errorf ''authentication message too short: %d'' [AInt (int (length body))])
      else bindR (slice body 0 4) (\<lambda>b. Ok (be_uint32 b, drop 4 body)))"

definition error_body :: "string \<Rightarrow> string \<Rightarrow> string \<Rightarrow> bytes" where
  "error_body severity sqlstate message =
     CHR ''S'' # severity @ [NUL] @ CHR ''V'' # severity @ [NUL] @ CHR ''C'' # sqlstate @ [NUL]
       @ CHR ''M'' # message @ [NUL] @ [NUL]"

definition WriteErrorResponse :: "string \<Rightarrow> string \<Rightarrow> string \<Rightarrow> (conn, unit) io" where
  "WriteErrorResponse severity sqlstate message =
     WriteMessage (CHR ''E'') (error_body severity sqlstate message)"

record error_fields =
  ef_severity :: string
  ef_code :: string
  ef_message :: string

definition set_field :: "byte \<Rightarrow> string \<Rightarrow> error_fields \<Rightarrow> error_fields" where
  "set_field ftype val f =
     (if ftype = CHR ''S'' \<or> ftype = CHR ''V''
      then (if ef_severity f = [] then f\<lparr>ef_severity := val\<rparr> else f)
      else if ftype = CHR ''C'' then f\<lparr>ef_code := val\<rparr>
      else if ftype = CHR ''M'' then f\<lparr>ef_message := val\<rparr>
      else f)"

definition field_end :: "bytes \<Rightarrow> nat \<Rightarrow> nat" where
  "field_end body i = (case index_from body i NUL of None \<Rightarrow> max i (length body) | Some e \<Rightarrow> e)"

function error_loop :: "bytes \<Rightarrow> nat \<Rightarrow> error_fields \<Rightarrow> error_fields res" where
  "error_loop body start f =
     (if \<not> start < length body then Ok f
      else if body ! start = NUL then Ok f
      else
        (let fin = field_end body (start + 1) in
         bindR (slice body (start + 1) fin) (\<lambda>val.
           error_loop body (fin + 1) (set_field (body ! start) val f))))"
  by pat_completeness auto

lemma field_end_ge: "i \<le> field_end body i"
  by (auto simp: field_end_def dest: index_from_SomeD split: option.split)

termination error_loop
proof (relation "measure (\<lambda>(body, start, f). length body - start)", goal_cases)
  case (2 body start f fin val)
  then show ?case using field_end_ge [of "start + 1" body] by simp
qed simp

declare error_loop.simps [simp del]

definition ParseErrorResponse :: "bytes \<Rightarrow> string res" where
  "ParseErrorResponse body =
     bindR (error_loop body 0 \<lparr>ef_severity = [], ef_code = [], ef_message = []\<rparr>) (\<lambda>f.
       let parts = ef_message f;
           parts = (if ef_severity f \<noteq> [] then ef_severity f @ '': '' @ parts else parts);
           parts = (if ef_code f \<noteq> [] then parts @ '' (SQLSTATE '' @ ef_code f @ '')'' else parts)
       in Ok (if parts = [] then ''unparseable ErrorResponse'' else parts))"

definition ReadUint32 :: "(conn, u32) io" where
  "ReadUint32 = bindIO (ReadFull 4) (\<lambda>b. retIO (be_uint32 b))"

section \<open>Startup parameters: the parser accepts exactly the encoder's output\<close>

definition param_ok :: "KV \<Rightarrow> bool" where
  "param_ok kv \<longleftrightarrow> kv_K kv \<noteq> [] \<and> NUL \<notin> set (kv_K kv) \<and> NUL \<notin> set (kv_V kv)"

lemma KV_eta: "\<lparr>kv_K = kv_K kv, kv_V = kv_V kv\<rparr> = kv"
  by (cases kv) simp

lemma startup_params_Cons:
  "startup_params (kv # ps) = kv_K kv @ NUL # kv_V kv @ NUL # startup_params ps"
  by (simp add: startup_params_def)

lemma startup_params_nonempty [simp]: "startup_params ps \<noteq> []"
  by (simp add: startup_params_def)

lemma parse_params_encode:
  assumes "list_all param_ok ps" and "b = p @ startup_params ps"
  shows "parse_params b (length p) out = Ok (out @ ps)"
  using assms
proof (induction ps arbitrary: p out)
  case Nil
  then show ?case by (subst parse_params.simps) (simp add: startup_params_def)
next
  case (Cons kv ps)
  let ?k = "kv_K kv" and ?v = "kv_V kv"
  from Cons.prems have ok: "?k \<noteq> []" "NUL \<notin> set ?k" "NUL \<notin> set ?v"
    by (simp_all add: param_ok_def)
  from Cons.prems have "list_all param_ok ps" by simp
  have b: "b = p @ ?k @ NUL # ?v @ NUL # startup_params ps"
    using Cons.prems(2) by (simp add: startup_params_Cons)
  have b2: "b = (p @ ?k @ [NUL]) @ ?v @ NUL # startup_params ps"
    and b3: "b = (p @ ?k @ [NUL] @ ?v @ [NUL]) @ startup_params ps" using b by simp_all
  have key: "indexByte b (length p) NUL = Some (length p + length ?k)"
    unfolding indexByte_def b by (rule index_from_append) (use ok in auto)
  have val: "indexByte b (length p + length ?k + 1) NUL = Some (length p + length ?k + 1 + length ?v)"
    unfolding indexByte_def b2 using ok(3) index_from_append [of _ "p @ ?k @ [NUL]" NUL ?v] by simp
  have "slice b (length p) (length p + length ?k) = Ok ?k"
    unfolding b by (rule slice_append) auto
  moreover have "slice b (length p + length ?k + 1) (length p + length ?k + 1 + length ?v) = Ok ?v"
    unfolding b2 by (rule slice_append) auto
  moreover have "parse_params b (length p + length ?k + 1 + length ?v + 1) (out @ [kv]) = Ok (out @ kv # ps)"
    using Cons.IH [OF \<open>list_all param_ok ps\<close> b3, of "out @ [kv]"] by (simp add: add.assoc)
  moreover have "length p < length b - 1" using b by simp
  ultimately show ?case
    by (subst parse_params.simps) (simp add: key val [simplified] ok KV_eta)
qed

lemma parse_params_decode:
  assumes "parse_params b cursor out = Ok r" and "b \<noteq> []" and "b ! (length b - 1) = NUL"
  shows "\<exists>ps. r = out @ ps \<and> list_all param_ok ps \<and> drop cursor b = startup_params ps"
  using assms
proof (induction b cursor out rule: parse_params.induct)
  case (1 b cursor out)
  show ?case
  proof (cases "cursor < length b - 1")
    case False
    with "1.prems"(1) have "cursor = length b - 1" "r = out"
      by (auto simp: parse_params.simps [of b cursor] split: if_splits)
    moreover from "1.prems"(2,3) have "drop (length b - 1) b = [NUL]"
      using Cons_nth_drop_Suc [of "length b - 1" b] by simp
    ultimately show ?thesis by (intro exI [of _ "[]"]) (simp add: startup_params_def)
  next
    case True
    with "1.prems"(1) obtain ke key ve val where ke: "indexByte b cursor NUL = Some ke"
      and key: "slice b cursor ke = Ok key" "key \<noteq> []"
      and ve: "indexByte b (ke + 1) NUL = Some ve" and val: "slice b (ke + 1) ve = Ok val"
      and rest: "parse_params b (ve + 1) (out @ [\<lparr>kv_K = key, kv_V = val\<rparr>]) = Ok r"
      by (auto simp: parse_params.simps [of b cursor] bindR_eq_Ok_iff split: option.splits if_splits)
    from "1.IH" [OF True ke key(1) _ ve val rest "1.prems"(2,3)] key(2) obtain ps where
      ps: "r = out @ [\<lparr>kv_K = key, kv_V = val\<rparr>] @ ps" "list_all param_ok ps"
      "drop (ve + 1) b = startup_params ps" by auto
    note ke = ke [unfolded indexByte_def] and ve = ve [unfolded indexByte_def]
    have k: "key = take (ke - cursor) (drop cursor b)" and v: "val = take (ve - (ke + 1)) (drop (ke + 1) b)"
      using key(1) val by (simp_all add: slice_eq_Ok_iff)
    have "NUL \<notin> set key" "NUL \<notin> set val" using index_from_SomeD [OF ke] index_from_SomeD [OF ve] k v by auto
    have "drop cursor b = key @ NUL # drop (ke + 1) b" using index_from_drop [OF ke] k by simp
    also have "drop (ke + 1) b = val @ NUL # drop (ve + 1) b" using index_from_drop [OF ve] v by simp
    finally have "drop cursor b = startup_params (\<lparr>kv_K = key, kv_V = val\<rparr> # ps)"
      using ps(3) by (simp add: startup_params_Cons)
    moreover have "param_ok \<lparr>kv_K = key, kv_V = val\<rparr>"
      using key(2) \<open>NUL \<notin> set key\<close> \<open>NUL \<notin> set val\<close> by (simp add: param_ok_def)
    ultimately show ?thesis
      using ps by (intro exI [of _ "\<lparr>kv_K = key, kv_V = val\<rparr> # ps"]) simp
  qed
qed

lemma ParseStartupBody_Ok_iff:
  "ParseStartupBody b = Ok ps \<longleftrightarrow> list_all param_ok ps \<and> b = startup_params ps"
proof
  assume ok: "ParseStartupBody b = Ok ps"
  then have "b \<noteq> []" "b ! (length b - 1) = NUL" by (auto simp: ParseStartupBody_def split: if_splits)
  with ok parse_params_decode [of b 0 "[]" ps] show "list_all param_ok ps \<and> b = startup_params ps"
    by (auto simp: ParseStartupBody_def)
next
  assume ps: "list_all param_ok ps \<and> b = startup_params ps"
  then have "b \<noteq> []" "b ! (length b - 1) = NUL"
    by (auto simp: startup_params_def nth_append)
  with ps parse_params_encode [of ps b "[]" "[]"] show "ParseStartupBody b = Ok ps"
    by (simp add: ParseStartupBody_def)
qed

lemma indexByte_slice:
  "indexByte b i c = Some j \<Longrightarrow> slice b i j = Ok (take (j - i) (drop i b))"
  by (auto simp: indexByte_def slice_def dest: index_from_SomeD)

lemma parse_params_never_Panic: "parse_params b cursor out \<noteq> Panic"
proof (induction b cursor out rule: parse_params.induct)
  case (1 b cursor out)
  show ?case
  proof (cases "indexByte b cursor NUL")
    case None
    then show ?thesis by (subst parse_params.simps) simp
  next
    case ke: (Some ke)
    show ?thesis
    proof (cases "indexByte b (ke + 1) NUL")
      case None
      with ke show ?thesis by (subst parse_params.simps) (simp add: indexByte_slice)
    next
      case (Some ve)
      with ke 1 show ?thesis by (subst parse_params.simps) (simp add: indexByte_slice)
    qed
  qed
qed


lemma EncodeStartup_frame:
  "EncodeStartup ps = put_be32 (word_of_nat (8 + length (startup_params ps))) @ put_be32 ProtocolV3 @ startup_params ps"
proof -
  have "foldl (\<lambda>n kv. n + (length (kv_K kv) + 1 + length (kv_V kv) + 1)) k ps
      = k + length (concat (map (\<lambda>kv. kv_K kv @ [NUL] @ kv_V kv @ [NUL]) ps))" for k
    by (induction ps arbitrary: k) auto
  from this [of 1] show ?thesis by (simp add: EncodeStartup_def startup_params_def)
qed

text \<open>C34. The startup parser accepts exactly the blocks that \<open>EncodeStartup\<close> writes for parameters
  with NUL-free texts and non-empty keys, returns those parameters in order, and never panics; in
  particular encoding and parsing are inverse to each other.\<close>

theorem startup_parse_iff_encode:
  "(ParseStartupBody b = Ok ps \<longleftrightarrow> list_all param_ok ps \<and> b = drop 8 (EncodeStartup ps))
   \<and> ParseStartupBody b \<noteq> Panic"
  using ParseStartupBody_Ok_iff [of b ps] parse_params_never_Panic [of b 0 "[]"]
  by (auto simp: EncodeStartup_frame ParseStartupBody_def)

text \<open>Setting a startup parameter sets it, leaves the others and their order alone, and adds the
  key at the end only if it was absent.\<close>

theorem UpsertParam_LookupParam:
  "LookupParam (UpsertParam ps k v) k' = (if k' = k then v else LookupParam ps k')
   \<and> map kv_K (UpsertParam ps k v) = (if k \<in> set (map kv_K ps) then map kv_K ps else map kv_K ps @ [k])"
  by (induction ps) auto

section \<open>Message framing\<close>

definition pg_frame :: "byte \<times> bytes \<Rightarrow> bytes" where
  "pg_frame m = msg_header (fst m) (snd m) @ snd m"

definition pg_valid :: "byte \<times> bytes \<Rightarrow> bool" where
  "pg_valid m \<longleftrightarrow> length (snd m) \<le> MaxStartupLen"

lemma unat_msg_len:
  "length body \<le> MaxStartupLen \<Longrightarrow> unat (word_of_nat (4 + length body) :: u32) = 4 + length body"
  by (rule unat_word_small) (simp add: MaxStartupLen_def)

lemma ReadMessage_frame:
  assumes "pg_valid m" and "\<not> cclosed c" and "cin c = pg_frame m @ rest"
  shows "ReadMessage c = (Ok m, c\<lparr>cin := rest\<rparr>)"
proof -
  obtain ty body where m: "m = (ty, body)" by (cases m)
  have len: "length body \<le> MaxStartupLen" using assms(1) m by (simp add: pg_valid_def)
  have "ReadFull 5 c = (Ok (msg_header ty body), c\<lparr>cin := body @ rest\<rparr>)"
    using assms(2,3) by (intro ReadFull_append) (simp_all add: m pg_frame_def msg_header_def)
  moreover have "be_uint32 (drop 1 (msg_header ty body)) = word_of_nat (4 + length body)"
    by (simp add: msg_header_def)
  moreover have "ReadFull (length body) (c\<lparr>cin := body @ rest\<rparr>) = (Ok body, c\<lparr>cin := rest\<rparr>)"
    using assms(2) by (subst ReadFull_append) auto
  ultimately show ?thesis
    using len unat_msg_len [OF len] by (simp add: ReadMessage_def m msg_header_def Let_def)
qed

lemma ReadMessage_OkD:
  assumes "ReadMessage c = (Ok (ty, body), c')"
  shows "cin c = pg_frame (ty, body) @ cin c' \<and> c' = c\<lparr>cin := cin c'\<rparr> \<and> pg_valid (ty, body)"
proof -
  from assms obtain hdr c1 where hdr: "ReadFull 5 c = (Ok hdr, c1)"
    and len: "4 \<le> unat (be_uint32 (drop 1 hdr))" "unat (be_uint32 (drop 1 hdr)) - 4 \<le> MaxStartupLen"
    and body: "ReadFull (unat (be_uint32 (drop 1 hdr)) - 4) c1 = (Ok body, c')" and ty: "ty = hdr ! 0"
    by (auto simp: ReadMessage_def bindIO_eq_Ok_iff Let_def split: if_splits)
  note h = ReadFull_OkD [OF hdr] and b = ReadFull_OkD [OF body]
  have "hdr = ty # drop 1 hdr" using h ty by (cases hdr) auto
  moreover have "word_of_nat (4 + length body) = be_uint32 (drop 1 hdr)"
  proof -
    have "4 + length body = unat (be_uint32 (drop 1 hdr))" using b len(1) by simp
    then show ?thesis by (simp only: of_nat_unat ucast_id)
  qed
  moreover have "put_be32 (be_uint32 (drop 1 hdr)) = drop 1 hdr" using h by (intro put_get32) simp
  ultimately have "msg_header ty body = hdr" by (simp add: msg_header_def)
  moreover have "c' = c\<lparr>cin := cin c'\<rparr>" using h b by (metis conn.surjective conn.update_convs(1))
  ultimately show ?thesis using h b len(2) by (simp add: pg_frame_def pg_valid_def)
qed

interpretation pg: framing pg_frame ReadMessage pg_valid
  by unfold_locales (auto simp: ReadMessage_frame pg_frame_def msg_header_def)

lemma WriteMessage_Ok [simp]:
  "can_write (length (pg_frame (typ, body))) c \<Longrightarrow> WriteMessage typ body c = (Ok (), wrote (pg_frame (typ, body)) c)"
proof -
  assume a: "can_write (length (pg_frame (typ, body))) c"
  then have "can_write (length (msg_header typ body)) c" by (rule can_write_mono) (simp add: pg_frame_def)
  moreover from a have "can_write (length body) (wrote (msg_header typ body) c)"
    by (intro can_write_wrote) (simp add: pg_frame_def)
  ultimately show ?thesis by (simp add: WriteMessage_def pg_frame_def)
qed

lemma WriteMessage_Ok_iff:
  "WriteMessage typ body c = (Ok (), c') \<longleftrightarrow>
     can_write (length (pg_frame (typ, body))) c \<and> c' = wrote (pg_frame (typ, body)) c"
proof
  assume "WriteMessage typ body c = (Ok (), c')"
  then have "can_write (length (msg_header typ body)) c"
    "can_write (length body) (wrote (msg_header typ body) c)" "c' = wrote (pg_frame (typ, body)) c"
    by (auto simp: WriteMessage_def bindIO_eq_Ok_iff Write_Ok_iff pg_frame_def)
  then show "can_write (length (pg_frame (typ, body))) c \<and> c' = wrote (pg_frame (typ, body)) c"
    by (auto simp: can_write_def wrote_def pg_frame_def split: option.splits)
qed simp

fun write_messages :: "(byte \<times> bytes) list \<Rightarrow> (conn, unit) io" where
  "write_messages [] = retIO ()"
| "write_messages (m # ms) = bindIO (WriteMessage (fst m) (snd m)) (\<lambda>_. write_messages ms)"

lemma write_messages_Ok:
  "write_messages ms c = (Ok (), c') \<Longrightarrow> cout c' = cout c @ concat (map pg_frame ms)"
  by (induction ms arbitrary: c) (auto simp: bindIO_eq_Ok_iff WriteMessage_Ok_iff)

text \<open>Message framing is lossless: any sequence of messages within the size limit that has been
  written is read back as the same sequence, whatever follows on the stream.\<close>

theorem pg_stream_roundtrip:
  assumes "write_messages ms c = (Ok (), c')" and "list_all pg_valid ms"
    and "\<not> cclosed r" and "cin r = drop (length (cout c)) (cout c') @ rest"
  shows "read_n ReadMessage (length ms) r = (Ok ms, r\<lparr>cin := rest\<rparr>)"
  using assms(4) write_messages_Ok [OF assms(1)] by (intro pg.read_stream assms(2,3)) simp

theorem pg_stream_roundtrip_witness:
  "\<exists>c'. write_messages [(CHR ''Q'', ''select 1''), (CHR ''X'', [])] (fresh_conn []) = (Ok (), c')
     \<and> read_n ReadMessage 2 (fresh_conn (cout c')) =
        (Ok [(CHR ''Q'', ''select 1''), (CHR ''X'', [])], (fresh_conn (cout c'))\<lparr>cin := []\<rparr>)"
proof -
  let ?ms = "[(CHR ''Q'', ''select 1''), (CHR ''X'', [])]"
  obtain c' where w: "write_messages ?ms (fresh_conn []) = (Ok (), c')"
    by (simp add: fresh_conn_def can_write_def wrote_def)
  have "list_all pg_valid ?ms" by (simp add: pg_valid_def MaxStartupLen_def)
  from pg_stream_roundtrip [OF w this, of "fresh_conn (cout c')" "[]"] w show ?thesis
    by (simp add: fresh_conn_def numeral_2_eq_2)
qed


section \<open>Error responses\<close>

lemma error_loop_field:
  assumes "body = p @ ft # v @ NUL # rest" and "ft \<noteq> NUL" and "NUL \<notin> set v"
  shows "error_loop body (length p) f = error_loop body (length (p @ ft # v @ [NUL])) (set_field ft v f)"
proof -
  have b: "body = (p @ [ft]) @ v @ NUL # rest" using assms(1) by simp
  have "index_from body (length p + 1) NUL = Some (length p + 1 + length v)"
    unfolding b using index_from_append [of _ "p @ [ft]" NUL v] assms(3) by simp
  then have e: "field_end body (length p + 1) = length p + 1 + length v" by (simp add: field_end_def)
  have "slice body (length p + 1) (length p + 1 + length v) = Ok v"
    unfolding b by (rule slice_append) auto
  with e assms(1,2) show ?thesis by (subst error_loop.simps) (simp add: Let_def)
qed

lemma error_loop_total: "\<exists>f'. error_loop body start f = Ok f'"
proof (induction body start f rule: error_loop.induct)
  case (1 body start f)
  have "start < length body \<Longrightarrow> field_end body (start + 1) \<le> length body"
    by (auto simp: field_end_def dest: index_from_SomeD split: option.split)
  with 1 show ?case
    using field_end_ge [of "start + 1" body]
    by (subst error_loop.simps) (auto simp: Let_def slice_Ok)
qed

lemma ParseErrorResponse_total: "\<exists>s. ParseErrorResponse body = Ok s"
  using error_loop_total [of body 0 "\<lparr>ef_severity = [], ef_code = [], ef_message = []\<rparr>"]
  by (auto simp: ParseErrorResponse_def Let_def)

lemma ParseErrorResponse_error_body:
  assumes "severity \<noteq> []" "NUL \<notin> set severity" and "sqlstate \<noteq> []" "NUL \<notin> set sqlstate"
    and "NUL \<notin> set message"
  shows "ParseErrorResponse (error_body severity sqlstate message) =
         Ok (severity @ '': '' @ message @ '' (SQLSTATE '' @ sqlstate @ '')'')"
proof -
  define body where "body = error_body severity sqlstate message"
  let ?S = "CHR ''S'' # severity @ [NUL]" and ?V = "CHR ''V'' # severity @ [NUL]"
    and ?C = "CHR ''C'' # sqlstate @ [NUL]" and ?M = "CHR ''M'' # message @ [NUL]"
  let ?f0 = "\<lparr>ef_severity = [], ef_code = [], ef_message = []\<rparr>"
  have b: "body = ?S @ ?V @ ?C @ ?M @ [NUL]" by (simp add: body_def error_body_def)
  have "error_loop body 0 ?f0 = error_loop body (length ?S) (set_field (CHR ''S'') severity ?f0)"
    using error_loop_field [of body "[]" "CHR ''S''" severity "?V @ ?C @ ?M @ [NUL]"] assms(2) b by simp
  also have "\<dots> = error_loop body (length (?S @ ?V)) (?f0\<lparr>ef_severity := severity\<rparr>)"
    using error_loop_field [of body ?S "CHR ''V''" severity "?C @ ?M @ [NUL]"] assms(1,2) b
    by (simp add: set_field_def)
  also have "\<dots> = error_loop body (length (?S @ ?V @ ?C)) (?f0\<lparr>ef_severity := severity, ef_code := sqlstate\<rparr>)"
    using error_loop_field [of body "?S @ ?V" "CHR ''C''" sqlstate "?M @ [NUL]"] assms(4) b
    by (simp add: set_field_def)
  also have "\<dots> = error_loop body (length (?S @ ?V @ ?C @ ?M))
      \<lparr>ef_severity = severity, ef_code = sqlstate, ef_message = message\<rparr>"
    using error_loop_field [of body "?S @ ?V @ ?C" "CHR ''M''" message "[NUL]"] assms(5) b
    by (simp add: set_field_def)
  also have "\<dots> = Ok \<lparr>ef_severity = severity, ef_code = sqlstate, ef_message = message\<rparr>"
    using b by (subst error_loop.simps) (simp add: nth_append)
  finally show ?thesis using assms(1,3) by (simp add: ParseErrorResponse_def body_def)
qed

text \<open>An error response the proxy writes is a single message that reads back as exactly its
  severity, message and SQLSTATE, for NUL-free texts.\<close>

theorem error_response_roundtrip:
  assumes "severity \<noteq> []" "NUL \<notin> set severity" and "sqlstate \<noteq> []" "NUL \<notin> set sqlstate"
    and "NUL \<notin> set message" and "length (error_body severity sqlstate message) \<le> MaxStartupLen"
    and "WriteErrorResponse severity sqlstate message c = (Ok (), c')"
    and "\<not> cclosed r" and "cin r = drop (length (cout c)) (cout c')"
  shows "\<exists>body. ReadMessage r = (Ok (CHR ''E'', body), r\<lparr>cin := []\<rparr>)
     \<and> ParseErrorResponse body = Ok (severity @ '': '' @ message @ '' (SQLSTATE '' @ sqlstate @ '')'')"
proof -
  let ?m = "(CHR ''E'', error_body severity sqlstate message)"
  have "cout c' = cout c @ pg_frame ?m"
    using assms(7) by (auto simp: WriteErrorResponse_def WriteMessage_Ok_iff)
  then have "ReadMessage r = (Ok ?m, r\<lparr>cin := []\<rparr>)"
    using assms(6,8,9) by (intro ReadMessage_frame) (simp_all add: pg_valid_def)
  with ParseErrorResponse_error_body [OF assms(1-5)] show ?thesis by blast
qed

theorem error_response_roundtrip_witness:
  "\<exists>c' body. WriteErrorResponse ''FATAL'' ''3D000'' ''no such database'' (fresh_conn []) = (Ok (), c')
     \<and> ReadMessage (fresh_conn (cout c')) = (Ok (CHR ''E'', body), fresh_conn (cout c')\<lparr>cin := []\<rparr>)
     \<and> ParseErrorResponse body = Ok ''FATAL: no such database (SQLSTATE 3D000)''"
proof -
  obtain c' where w: "WriteErrorResponse ''FATAL'' ''3D000'' ''no such database'' (fresh_conn []) = (Ok (), c')"
    by (simp add: WriteErrorResponse_def fresh_conn_def can_write_def)
  have "length (error_body ''FATAL'' ''3D000'' ''no such database'') \<le> MaxStartupLen"
    by (simp add: error_body_def MaxStartupLen_def)
  from error_response_roundtrip [OF _ _ _ _ _ this w, of "fresh_conn (cout c')"] w show ?thesis
    by (simp add: fresh_conn_def)
qed

end
