(* ===== verification/PgAuth.thy ===== *)
theory PgAuth
  imports PgWire
begin

text \<open>
  \<open>internal/proxy/auth.go\<close>: TLS negotiation and SCRAM-SHA-256 login on a PostgreSQL upstream. A login
  that succeeds has read an \<open>AuthenticationOk\<close>, and when the server asked for SASL it has verified the
  server's signature first.
\<close>

section \<open>TLS negotiation\<close>

definition SendSSLRequest :: "(conn, unit) io" where
  "SendSSLRequest = Write (put_be32 8 @ put_be32 SSLRequestCode)"

definition SendCancelRequest :: "u32 \<Rightarrow> u32 \<Rightarrow> (conn, unit) io" where
  "SendCancelRequest pid secret =
     Write (put_be32 16 @ put_be32 CancelRequestCode @ put_be32 pid @ put_be32 secret)"

definition SendStartupMessage :: "KV list \<Rightarrow> (conn, unit) io" where
  "SendStartupMessage params = Write (EncodeStartup params)"

definition NegotiateUpstreamTLS :: "'c env \<Rightarrow> string \<Rightarrow> (conn, conn) io" where
  "NegotiateUpstreamTLS env serverName =
     bindIO (wrapIO ''send SSLRequest: %w'' SendSSLRequest) (\<lambda>_.
     bindIO (wrapIO ''read SSLRequest response: %w'' (ReadFull 1)) (\<lambda>resp.
       if resp ! 0 = CHR ''S'' then
         (\<lambda>c. wrapIO ''upstream TLS handshake: %w'' (liftIO (env_tls env serverName c)) c)
       else if resp ! 0 = CHR ''N''
       then errIO (Errorf ''upstream does not support SSL but sslmode=require'' [])
       else errIO (Errorf ''unexpected SSLRequest response byte %q'' [AByte (resp ! 0)])))"

section \<open>SCRAM\<close>

function hasMechanism_loop :: "bytes \<Rightarrow> string \<Rightarrow> nat \<Rightarrow> nat \<Rightarrow> bool" where
  "hasMechanism_loop d name i start =
     (if i < length d then
        if d ! i = NUL then
          if take (i - start) (drop start d) = name then True
          else hasMechanism_loop d name (i + 1) (i + 1)
        else hasMechanism_loop d name (i + 1) start
      else False)"
  by pat_completeness auto

termination hasMechanism_loop
  by (relation "measure (\<lambda>(d, name, i, start). length d - i)") auto

declare hasMechanism_loop.simps [simp del]

definition hasMechanism :: "bytes \<Rightarrow> string \<Rightarrow> bool" where
  "hasMechanism d name = hasMechanism_loop d name 0 0"

definition read_auth :: "string \<Rightarrow> string \<Rightarrow> u32 \<Rightarrow> string \<Rightarrow> (conn, bytes) io" where
  "read_auth readf typef want codef =
     bindIO (wrapIO readf ReadMessage) (\<lambda>(ty, body).
       if ty \<noteq> CHR ''R'' then errIO (Errorf typef [AByte ty])
       else bindIO (liftIO (ParseAuthenticationMessage body)) (\<lambda>(code, d).
         if code \<noteq> want then errIO (Errorf codef [AInt (sint code)]) else retIO d))"

definition readSASLContinue :: "(conn, string) io" where
  "readSASLContinue =
     read_auth ''read SASLContinue: %w'' ''expected 'R' for SASLContinue, got %c''
       AuthSASLContinue ''expected AuthSASLContinue (11), got %d''"

definition readSASLFinal :: "(conn, string) io" where
  "readSASLFinal =
     read_auth ''read SASLFinal: %w'' ''expected 'R' for SASLFinal, got %c''
       AuthSASLFinal ''expected AuthSASLFinal (12), got %d''"

text \<open>\<open>conv.Step\<close>: the conversation after the step is used even when it fails.\<close>

definition scram_step :: "'c env \<Rightarrow> string \<Rightarrow> 'c \<Rightarrow> string \<Rightarrow> (conn, string \<times> 'c) io" where
  "scram_step env errf conv msg =
     (case env_scram_step env conv msg of
        (Ok out, conv') \<Rightarrow> retIO (out, conv')
      | (Err e, _) \<Rightarrow> errIO (Errorf errf [AWrap e])
      | (Panic, _) \<Rightarrow> liftIO Panic)"

definition runSCRAM :: "'c env \<Rightarrow> string \<Rightarrow> string \<Rightarrow> bytes \<Rightarrow> (conn, unit) io" where
  "runSCRAM env user password d =
     (if \<not> hasMechanism d ''SCRAM-SHA-256''
      then errIO (Errorf ''upstream did not advertise SCRAM-SHA-256'' [])
      else
        bindIO (wrapIO ''scram client: %w'' (liftIO (env_scram_new env user password))) (\<lambda>conv0.
        bindIO (scram_step env ''scram client-first: %w'' conv0 []) (\<lambda>(clientFirst, conv1).
        bindIO (wrapIO ''write SASLInitialResponse: %w''
                  (WriteSASLInitialResponse ''SCRAM-SHA-256'' clientFirst)) (\<lambda>_.
        bindIO readSASLContinue (\<lambda>serverFirst.
        bindIO (scram_step env ''scram client-final: %w'' conv1 serverFirst) (\<lambda>(clientFinal, conv2).
        bindIO (wrapIO ''write SASLResponse: %w'' (WriteSASLResponse clientFinal)) (\<lambda>_.
        bindIO readSASLFinal (\<lambda>serverFinal.
        bindIO (scram_step env ''scram verify: %w'' conv2 serverFinal) (\<lambda>(_, conv3).
          if \<not> env_scram_valid env conv3
          then errIO (Errorf ''scram conversation did not complete successfully'' [])
          else bindIO (read_auth ''read AuthenticationOk: %w'' ''expected AuthenticationOk, got %c''
                         AuthOk ''expected AuthenticationOk code 0, got %d'') (\<lambda>_. retIO ()))))))))))"

definition AuthenticateUpstream :: "'c env \<Rightarrow> string \<Rightarrow> string \<Rightarrow> (conn, unit) io" where
  "AuthenticateUpstream env user password =
     bindIO (wrapIO ''read auth message: %w'' ReadMessage) (\<lambda>(ty, body).
       if ty \<noteq> CHR ''R'' then
         (if ty = CHR ''E''
          then bindIO (liftIO (ParseErrorResponse body)) (\<lambda>msg.
                 errIO (Errorf ''upstream rejected connection: %s'' [AStr msg]))
          else errIO (Errorf ''expected Authentication message (R), got %c'' [AByte ty]))
       else bindIO (liftIO (ParseAuthenticationMessage body)) (\<lambda>(code, d).
         if code = AuthOk then retIO ()
         else if code = AuthSASL then runSCRAM env user password d
         else if code = AuthCleartextPassword \<or> code = AuthMD5Password
         then errIO (Errorf ''upstream requires legacy auth (code %d); v1 supports SCRAM-SHA-256 only''
                       [AInt (sint code)])
         else errIO (Errorf ''unsupported upstream auth method (code %d)'' [AInt (sint code)])))"

section \<open>The mechanism list\<close>

lemma hasMechanism_segment:
  assumes "d = p @ m @ NUL # q" and "NUL \<notin> set m" and "k \<le> length m"
  shows "hasMechanism_loop d name (length p + k) (length p) =
     (m = name \<or> hasMechanism_loop d name (length (p @ m @ [NUL])) (length (p @ m @ [NUL])))"
  using assms(3)
proof (induction "length m - k" arbitrary: k)
  case 0
  then have "k = length m" by simp
  then show ?case by (subst hasMechanism_loop.simps) (simp add: assms(1))
next
  case (Suc n)
  then have k: "k < length m" by simp
  with assms(1,2) have "d ! (length p + k) \<noteq> NUL"
    by (auto simp: nth_append dest: nth_mem)
  moreover have "length p + k < length d" using assms(1) k by simp
  ultimately show ?case using Suc.hyps(1) [of "Suc k"] Suc.hyps(2) k
    by (subst hasMechanism_loop.simps) simp
qed

lemma hasMechanism_tail:
  assumes "NUL \<notin> set (drop i d)"
  shows "\<not> hasMechanism_loop d name i start"
  using assms
proof (induction "length d - i" arbitrary: i)
  case 0
  then show ?case by (subst hasMechanism_loop.simps) simp
next
  case (Suc n)
  then have i: "i < length d" by simp
  with Suc.prems have "d ! i \<noteq> NUL" by (metis Cons_nth_drop_Suc list.set_intros(1))
  moreover have "NUL \<notin> set (drop (Suc i) d)" using Suc.prems by (meson in_set_dropD set_drop_subset_set_drop subsetD le_SucI order_refl)
  ultimately show ?case using Suc.hyps(1) [of "Suc i"] Suc.hyps(2) i
    by (subst hasMechanism_loop.simps) simp
qed

lemma hasMechanism_iff:
  assumes "list_all (\<lambda>m. NUL \<notin> set m) ms" and "NUL \<notin> set tail"
  shows "hasMechanism (concat (map (\<lambda>m. m @ [NUL]) ms) @ tail) name \<longleftrightarrow> name \<in> set ms"
proof -
  have "hasMechanism_loop d name (length p) (length p) \<longleftrightarrow> name \<in> set ms"
    if "d = p @ concat (map (\<lambda>m. m @ [NUL]) ms) @ tail" for d p
    using assms(1) that
  proof (induction ms arbitrary: p)
    case Nil
    then show ?case using assms(2) by (simp add: hasMechanism_tail)
  next
    case (Cons m ms)
    let ?q = "concat (map (\<lambda>m. m @ [NUL]) ms) @ tail"
    have d: "d = p @ m @ NUL # ?q" and d2: "d = (p @ m @ [NUL]) @ ?q" using Cons.prems(2) by simp_all
    from Cons.IH [OF _ d2] Cons.prems(1) hasMechanism_segment [OF d, of 0 name] show ?case by auto
  qed
  from this [of _ "[]"] show ?thesis by (simp add: hasMechanism_def)
qed

section \<open>What a login reads\<close>

definition auth_msg :: "u32 \<Rightarrow> bytes \<Rightarrow> bytes" where
  "auth_msg code d = pg_frame (CHR ''R'', put_be32 code @ d)"

lemma ParseAuthenticationMessage_encode [simp]:
  "ParseAuthenticationMessage (put_be32 code @ d) = Ok (code, d)"
  by (simp add: ParseAuthenticationMessage_def slice_def)

lemma ParseAuthenticationMessage_OkD:
  assumes "ParseAuthenticationMessage body = Ok (code, d)"
  shows "body = put_be32 code @ d"
proof -
  from assms have "4 \<le> length body" "code = be_uint32 (take 4 body)" "d = drop 4 body"
    by (auto simp: ParseAuthenticationMessage_def slice_def split: if_splits)
  then show ?thesis by (simp add: put_get32)
qed

lemma ReadMessage_auth_msg:
  assumes "\<not> cclosed c" and "cin c = auth_msg code d @ rest" and "length d + 4 \<le> MaxStartupLen"
  shows "ReadMessage c = (Ok (CHR ''R'', put_be32 code @ d), c\<lparr>cin := rest\<rparr>)"
  using assms by (intro ReadMessage_frame) (simp_all add: auth_msg_def pg_valid_def)

lemma read_auth_Ok:
  assumes "\<not> cclosed c" and "cin c = auth_msg want d @ rest" and "length d + 4 \<le> MaxStartupLen"
  shows "read_auth f1 f2 want f3 c = (Ok d, c\<lparr>cin := rest\<rparr>)"
  using ReadMessage_auth_msg [OF assms] by (simp add: read_auth_def)

lemma read_auth_OkD:
  assumes "read_auth f1 f2 want f3 c = (Ok d, c')"
  shows "cin c = auth_msg want d @ cin c' \<and> c' = c\<lparr>cin := cin c'\<rparr>"
proof -
  from assms obtain ty body c1 where m: "ReadMessage c = (Ok (ty, body), c1)" and ty: "ty = CHR ''R''"
    and p: "ParseAuthenticationMessage body = Ok (want, d)" and c1: "c' = c1"
    by (auto simp: read_auth_def bindIO_eq_Ok_iff wrapIO_eq_Ok_iff split: if_splits prod.splits)
  from ReadMessage_OkD [OF m] ParseAuthenticationMessage_OkD [OF p] ty c1 show ?thesis
    by (simp add: auth_msg_def)
qed


section \<open>Login\<close>

lemma scram_step_Ok_iff:
  "scram_step env f k m c = (Ok (out, k'), c') \<longleftrightarrow> env_scram_step env k m = (Ok out, k') \<and> c' = c"
  by (auto simp: scram_step_def split: prod.splits res.splits)

text \<open>The conversation that \<open>runSCRAM\<close> has with a server, and the messages the proxy sends in it.\<close>

definition scram_run :: "'c env \<Rightarrow> string \<Rightarrow> string \<Rightarrow> string \<Rightarrow> string \<Rightarrow> string \<Rightarrow> string \<Rightarrow> bool" where
  "scram_run env user password clientFirst serverFirst clientFinal serverFinal \<longleftrightarrow>
     (\<exists>k0 k1 k2 k3 out. env_scram_new env user password = Ok k0
        \<and> env_scram_step env k0 [] = (Ok clientFirst, k1)
        \<and> env_scram_step env k1 serverFirst = (Ok clientFinal, k2)
        \<and> env_scram_step env k2 serverFinal = (Ok out, k3) \<and> env_scram_valid env k3)"

definition sasl_initial :: "string \<Rightarrow> bytes" where
  "sasl_initial d = pg_frame (CHR ''p'', ''SCRAM-SHA-256'' @ [NUL] @ put_be32 (word_of_nat (length d)) @ d)"

definition sasl_response :: "string \<Rightarrow> bytes" where
  "sasl_response d = pg_frame (CHR ''p'', d)"

lemma runSCRAM_OkD:
  assumes "runSCRAM env user password mechs c = (Ok (), c')"
  shows "\<exists>cf sf cl sv x. hasMechanism mechs ''SCRAM-SHA-256'' \<and> scram_run env user password cf sf cl sv
     \<and> cin c = auth_msg AuthSASLContinue sf @ auth_msg AuthSASLFinal sv @ auth_msg AuthOk x @ cin c'
     \<and> cout c' = cout c @ sasl_initial cf @ sasl_response cl"
proof -
  from assms obtain k0 cf k1 c1 sf c2 cl k2 c3 sv c4 out k3 x where
    h: "hasMechanism mechs ''SCRAM-SHA-256''" "env_scram_new env user password = Ok k0"
      "env_scram_step env k0 [] = (Ok cf, k1)"
      "env_scram_step env k1 sf = (Ok cl, k2)" "env_scram_step env k2 sv = (Ok out, k3)"
      "env_scram_valid env k3"
    and w: "WriteSASLInitialResponse ''SCRAM-SHA-256'' cf c = (Ok (), c1)"
      "readSASLContinue c1 = (Ok sf, c2)" "WriteSASLResponse cl c2 = (Ok (), c3)"
      "readSASLFinal c3 = (Ok sv, c4)"
      "read_auth ''read AuthenticationOk: %w'' ''expected AuthenticationOk, got %c''
         AuthOk ''expected AuthenticationOk code 0, got %d'' c4 = (Ok x, c')"
    by (clarsimp simp: runSCRAM_def bindIO_eq_Ok_iff wrapIO_eq_Ok_iff scram_step_Ok_iff split: if_splits)
  have c1: "c1 = wrote (sasl_initial cf) c" and c3: "c3 = wrote (sasl_response cl) c2"
    using w(1,3) by (auto simp: WriteSASLInitialResponse_def WriteSASLResponse_def WriteMessage_Ok_iff
        sasl_initial_def sasl_response_def)
  note r2 = read_auth_OkD [OF w(2) [unfolded readSASLContinue_def]]
    and r4 = read_auth_OkD [OF w(4) [unfolded readSASLFinal_def]] and r5 = read_auth_OkD [OF w(5)]
  have "cin c = auth_msg AuthSASLContinue sf @ auth_msg AuthSASLFinal sv @ auth_msg AuthOk x @ cin c'"
    using c1 c3 r2 r4 r5 by simp
  moreover have "cout c2 = cout c1" "cout c' = cout c3"
    using r2 r4 r5 by (auto dest: read_only_cout)
  then have "cout c' = cout c @ sasl_initial cf @ sasl_response cl" using c1 c3 by simp
  moreover have "scram_run env user password cf sf cl sv" using h unfolding scram_run_def by blast
  ultimately show ?thesis using h(1) by blast
qed

lemma AuthenticateUpstream_OkD:
  assumes "AuthenticateUpstream env user password c = (Ok (), c')"
  shows "(\<exists>x. cin c = auth_msg AuthOk x @ cin c' \<and> cout c' = cout c)
     \<or> (\<exists>mechs cf sf cl sv x. hasMechanism mechs ''SCRAM-SHA-256'' \<and> scram_run env user password cf sf cl sv
          \<and> cin c = auth_msg AuthSASL mechs @ auth_msg AuthSASLContinue sf @ auth_msg AuthSASLFinal sv
                      @ auth_msg AuthOk x @ cin c'
          \<and> cout c' = cout c @ sasl_initial cf @ sasl_response cl)"
proof -
  obtain ty body c1 where m0: "ReadMessage c = (Ok (ty, body), c1)"
    using assms unfolding AuthenticateUpstream_def bindIO_eq_Ok_iff wrapIO_eq_Ok_iff by auto
  have ty: "ty = CHR ''R''"
  proof (rule ccontr)
    assume "ty \<noteq> CHR ''R''"
    with assms m0 show False by (simp add: AuthenticateUpstream_def bindIO_eq_Ok_iff split: if_splits)
  qed
  note m = m0 [unfolded ty]
  obtain code d where p: "ParseAuthenticationMessage body = Ok (code, d)"
    and r: "code = AuthOk \<and> c' = c1 \<or> code = AuthSASL \<and> runSCRAM env user password d c1 = (Ok (), c')"
    using assms m by (auto simp: AuthenticateUpstream_def bindIO_eq_Ok_iff split: if_splits)
  have c: "cin c = auth_msg code d @ cin c1" and "c1 = c\<lparr>cin := cin c1\<rparr>"
    using ReadMessage_OkD [OF m] ParseAuthenticationMessage_OkD [OF p] by (simp_all add: auth_msg_def)
  then have out: "cout c1 = cout c" by (auto dest: read_only_cout)
  from r show ?thesis
  proof (elim disjE conjE)
    assume "code = AuthOk" "c' = c1"
    with c out show ?thesis by (intro disjI1 exI [of _ d]) simp
  next
    assume code: "code = AuthSASL" and run: "runSCRAM env user password d c1 = (Ok (), c')"
    from runSCRAM_OkD [OF run] obtain cf sf cl sv x where
      run: "hasMechanism d ''SCRAM-SHA-256''" "scram_run env user password cf sf cl sv"
      and io: "cin c1 = auth_msg AuthSASLContinue sf @ auth_msg AuthSASLFinal sv @ auth_msg AuthOk x @ cin c'"
      "cout c' = cout c1 @ sasl_initial cf @ sasl_response cl" by blast
    have "cin c = auth_msg AuthSASL d @ auth_msg AuthSASLContinue sf @ auth_msg AuthSASLFinal sv
        @ auth_msg AuthOk x @ cin c'" "cout c' = cout c @ sasl_initial cf @ sasl_response cl"
      by (simp_all only: c code io out)
    with run show ?thesis by blast
  qed
qed

text \<open>C15. Success of the upstream login is justified: the server either required no authentication
  and the proxy sent nothing, or it advertised SCRAM-SHA-256, the proxy sent exactly the two SCRAM
  messages, the conversation verified the server, and \<open>AuthenticationOk\<close> came after that. The proxy
  reads up to \<open>AuthenticationOk\<close> and no further.\<close>

theorem AuthenticateUpstream_sound:
  assumes "AuthenticateUpstream env user password c = (Ok (), c')"
  shows "(\<exists>x. cin c = auth_msg AuthOk x @ cin c' \<and> cout c' = cout c)
     \<or> (\<exists>mechs cf sf cl sv x. hasMechanism mechs ''SCRAM-SHA-256'' \<and> scram_run env user password cf sf cl sv
          \<and> cin c = auth_msg AuthSASL mechs @ auth_msg AuthSASLContinue sf @ auth_msg AuthSASLFinal sv
                      @ auth_msg AuthOk x @ cin c'
          \<and> cout c' = cout c @ sasl_initial cf @ sasl_response cl)"
  using assms by (rule AuthenticateUpstream_OkD)


lemma AuthenticateUpstream_Ok:
  assumes "scram_run env user password cf sf cl sv" and "hasMechanism mechs ''SCRAM-SHA-256''"
    and "\<not> cclosed c" and "ccap c = None"
    and "length mechs + 4 \<le> MaxStartupLen" "length sf + 4 \<le> MaxStartupLen" "length sv + 4 \<le> MaxStartupLen"
    and "cin c = auth_msg AuthSASL mechs @ auth_msg AuthSASLContinue sf @ auth_msg AuthSASLFinal sv
                   @ auth_msg AuthOk [] @ rest"
  shows "AuthenticateUpstream env user password c =
     (Ok (), c\<lparr>cin := rest, cout := cout c @ sasl_initial cf @ sasl_response cl\<rparr>)"
proof -
  let ?r2 = "auth_msg AuthSASLFinal sv @ auth_msg AuthOk [] @ rest"
  let ?r1 = "auth_msg AuthSASLContinue sf @ ?r2"
  from assms(1) obtain k0 k1 k2 k3 out where k: "env_scram_new env user password = Ok k0"
    "env_scram_step env k0 [] = (Ok cf, k1)" "env_scram_step env k1 sf = (Ok cl, k2)"
    "env_scram_step env k2 sv = (Ok out, k3)" "env_scram_valid env k3"
    unfolding scram_run_def by blast
  let ?c1 = "wrote (sasl_initial cf) (c\<lparr>cin := ?r1\<rparr>)"
  let ?c2 = "?c1\<lparr>cin := ?r2\<rparr>" let ?c3 = "wrote (sasl_response cl) ?c2"
  let ?c4 = "?c3\<lparr>cin := auth_msg AuthOk [] @ rest\<rparr>"
  have can: "can_write n c'" if "\<not> cclosed c'" "ccap c' = None" for n c'
    using that by (simp add: can_write_def)
  have first: "ReadMessage c = (Ok (CHR ''R'', put_be32 AuthSASL @ mechs), c\<lparr>cin := ?r1\<rparr>)"
    using assms by (intro ReadMessage_auth_msg) auto
  have w1: "WriteSASLInitialResponse ''SCRAM-SHA-256'' cf (c\<lparr>cin := ?r1\<rparr>) = (Ok (), ?c1)"
    using assms(3,4) by (simp add: WriteSASLInitialResponse_def sasl_initial_def can)
  have r1: "readSASLContinue ?c1 = (Ok sf, ?c2)"
    unfolding readSASLContinue_def by (rule read_auth_Ok) (use assms(3,6) in auto)
  have w2: "WriteSASLResponse cl ?c2 = (Ok (), ?c3)"
    using assms(3,4) by (simp add: WriteSASLResponse_def sasl_response_def can wrote_def)
  have r2: "readSASLFinal ?c3 = (Ok sv, ?c4)"
    unfolding readSASLFinal_def by (rule read_auth_Ok) (use assms(3,7) in auto)
  have r3: "read_auth f1 f2 AuthOk f3 ?c4 = (Ok [], ?c4\<lparr>cin := rest\<rparr>)" for f1 f2 f3
    by (rule read_auth_Ok) (use assms(3) in \<open>auto simp: MaxStartupLen_def\<close>)
  have "runSCRAM env user password mechs (c\<lparr>cin := ?r1\<rparr>) = (Ok (), ?c4\<lparr>cin := rest\<rparr>)"
    by (simp add: runSCRAM_def assms(2) k scram_step_def w1 r1 w2 r2 r3)
  moreover have "?c4\<lparr>cin := rest\<rparr> = c\<lparr>cin := rest, cout := cout c @ sasl_initial cf @ sasl_response cl\<rparr>"
    using assms(4) by (simp add: wrote_def)
  ultimately show ?thesis
    by (simp add: AuthenticateUpstream_def first AuthSASL_def AuthOk_def)
qed

text \<open>Against a server that follows the protocol and a SCRAM conversation that accepts its
  messages, the login succeeds, having sent the two SCRAM messages and left the stream right after
  \<open>AuthenticationOk\<close>.\<close>

theorem AuthenticateUpstream_complete:
  assumes "scram_run env user password cf sf cl sv" and "hasMechanism mechs ''SCRAM-SHA-256''"
    and "\<not> cclosed c" and "ccap c = None"
    and "length mechs + 4 \<le> MaxStartupLen" "length sf + 4 \<le> MaxStartupLen" "length sv + 4 \<le> MaxStartupLen"
    and "cin c = auth_msg AuthSASL mechs @ auth_msg AuthSASLContinue sf @ auth_msg AuthSASLFinal sv
                   @ auth_msg AuthOk [] @ rest"
  shows "AuthenticateUpstream env user password c =
     (Ok (), c\<lparr>cin := rest, cout := cout c @ sasl_initial cf @ sasl_response cl\<rparr>)"
  using assms by (rule AuthenticateUpstream_Ok)

text \<open>A world for examples: SCRAM accepts a fixed exchange, and every other service works.\<close>

definition sample_env :: "nat env" where
  "sample_env =
     \<lparr>env_isPrint = (\<lambda>_. True), env_dial = (\<lambda>_. Err (SysErr ''connection refused'')),
      env_tls = (\<lambda>_ c. Ok c), env_scram_new = (\<lambda>u p. Ok 0),
      env_scram_step = (\<lambda>k m. if m = (if k = 0 then [] else if k = 1 then ''r=nonce'' else ''v=sig'')
                                then (Ok ''client'', Suc k) else (Err (SysErr ''scram''), k)),
      env_scram_valid = (\<lambda>k. k = 3), env_rand = (\<lambda>n. Ok (replicate n (CHR 0x07))),
      env_pem_decode = (\<lambda>b. Some b), env_parse_pkix = (\<lambda>b. Ok (RSAKey b)), env_oaep = (\<lambda>k m. Ok m),
      env_f2i = (\<lambda>_. 0), env_now = (\<lambda>_. 0), env_toLower = (\<lambda>r. r), env_remote = ''127.0.0.1:50000'', env_goos = ''linux'',
      env_buffered = 0, env_copy = (0, 0)\<rparr>"

definition sample_upstream :: conn where
  "sample_upstream =
     fresh_conn (auth_msg AuthSASL (''SCRAM-SHA-256'' @ [NUL, NUL]) @ auth_msg AuthSASLContinue ''r=nonce''
       @ auth_msg AuthSASLFinal ''v=sig'' @ auth_msg AuthOk [] @ ''Z'')"

lemma sample_scram_run: "scram_run sample_env user password ''client'' ''r=nonce'' ''client'' ''v=sig''"
  unfolding scram_run_def
  by (intro exI [of _ 0] exI [of _ 1] exI [of _ 2] exI [of _ 3] exI [of _ "''client''"])
    (simp add: sample_env_def)

lemma sample_upstream_login:
  shows "hasMechanism (''SCRAM-SHA-256'' @ [NUL, NUL]) ''SCRAM-SHA-256''"
    and "\<not> cclosed sample_upstream" and "ccap sample_upstream = None"
    and "length (''SCRAM-SHA-256'' @ [NUL, NUL]) + 4 \<le> MaxStartupLen"
    and "length ''r=nonce'' + 4 \<le> MaxStartupLen" and "length ''v=sig'' + 4 \<le> MaxStartupLen"
    and "cin sample_upstream = auth_msg AuthSASL (''SCRAM-SHA-256'' @ [NUL, NUL])
       @ auth_msg AuthSASLContinue ''r=nonce'' @ auth_msg AuthSASLFinal ''v=sig'' @ auth_msg AuthOk [] @ ''Z''"
  using hasMechanism_iff [of "[''SCRAM-SHA-256'', []]" "[]" "''SCRAM-SHA-256''"]
  by (simp_all add: sample_upstream_def fresh_conn_def MaxStartupLen_def)

theorem AuthenticateUpstream_complete_witness:
  "fst (AuthenticateUpstream sample_env ''pg'' ''pw'' sample_upstream) = Ok ()
   \<and> cin (snd (AuthenticateUpstream sample_env ''pg'' ''pw'' sample_upstream)) = ''Z''"
  using AuthenticateUpstream_complete [OF sample_scram_run sample_upstream_login, of "''pg''" "''pw''"] by simp

theorem AuthenticateUpstream_sound_witness:
  "\<exists>c' mechs cf sf cl sv x. AuthenticateUpstream sample_env ''pg'' ''pw'' sample_upstream = (Ok (), c')
     \<and> scram_run sample_env ''pg'' ''pw'' cf sf cl sv
     \<and> cin sample_upstream = auth_msg AuthSASL mechs @ auth_msg AuthSASLContinue sf
         @ auth_msg AuthSASLFinal sv @ auth_msg AuthOk x @ cin c'
     \<and> cout c' = sasl_initial cf @ sasl_response cl"
proof -
  obtain c' where ok: "AuthenticateUpstream sample_env ''pg'' ''pw'' sample_upstream = (Ok (), c')"
    and ne: "cout c' \<noteq> cout sample_upstream"
    using AuthenticateUpstream_Ok [OF sample_scram_run sample_upstream_login, of "''pg''" "''pw''"]
    by (simp add: sasl_initial_def pg_frame_def msg_header_def)
  have out: "cout sample_upstream = []" by (simp add: sample_upstream_def fresh_conn_def)
  show ?thesis
    using AuthenticateUpstream_sound [OF ok] ne ok unfolding out append_Nil by blast
qed

end
