(* ===== verification/PgServer.thy ===== *)
theory PgServer
  imports Handler PgAuth
begin

text \<open>
  The PostgreSQL leg of \<open>internal/proxy/server.go\<close>: \<open>dispatch\<close> with its preamble loop, and
  \<open>handleStartup\<close>, which routes by the database name, logs in to the upstream with the target's
  credentials and only then tells the client that it is authenticated. Logging is not modelled.
\<close>

section \<open>The upstream's startup message\<close>

definition upstream_params :: "KV list \<Rightarrow> ResolvedTarget \<Rightarrow> KV list" where
  "upstream_params params rt =
     \<lparr>kv_K = ''user'', kv_V = rt_User rt\<rparr>
       # (if rt_Database rt \<noteq> [] then [\<lparr>kv_K = ''database'', kv_V = rt_Database rt\<rparr>]
          else if LookupParam params ''database'' \<noteq> []
          then [\<lparr>kv_K = ''database'', kv_V = LookupParam params ''database''\<rparr>]
          else [])
       @ filter (\<lambda>kv. \<not> (kv_K kv = ''user'' \<or> kv_K kv = ''database'')) params"

definition EncodeStartupForTarget :: "KV list \<Rightarrow> ResolvedTarget \<Rightarrow> bytes" where
  "EncodeStartupForTarget params rt = EncodeStartup (upstream_params params rt)"

section \<open>handleStartup\<close>

text \<open>\<open>_ = WriteErrorResponse(client, "FATAL", ...)\<close>.\<close>

definition reject :: "string \<Rightarrow> string \<Rightarrow> (hstate, unit) io" where
  "reject sqlstate msg = tryIO (on_client (WriteErrorResponse ''FATAL'' sqlstate msg))"

text \<open>The same, then \<open>up.Close(); return err\<close>.\<close>

definition reject_up :: "string \<Rightarrow> string \<Rightarrow> go_err \<Rightarrow> (hstate, unit) io" where
  "reject_up sqlstate msg e =
     bindIO (reject sqlstate msg) (\<lambda>_. bindIO close_up (\<lambda>_. errIO e))"

definition startup_dbname :: "KV list \<Rightarrow> string" where
  "startup_dbname params =
     (let d = LookupParam params ''database'' in if d = [] then LookupParam params ''user'' else d)"

definition upgrade_tls :: "'c env \<Rightarrow> ResolvedTarget \<Rightarrow> (hstate, unit) io" where
  "upgrade_tls env rt =
     (if rt_SSLMode rt = SSLModeRequire
      then catchIO (on_up (NegotiateUpstreamTLS env (rt_Host rt)))
             (\<lambda>e. reject_up ''08006'' (Sprintf (env_isPrint env) ''upstream TLS failed: %v'' [AErr e]) e)
             set_up
      else retIO ())"

definition flush_buffered :: "'c env \<Rightarrow> (hstate, unit) io" where
  "flush_buffered env s =
     (let n = min (env_buffered env) (length (cin (h_client s))); buf = take n (cin (h_client s)) in
      if n > 0
      then catchIO (on_up (Write buf)) (\<lambda>e. bindIO close_up (\<lambda>_. errIO e))
             (\<lambda>_ s'. (Ok (), s'\<lparr>h_client := (h_client s')\<lparr>cin := drop n (cin (h_client s'))\<rparr>\<rparr>)) s
      else (Ok (), s))"

text \<open>From a successful lookup up to and including \<open>Register\<close>.\<close>

definition connect_upstream ::
  "'c env \<Rightarrow> KV list \<Rightarrow> string \<Rightarrow> ResolvedTarget \<Rightarrow> (hstate, unit) io" where
  "connect_upstream env params n rt =
     catchIO (dial_up env (upstream_addr rt))
       (\<lambda>e. bindIO (reject ''08006'' (Sprintf (env_isPrint env) ''upstream dial failed: %v'' [AErr e]))
               (\<lambda>_. errIO e))
       (\<lambda>_.
     bindIO (upgrade_tls env rt) (\<lambda>_.
     catchIO (on_up (Write (EncodeStartupForTarget params rt)))
       (\<lambda>e. reject_up ''08006'' ''upstream write failed'' e)
       (\<lambda>_.
     catchIO (on_up (AuthenticateUpstream env (rt_User rt) (rt_Password rt)))
       (\<lambda>e. reject_up ''28P01'' (Sprintf (env_isPrint env) ''upstream auth failed: %v'' [AErr e]) e)
       (\<lambda>_.
     catchIO (on_client WriteAuthenticationOk)
       (\<lambda>e. bindIO close_up (\<lambda>_. errIO (Errorf ''write AuthenticationOk to client: %w'' [AWrap e])))
       (\<lambda>_.
     bindIO (flush_buffered env) (\<lambda>_. attach n rt))))))"

definition route :: "'c env \<Rightarrow> KV list \<Rightarrow> (hstate, unit) io" where
  "route env params s =
     (let dbname = startup_dbname params in
      case lookupDatabase (h_srv s) AdapterPostgres dbname of
        None \<Rightarrow> reject ''3D000'' (Sprintf (env_isPrint env) ''database %q not configured'' [AStr dbname]) s
      | Some n \<Rightarrow>
          (case Current n (srv_store (h_srv s)) of
             None \<Rightarrow> reject ''57P03''
                       (Sprintf (env_isPrint env) ''database %q has no active target'' [AStr dbname]) s
           | Some rt \<Rightarrow> bindIO (connect_upstream env params n rt) (\<lambda>_. relay env) s))"

definition handleStartup :: "'c env \<Rightarrow> nat \<Rightarrow> (hstate, unit) io" where
  "handleStartup env msgLen =
     bindIO (wrapIO ''read startup body: %w'' (on_client (ReadFull (msgLen - 8)))) (\<lambda>body.
     bindIO (liftIO (ParseStartupBody body)) (route env))"

section \<open>dispatch\<close>

text \<open>\<open>io.CopyN(io.Discard, br, n)\<close>.\<close>

definition CopyN_discard :: "nat \<Rightarrow> (conn, unit) io" where
  "CopyN_discard n c =
     (if n = 0 then (Ok (), c)
      else if cclosed c then (Err (SysErr ''use of closed network connection''), c)
      else if n \<le> length (cin c) then (Ok (), c\<lparr>cin := drop n (cin c)\<rparr>)
      else (Err (cend c), c\<lparr>cin := []\<rparr>))"

fun dispatch_loop :: "'c env \<Rightarrow> nat \<Rightarrow> (hstate, unit) io" where
  "dispatch_loop env 0 = errIO (Errorf ''client did not send StartupMessage after preamble'' [])"
| "dispatch_loop env (Suc attempts) =
     bindIO (wrapIO ''read length: %w'' (on_client ReadUint32)) (\<lambda>msgLen.
       if unat msgLen < 8 \<or> unat msgLen > MaxStartupLen
       then errIO (Errorf ''startup length out of range: %d'' [AInt (uint msgLen)])
       else
     bindIO (wrapIO ''read code: %w'' (on_client ReadUint32)) (\<lambda>code.
       if code = SSLRequestCode \<or> code = GSSENCRequestCode then
         bindIO (wrapIO ''write SSL/GSS rejection: %w'' (on_client (Write ''N''))) (\<lambda>_.
           dispatch_loop env attempts)
       else if code = CancelRequestCode then on_client (CopyN_discard (unat msgLen - 8))
       else if code = ProtocolV3 then handleStartup env (unat msgLen)
       else errIO (Errorf ''unsupported pg protocol code 0x%08x'' [AInt (uint code)])))"

definition dispatch :: "'c env \<Rightarrow> (hstate, unit) io" where
  "dispatch env = dispatch_loop env 2"

section \<open>What the upstream is told\<close>

lemma LookupParam_ok: "list_all param_ok ps \<Longrightarrow> NUL \<notin> set (LookupParam ps k)"
  by (induction ps) (auto simp: param_ok_def)

lemma LookupParam_append:
  "LookupParam (ps @ qs) k = (if k \<in> set (map kv_K ps) then LookupParam ps k else LookupParam qs k)"
  by (induction ps) auto

lemma LookupParam_filtered: "k \<notin> set (map kv_K ps) \<Longrightarrow> LookupParam ps k = []"
  by (induction ps) auto

lemma upstream_params_ok:
  assumes "list_all param_ok ps" and "NUL \<notin> set (rt_User rt)" and "NUL \<notin> set (rt_Database rt)"
  shows "list_all param_ok (upstream_params ps rt)"
proof -
  have "list_all param_ok (filter P ps)" for P using assms(1) by (induction ps) auto
  then show ?thesis
    using assms LookupParam_ok [OF assms(1)] by (simp add: upstream_params_def param_ok_def)
qed

text \<open>C35. The upstream's startup message carries the target's user, the target's database or, if the
  target leaves it empty, the client's, and every other parameter of the client unchanged and in
  order; the client's own user never reaches the upstream.\<close>

theorem EncodeStartupForTarget_params:
  assumes "ParseStartupBody body = Ok ps" and "NUL \<notin> set (rt_User rt)" and "NUL \<notin> set (rt_Database rt)"
  shows "\<exists>qs. ParseStartupBody (drop 8 (EncodeStartupForTarget ps rt)) = Ok qs
     \<and> LookupParam qs ''user'' = rt_User rt
     \<and> LookupParam qs ''database'' =
         (if rt_Database rt \<noteq> [] then rt_Database rt else LookupParam ps ''database'')
     \<and> filter (\<lambda>kv. kv_K kv \<notin> {''user'', ''database''}) qs = filter (\<lambda>kv. kv_K kv \<notin> {''user'', ''database''}) ps
     \<and> count_list (map kv_K qs) ''user'' = 1"
proof -
  let ?qs = "upstream_params ps rt"
  have ok: "list_all param_ok ps" using assms(1) by (simp add: ParseStartupBody_Ok_iff)
  have p: "ParseStartupBody (drop 8 (EncodeStartupForTarget ps rt)) = Ok ?qs"
    using upstream_params_ok [OF ok assms(2,3)]
    by (simp add: EncodeStartupForTarget_def EncodeStartup_frame ParseStartupBody_Ok_iff)
  have "LookupParam (filter (\<lambda>kv. \<not> (kv_K kv = ''user'' \<or> kv_K kv = ''database'')) ps) ''database'' = []"
    by (rule LookupParam_filtered) auto
  then have "LookupParam ?qs ''database'' =
      (if rt_Database rt \<noteq> [] then rt_Database rt else LookupParam ps ''database'')"
    by (simp add: upstream_params_def)
  moreover have "count_list (map kv_K (filter (\<lambda>kv. \<not> (kv_K kv = ''user'' \<or> kv_K kv = ''database'')) ps)) ''user'' = 0"
    by (induction ps) auto
  then have "count_list (map kv_K ?qs) ''user'' = 1" by (simp add: upstream_params_def)
  moreover have "LookupParam ?qs ''user'' = rt_User rt" by (simp add: upstream_params_def)
  moreover have "filter (\<lambda>kv. kv_K kv \<notin> {''user'', ''database''}) ?qs
      = filter (\<lambda>kv. kv_K kv \<notin> {''user'', ''database''}) ps"
    by (simp add: upstream_params_def)
  ultimately show ?thesis using p by blast
qed

definition sample_params :: "KV list" where
  "sample_params = [\<lparr>kv_K = ''user'', kv_V = ''dev''\<rparr>, \<lparr>kv_K = ''database'', kv_V = ''appdb''\<rparr>,
     \<lparr>kv_K = ''client_encoding'', kv_V = ''UTF8''\<rparr>]"

lemma sample_params_parse: "ParseStartupBody (startup_params sample_params) = Ok sample_params"
  by (simp add: ParseStartupBody_Ok_iff) (simp add: sample_params_def param_ok_def)

theorem EncodeStartupForTarget_params_witness:
  "\<exists>qs. ParseStartupBody (drop 8 (EncodeStartupForTarget sample_params sample_rt)) = Ok qs
     \<and> LookupParam qs ''user'' = ''pg'' \<and> LookupParam qs ''database'' = ''app_dev''"
proof -
  have "NUL \<notin> set (rt_User sample_rt)" "NUL \<notin> set (rt_Database sample_rt)"
    by (simp_all add: sample_rt_def)
  from EncodeStartupForTarget_params [OF sample_params_parse this] show ?thesis
    by (auto simp: sample_rt_def)
qed


section \<open>The preamble\<close>

lemma ReadUint32_Ok: "\<not> cclosed c \<Longrightarrow> cin c = put_be32 w @ rest \<Longrightarrow> ReadUint32 c = (Ok w, c\<lparr>cin := rest\<rparr>)"
  by (simp add: ReadUint32_def)

lemma dispatch_startup:
  assumes "\<not> cclosed (h_client s)" and "cin (h_client s) = EncodeStartup ps @ rest"
    and "list_all param_ok ps" and "8 + length (startup_params ps) \<le> MaxStartupLen"
  shows "dispatch_loop env (Suc k) s = route env ps (s\<lparr>h_client := (h_client s)\<lparr>cin := rest\<rparr>\<rparr>)"
proof -
  let ?c = "h_client s" and ?n = "8 + length (startup_params ps)"
  let ?w = "word_of_nat ?n :: u32"
  have n: "unat ?w = ?n" using assms(4) by (intro unat_word_small) (simp add: MaxStartupLen_def)
  have c: "cin ?c = put_be32 ?w @ put_be32 ProtocolV3 @ startup_params ps @ rest"
    using assms(2) by (simp only: EncodeStartup_frame append_assoc)
  let ?c1 = "?c\<lparr>cin := put_be32 ProtocolV3 @ startup_params ps @ rest\<rparr>"
  let ?c2 = "?c\<lparr>cin := startup_params ps @ rest\<rparr>"
  have r1: "ReadUint32 ?c = (Ok ?w, ?c1)" using assms(1) c by (rule ReadUint32_Ok)
  have r2: "ReadUint32 ?c1 = (Ok ProtocolV3, ?c2)" using assms(1) by (subst ReadUint32_Ok) auto
  have r3: "ReadFull (?n - 8) ?c2 = (Ok (startup_params ps), ?c\<lparr>cin := rest\<rparr>)"
    using assms(1) by (subst ReadFull_append) auto
  have "ParseStartupBody (startup_params ps) = Ok ps" using assms(3) by (simp add: ParseStartupBody_Ok_iff)
  then have h: "handleStartup env ?n (s\<lparr>h_client := ?c2\<rparr>) = route env ps (s\<lparr>h_client := ?c\<lparr>cin := rest\<rparr>\<rparr>)"
    by (simp add: handleStartup_def r3 [simplified])
  have codes: "ProtocolV3 \<noteq> SSLRequestCode" "ProtocolV3 \<noteq> GSSENCRequestCode" "ProtocolV3 \<noteq> CancelRequestCode"
    by (simp_all add: ProtocolV3_def SSLRequestCode_def GSSENCRequestCode_def CancelRequestCode_def)
  show ?thesis using h assms(4) unfolding dispatch_loop.simps
    by (simp add: r1 r2 n codes del: of_nat_add)
qed

lemma dispatch_preamble:
  assumes "\<not> cclosed (h_client s)" and "can_write 1 (h_client s)"
    and "cin (h_client s) = put_be32 8 @ put_be32 code @ rest"
    and "code = SSLRequestCode \<or> code = GSSENCRequestCode"
  shows "dispatch_loop env (Suc k) s =
     dispatch_loop env k (s\<lparr>h_client := wrote ''N'' ((h_client s)\<lparr>cin := rest\<rparr>)\<rparr>)"
proof -
  let ?c = "h_client s"
  have r1: "ReadUint32 ?c = (Ok 8, ?c\<lparr>cin := put_be32 code @ rest\<rparr>)" using assms(1,3) by (rule ReadUint32_Ok)
  have r2: "ReadUint32 (?c\<lparr>cin := put_be32 code @ rest\<rparr>) = (Ok code, ?c\<lparr>cin := rest\<rparr>)"
    using assms(1) by (subst ReadUint32_Ok) auto
  have w: "Write ''N'' (?c\<lparr>cin := rest\<rparr>) = (Ok (), wrote ''N'' (?c\<lparr>cin := rest\<rparr>))"
    using assms(2) by (intro Write_Ok) (simp add: can_write_def)
  show ?thesis using assms(4) by (simp add: r1 r2 w MaxStartupLen_def)
qed

text \<open>A client that first asks for GSSAPI encryption and then for TLS is turned away: both requests
  are answered \<open>N\<close> as the protocol requires, but the loop allows two packets only, so the startup
  message that follows is never read.\<close>

theorem gssenc_then_ssl_rejected:
  assumes "\<not> cclosed (h_client s)" and "can_write 2 (h_client s)"
    and "cin (h_client s) = put_be32 8 @ put_be32 GSSENCRequestCode @ put_be32 8 @ put_be32 SSLRequestCode
           @ EncodeStartup ps"
  shows "dispatch env s =
     (Err (Errorf ''client did not send StartupMessage after preamble'' []),
      s\<lparr>h_client := wrote ''NN'' ((h_client s)\<lparr>cin := EncodeStartup ps\<rparr>)\<rparr>)"
proof -
  let ?c = "h_client s" and ?r = "put_be32 8 @ put_be32 SSLRequestCode @ EncodeStartup ps"
  let ?s1 = "s\<lparr>h_client := wrote ''N'' (?c\<lparr>cin := ?r\<rparr>)\<rparr>"
  have "can_write 1 ?c" using assms(2) by (rule can_write_mono) simp
  then have "dispatch env s = dispatch_loop env (Suc 0) ?s1"
    using dispatch_preamble [of s GSSENCRequestCode ?r env "Suc 0"] assms(1,3)
    by (simp add: dispatch_def numeral_2_eq_2 del: dispatch_loop.simps)
  moreover have "can_write 1 (h_client ?s1)"
    using assms(2) by (auto simp: can_write_def wrote_def split: option.splits)
  then have "dispatch_loop env (Suc 0) ?s1 =
      dispatch_loop env 0 (?s1\<lparr>h_client := wrote ''N'' ((h_client ?s1)\<lparr>cin := EncodeStartup ps\<rparr>)\<rparr>)"
    using assms(1) by (intro dispatch_preamble) auto
  ultimately show ?thesis by (simp add: wrote_def map_option.compositionality comp_def)
qed

section \<open>Rejections\<close>

lemma WriteErrorResponse_not_Panic: "fst (WriteErrorResponse severity code msg c) \<noteq> Panic"
proof -
  have "fst (Write b c1) \<noteq> Panic" for b c1 by simp
  then show ?thesis
    by (auto simp: WriteErrorResponse_def WriteMessage_def bindIO_def split: prod.splits res.splits)
      (metis Write_not_Panic fst_conv)+
qed

lemma reject_Ok: "\<exists>c. reject code msg s = (Ok (), s\<lparr>h_client := c\<rparr>)"
proof -
  obtain r c where w: "WriteErrorResponse ''FATAL'' code msg (h_client s) = (r, c)"
    by (cases "WriteErrorResponse ''FATAL'' code msg (h_client s)")
  with WriteErrorResponse_not_Panic [of "''FATAL''" code msg "h_client s"] have "r \<noteq> Panic" by simp
  with w show ?thesis by (cases r) (auto simp: reject_def)
qed

lemma reject_wrote:
  "can_write (length (pg_frame (CHR ''E'', error_body ''FATAL'' code msg))) (h_client s) \<Longrightarrow>
   reject code msg s = (Ok (), s\<lparr>h_client := wrote (pg_frame (CHR ''E'', error_body ''FATAL'' code msg)) (h_client s)\<rparr>)"
  by (simp add: reject_def WriteErrorResponse_def)

lemma Sprintf_not_configured:
  "Sprintf tbl ''database %q not configured'' [AStr d] = ''database '' @ Quote tbl d @ '' not configured''"
  by (simp add: Sprintf_def verb_text_def)

text \<open>A client that names a database the server does not serve over PostgreSQL gets exactly one
  error response, with SQLSTATE 3D000 and the quoted name, whatever bytes the name holds; nothing is
  dialled and the server is unchanged.\<close>

theorem unknown_database_rejected:
  assumes "\<not> cclosed (h_client s)" and "ccap (h_client s) = None"
    and "cin (h_client s) = EncodeStartup ps @ rest" and "list_all param_ok ps"
    and "8 + length (startup_params ps) \<le> MaxStartupLen"
    and "lookupDatabase (h_srv s) AdapterPostgres (startup_dbname ps) = None"
  shows "\<exists>s' body. dispatch env s = (Ok (), s') \<and> h_up s' = h_up s \<and> h_srv s' = h_srv s
     \<and> cout (h_client s') = cout (h_client s) @ pg_frame (CHR ''E'', body)
     \<and> ParseErrorResponse body = Ok (''FATAL: database '' @ Quote (env_isPrint env) (startup_dbname ps)
          @ '' not configured (SQLSTATE 3D000)'')"
proof -
  let ?m = "''database '' @ Quote (env_isPrint env) (startup_dbname ps) @ '' not configured''"
  let ?s = "s\<lparr>h_client := (h_client s)\<lparr>cin := rest\<rparr>\<rparr>"
  have "dispatch env s = route env ps ?s"
    using dispatch_startup [OF assms(1,3-5), of env 1] by (simp add: dispatch_def numeral_2_eq_2 del: dispatch_loop.simps)
  moreover have "route env ps ?s = reject ''3D000'' ?m ?s"
    using assms(6) by (simp add: route_def Let_def Sprintf_not_configured)
  moreover have "reject ''3D000'' ?m ?s =
      (Ok (), ?s\<lparr>h_client := wrote (pg_frame (CHR ''E'', error_body ''FATAL'' ''3D000'' ?m)) (h_client ?s)\<rparr>)"
    using assms(1,2) by (intro reject_wrote) (simp add: can_write_def)
  moreover have "NUL \<notin> set ?m" using Quote_no_NUL [of "env_isPrint env" "startup_dbname ps"] by simp
  then have "ParseErrorResponse (error_body ''FATAL'' ''3D000'' ?m) =
      Ok (''FATAL'' @ '': '' @ ?m @ '' (SQLSTATE '' @ ''3D000'' @ '')'')"
    by (intro ParseErrorResponse_error_body) auto
  ultimately show ?thesis
    by (intro exI [of _ "?s\<lparr>h_client := wrote (pg_frame (CHR ''E'', error_body ''FATAL'' ''3D000'' ?m)) (h_client ?s)\<rparr>"]
          exI [of _ "error_body ''FATAL'' ''3D000'' ?m"]) simp
qed


text \<open>A client that has sent a startup message, on a server with two configured databases.\<close>

definition client_state :: "bytes \<Rightarrow> hstate" where
  "client_state b = \<lparr>h_client = fresh_conn b, h_up = None,
     h_srv = new_server sample_config Map.empty Map.empty, h_id = 0\<rparr>"

lemma client_state_simps [simp]:
  "cin (h_client (client_state b)) = b" "cout (h_client (client_state b)) = []"
  "\<not> cclosed (h_client (client_state b))" "ccap (h_client (client_state b)) = None"
  "h_up (client_state b) = None" "can_write n (h_client (client_state b))"
  by (simp_all add: client_state_def fresh_conn_def can_write_def)

theorem gssenc_then_ssl_rejected_witness:
  "cout (h_client (snd (dispatch sample_env (client_state (put_be32 8 @ put_be32 GSSENCRequestCode @ put_be32 8
     @ put_be32 SSLRequestCode @ EncodeStartup sample_params))))) = ''NN''"
  using gssenc_then_ssl_rejected [of "client_state (put_be32 8 @ put_be32 GSSENCRequestCode @ put_be32 8
     @ put_be32 SSLRequestCode @ EncodeStartup sample_params)" sample_params sample_env] by simp

definition nosuch_params :: "KV list" where
  "nosuch_params = [\<lparr>kv_K = ''user'', kv_V = ''dev''\<rparr>, \<lparr>kv_K = ''database'', kv_V = ''nosuch''\<rparr>]"

theorem unknown_database_rejected_witness:
  "\<exists>s' body. dispatch sample_env (client_state (EncodeStartup nosuch_params)) = (Ok (), s') \<and> h_up s' = None
     \<and> cout (h_client s') = pg_frame (CHR ''E'', body)
     \<and> ParseErrorResponse body = Ok (''FATAL: database '' @ Quote (env_isPrint sample_env) ''nosuch''
          @ '' not configured (SQLSTATE 3D000)'')"
proof -
  let ?s = "client_state (EncodeStartup nosuch_params)"
  have name: "startup_dbname nosuch_params = ''nosuch''" by (simp add: startup_dbname_def nosuch_params_def)
  have ok: "list_all param_ok nosuch_params" by (simp add: nosuch_params_def param_ok_def)
  have len: "8 + length (startup_params nosuch_params) \<le> MaxStartupLen"
    by (simp add: nosuch_params_def startup_params_def MaxStartupLen_def)
  have "''nosuch'' \<notin> dom (new_databases sample_config)"
    by (simp add: new_databases_dom) (simp add: sample_config_def)
  then have "lookupDatabase (h_srv ?s) AdapterPostgres (startup_dbname nosuch_params) = None"
    by (simp add: lookupDatabase_def name client_state_def domIff)
  from unknown_database_rejected [OF _ _ _ ok len this, of "[]" sample_env] show ?thesis
    by (simp add: name) blast
qed


section \<open>Connecting to the upstream\<close>

text \<open>The connection the login runs on: the dialled one, or the encrypted stream on top of it when the
  target requires TLS.\<close>

definition upstream_link :: "'c env \<Rightarrow> ResolvedTarget \<Rightarrow> conn \<Rightarrow> bool" where
  "upstream_link env rt u0 \<longleftrightarrow>
     (\<exists>raw. env_dial env (upstream_addr rt) = Ok raw
        \<and> (if rt_SSLMode rt = SSLModeRequire
           then (\<exists>raw'. env_tls env (rt_Host rt) raw' = Ok u0
                   \<and> cout raw' = cout raw @ put_be32 8 @ put_be32 SSLRequestCode)
           else u0 = raw))"

lemma NegotiateUpstreamTLS_OkD:
  assumes "NegotiateUpstreamTLS env name c = (Ok u, c')"
  shows "env_tls env name c' = Ok u \<and> cout c' = cout c @ put_be32 8 @ put_be32 SSLRequestCode"
proof -
  from assms obtain c1 resp where w: "SendSSLRequest c = (Ok (), c1)" and r: "ReadFull 1 c1 = (Ok resp, c')"
    and t: "env_tls env name c' = Ok u"
    by (auto simp: NegotiateUpstreamTLS_def bindIO_eq_Ok_iff wrapIO_eq_Ok_iff split: if_splits)
  have "cout c1 = cout c @ put_be32 8 @ put_be32 SSLRequestCode"
    using w by (auto simp: SendSSLRequest_def Write_Ok_iff)
  moreover have "cout c' = cout c1" using ReadFull_OkD [OF r] read_only_cout by blast
  ultimately show ?thesis using t by simp
qed

lemma reject_up_never_Ok [simp]: "never_Ok (reject_up code msg e)"
  by (simp add: reject_up_def)

lemma upgrade_tls_OkD:
  assumes "upgrade_tls env rt s = (Ok (), s')" and "h_up s = Some raw"
    and "env_dial env (upstream_addr rt) = Ok raw"
  shows "\<exists>u0. s' = s\<lparr>h_up := Some u0\<rparr> \<and> upstream_link env rt u0"
proof (cases "rt_SSLMode rt = SSLModeRequire")
  case True
  then obtain u s1 where n: "on_up (NegotiateUpstreamTLS env (rt_Host rt)) s = (Ok u, s1)"
    and s': "set_up u s1 = (Ok (), s')"
    using assms(1) by (auto simp: upgrade_tls_def catchIO_eq_Ok_iff)
  from n assms(2) obtain raw' where "NegotiateUpstreamTLS env (rt_Host rt) raw = (Ok u, raw')"
    and "s1 = s\<lparr>h_up := Some raw'\<rparr>" by (auto simp: on_up_Ok_iff)
  with s' True assms(3) NegotiateUpstreamTLS_OkD show ?thesis by (fastforce simp: upstream_link_def)
next
  case False
  with assms show ?thesis by (simp add: upgrade_tls_def upstream_link_def)
qed


lemma flush_buffered_Ok:
  assumes "flush_buffered env s = (Ok (), s')" and "h_up s = Some u"
  shows "\<exists>n. let b = take n (cin (h_client s)) in
     h_up s' = Some (if b = [] then u else wrote b u) \<and> h_srv s' = h_srv s \<and> h_id s' = h_id s
     \<and> cout (h_client s') = cout (h_client s) \<and> cin (h_client s') = drop n (cin (h_client s))"
proof -
  let ?n = "min (env_buffered env) (length (cin (h_client s)))"
  show ?thesis
  proof (cases "?n > 0")
    case True
    with assms have "Write (take ?n (cin (h_client s))) u = (Ok (), wrote (take ?n (cin (h_client s))) u)"
      "h_up s' = Some (wrote (take ?n (cin (h_client s))) u)" "h_srv s' = h_srv s" "h_id s' = h_id s"
      "cout (h_client s') = cout (h_client s)" "cin (h_client s') = drop ?n (cin (h_client s))"
      by (auto simp: flush_buffered_def Let_def catchIO_eq_Ok_iff on_up_Ok_iff Write_Ok_iff)
    moreover from True have "take ?n (cin (h_client s)) \<noteq> []" by auto
    ultimately show ?thesis by (intro exI [of _ ?n]) (simp add: Let_def)
  next
    case False
    with assms show ?thesis by (intro exI [of _ 0]) (auto simp: flush_buffered_def Let_def)
  qed
qed

lemma connect_upstream_OkD:
  assumes "connect_upstream env ps n rt s = (Ok (), s')"
  shows "\<exists>u0 u1 u2 k. upstream_link env rt u0
     \<and> AuthenticateUpstream env (rt_User rt) (rt_Password rt) (wrote (EncodeStartupForTarget ps rt) u0) = (Ok (), u1)
     \<and> h_up s' = Some u2 \<and> cout u2 = cout u1 @ take k (cin (h_client s))
     \<and> cout (h_client s') = cout (h_client s) @ pg_frame (CHR ''R'', put_be32 AuthOk)
     \<and> cin (h_client s') = drop k (cin (h_client s))
     \<and> h_id s' = h_id s
     \<and> h_srv s' = (h_srv s)\<lparr>srv_store := Register n (h_id s)
          ((srv_store (h_srv s))\<lparr>st_conns := (st_conns (srv_store (h_srv s)))(h_id s \<mapsto> new_conn rt)\<rparr>)\<rparr>"
proof -
  from assms obtain raw where raw: "env_dial env (upstream_addr rt) = Ok raw"
    by (auto simp: connect_upstream_def catchIO_eq_Ok_iff dial_up_def bindIO_eq_Ok_iff)
  with assms obtain s1 s2 s3 s4 s5 where tls: "upgrade_tls env rt (s\<lparr>h_up := Some raw\<rparr>) = (Ok (), s1)"
    and w: "on_up (Write (EncodeStartupForTarget ps rt)) s1 = (Ok (), s2)"
    and auth: "on_up (AuthenticateUpstream env (rt_User rt) (rt_Password rt)) s2 = (Ok (), s3)"
    and ok: "on_client WriteAuthenticationOk s3 = (Ok (), s4)"
    and flush: "flush_buffered env s4 = (Ok (), s5)" and att: "attach n rt s5 = (Ok (), s')"
    by (auto simp: connect_upstream_def catchIO_eq_Ok_iff dial_up_def bindIO_eq_Ok_iff)
  from upgrade_tls_OkD [OF tls _ raw] obtain u0 where s1: "s1 = s\<lparr>h_up := Some u0\<rparr>"
    and link: "upstream_link env rt u0" by auto
  from w s1 have s2: "s2 = s\<lparr>h_up := Some (wrote (EncodeStartupForTarget ps rt) u0)\<rparr>"
    by (auto simp: on_up_Ok_iff Write_Ok_iff)
  from auth s2 obtain u1 where u1: "AuthenticateUpstream env (rt_User rt) (rt_Password rt)
      (wrote (EncodeStartupForTarget ps rt) u0) = (Ok (), u1)" and s3: "s3 = s\<lparr>h_up := Some u1\<rparr>"
    by (auto simp: on_up_Ok_iff)
  from ok s3 have s4: "s4 = s\<lparr>h_up := Some u1,
      h_client := wrote (pg_frame (CHR ''R'', put_be32 AuthOk)) (h_client s)\<rparr>"
    by (auto simp: on_client_Ok_iff WriteAuthenticationOk_def WriteMessage_Ok_iff)
  from flush_buffered_Ok [OF flush, of u1] s4 obtain k where
    "h_up s5 = Some (if take k (cin (h_client s)) = [] then u1 else wrote (take k (cin (h_client s))) u1)"
    "h_srv s5 = h_srv s" "h_id s5 = h_id s" "cout (h_client s5) = cout (h_client s) @ pg_frame (CHR ''R'', put_be32 AuthOk)"
    "cin (h_client s5) = drop k (cin (h_client s))" by (auto simp: Let_def)
  with link u1 att show ?thesis
    by (intro exI [of _ u0] exI [of _ u1] exI [of _ "the (h_up s5)"] exI [of _ k]) (auto simp: attach_def Let_def)
qed


lemma reject_keeps [simp]: "keeps_srv (reject code msg)" "keeps_srv (reject_up code msg e)"
  by (simp_all add: reject_def reject_up_def)

lemma upgrade_tls_keeps [simp]: "keeps_srv (upgrade_tls env rt)"
  by (simp add: upgrade_tls_def)

lemma flush_buffered_keeps [simp]: "keeps_srv (flush_buffered env)"
proof -
  have "keeps_srv (\<lambda>s'. (Ok (), s'\<lparr>h_client := (h_client s')\<lparr>cin := drop n (cin (h_client s'))\<rparr>\<rparr>))" for n
    by (simp add: keeps_srv_def)
  then have "keeps_srv (catchIO (on_up (Write buf)) (\<lambda>e. bindIO close_up (\<lambda>_. errIO e))
     (\<lambda>_ s'. (Ok (), s'\<lparr>h_client := (h_client s')\<lparr>cin := drop n (cin (h_client s'))\<rparr>\<rparr>)))" for n buf
    by (intro keeps_srv_catchIO) auto
  then show ?thesis by (simp add: keeps_srv_def flush_buffered_def Let_def)
qed

lemma connect_upstream_commits: "commits (connect_upstream env ps n rt)"
  unfolding connect_upstream_def by (intro commits_catchIO commits_bindIO) simp_all

lemma reject_closes [simp]: "client_only (reject code msg)" "closes_on_err (reject_up code msg e)"
  by (simp_all add: reject_def reject_up_def)

lemma upgrade_tls_closes [simp]: "closes_on_err (upgrade_tls env rt)"
  by (simp add: upgrade_tls_def)

lemma flush_buffered_closes [simp]: "closes_on_err (flush_buffered env)"
  unfolding flush_buffered_def closes_on_err_def Let_def
  by (auto simp: catchIO_def up_closed_def close_sock_def split: prod.splits res.splits option.splits if_splits)

interpretation pg_session: session "connect_upstream env ps n rt" n rt for env ps n rt
proof
  show "commits (connect_upstream env ps n rt)" by (rule connect_upstream_commits)
  show "up_closed s'" if "up_closed s" and "connect_upstream env ps n rt s = (Err e, s')" for s e s'
    using that unfolding connect_upstream_def by (rule dial_closes) auto
  fix s s'
  assume "connect_upstream env ps n rt s = (Ok (), s')"
  note ok = connect_upstream_OkD [OF this]
  from ok show "\<exists>u. h_up s' = Some u" by blast
  from ok show "h_id s' = h_id s \<and> h_srv s' = (h_srv s)\<lparr>srv_store := Register n (h_id s)
      ((srv_store (h_srv s))\<lparr>st_conns := (st_conns (srv_store (h_srv s)))(h_id s \<mapsto> new_conn rt)\<rparr>)\<rparr>" by blast
qed

text \<open>C7. The handler fails closed. If it connects, the upstream has accepted the login with the
  target's credentials, after the startup message for the target and over TLS where the target
  requires it (only the TLS request goes out in clear); the client is told it is authenticated and
  nothing else; and the connection is registered for the target. If it does not, for whatever
  reason, the server is unchanged and nothing is registered.\<close>

theorem connect_upstream_fail_closed:
  assumes "connect_upstream env ps n rt s = (r, s')"
  shows "(r = Ok () \<longrightarrow>
       (\<exists>u0 u1 u2 k. upstream_link env rt u0
          \<and> AuthenticateUpstream env (rt_User rt) (rt_Password rt) (wrote (EncodeStartupForTarget ps rt) u0) = (Ok (), u1)
          \<and> h_up s' = Some u2 \<and> cout u2 = cout u1 @ take k (cin (h_client s))
          \<and> cout (h_client s') = cout (h_client s) @ pg_frame (CHR ''R'', put_be32 AuthOk)
          \<and> cin (h_client s') = drop k (cin (h_client s))
          \<and> h_srv s' = (h_srv s)\<lparr>srv_store := Register n (h_id s)
              ((srv_store (h_srv s))\<lparr>st_conns := (st_conns (srv_store (h_srv s)))(h_id s \<mapsto> new_conn rt)\<rparr>)\<rparr>))
     \<and> (r \<noteq> Ok () \<longrightarrow> h_srv s' = h_srv s)"
proof -
  have "h_srv s' = h_srv s" if "r \<noteq> Ok ()"
    using connect_upstream_commits [of env ps n rt] assms that unfolding commits_def
    by (metis fst_conv old.unit.exhaust snd_conv)
  moreover have "r = Ok () \<Longrightarrow> connect_upstream env ps n rt s = (Ok (), s')" using assms by simp
  ultimately show ?thesis using connect_upstream_OkD [of env ps n rt s s'] by blast
qed

lemma connect_upstream_Ok:
  assumes "\<not> cclosed (h_client s)" and "ccap (h_client s) = None" and "rt_SSLMode rt \<noteq> SSLModeRequire"
    and "env_dial env (upstream_addr rt) = Ok u" and "can_write (length (EncodeStartupForTarget ps rt)) u"
    and "AuthenticateUpstream env (rt_User rt) (rt_Password rt) (wrote (EncodeStartupForTarget ps rt) u) = (Ok (), u1)"
    and "\<not> cclosed u1" and "ccap u1 = None"
  shows "\<exists>s'. connect_upstream env ps n rt s = (Ok (), s')"
proof -
  let ?s1 = "s\<lparr>h_up := Some u1, h_client := wrote (pg_frame (CHR ''R'', put_be32 AuthOk)) (h_client s)\<rparr>"
  have ok: "WriteAuthenticationOk (h_client s) = (Ok (), wrote (pg_frame (CHR ''R'', put_be32 AuthOk)) (h_client s))"
    using assms(1,2) by (simp add: WriteAuthenticationOk_def can_write_def)
  have "can_write k u1" for k using assms(7,8) by (simp add: can_write_def)
  then have "\<exists>s2. flush_buffered env ?s1 = (Ok (), s2)"
    by (auto simp: flush_buffered_def Let_def)
  then obtain s2 where "flush_buffered env ?s1 = (Ok (), s2)" by blast
  then show ?thesis
    by (simp add: connect_upstream_def dial_up_def upgrade_tls_def assms(3-6) ok attach_def Let_def)
qed



definition live_env :: "nat env" where
  "live_env = sample_env\<lparr>env_dial := (\<lambda>_. Ok sample_upstream)\<rparr>"

definition live_state :: hstate where
  "live_state = \<lparr>h_client = fresh_conn (EncodeStartup sample_params @ ''Q''), h_up = None,
     h_srv = (new_server sample_config Map.empty Map.empty)\<lparr>srv_store := sample_store\<rparr>, h_id = 5\<rparr>"

lemma live_login:
  "\<exists>u1. AuthenticateUpstream live_env ''pg'' ''pw'' (wrote b sample_upstream) = (Ok (), u1)
     \<and> \<not> cclosed u1 \<and> ccap u1 = None \<and> cin u1 = ''Z'' \<and> prefix b (cout u1)"
proof -
  have run: "scram_run live_env ''pg'' ''pw'' ''client'' ''r=nonce'' ''client'' ''v=sig''"
    using sample_scram_run [of "''pg''" "''pw''"] by (simp add: live_env_def scram_run_def)
  have "\<not> cclosed (wrote b sample_upstream)" "ccap (wrote b sample_upstream) = None"
    "cout (wrote b sample_upstream) = b"
    by (simp_all add: sample_upstream_def fresh_conn_def wrote_def)
  with AuthenticateUpstream_Ok [OF run sample_upstream_login(1) _ _ sample_upstream_login(4-6), of "wrote b sample_upstream" "''Z''"]
  show ?thesis using sample_upstream_login(7) by (simp add: prefix_def)
qed

lemma live_state_simps:
  shows "\<not> cclosed (h_client live_state)" and "ccap (h_client live_state) = None"
    and "cin (h_client live_state) = EncodeStartup sample_params @ ''Q''"
    and "lookupDatabase (h_srv live_state) AdapterPostgres (startup_dbname sample_params) = Some ''appdb''"
    and "Current ''appdb'' (srv_store (h_srv live_state)) = Some sample_rt"
    and "list_all param_ok sample_params" and "8 + length (startup_params sample_params) \<le> MaxStartupLen"
    and "rt_SSLMode sample_rt \<noteq> SSLModeRequire" and "rt_User sample_rt = ''pg''" "rt_Password sample_rt = ''pw''"
    and "env_dial live_env addr = Ok sample_upstream" and "can_write k sample_upstream"
  by (simp_all add: live_state_def fresh_conn_def lookupDatabase_def sample_store_def startup_dbname_def
      sample_params_def AdapterPostgres_def Current_def NewDatabase_def param_ok_def startup_params_def
      MaxStartupLen_def sample_rt_def SSLModeRequire_def live_env_def sample_upstream_def can_write_def)
    (simp add: sample_config_def)


theorem connect_upstream_fail_closed_witness:
  "\<exists>s'. connect_upstream live_env sample_params ''appdb'' sample_rt live_state = (Ok (), s')
     \<and> cout (h_client s') = pg_frame (CHR ''R'', put_be32 AuthOk)
     \<and> 5 \<in> set (conns_of ''appdb'' (srv_store (h_srv s')))"
proof -
  let ?b = "EncodeStartupForTarget sample_params sample_rt"
  obtain u1 where u1: "AuthenticateUpstream live_env (rt_User sample_rt) (rt_Password sample_rt) (wrote ?b sample_upstream) = (Ok (), u1)"
    "\<not> cclosed u1" "ccap u1 = None"
    using live_login [of ?b] live_state_simps(9,10) by auto
  obtain s' where s': "connect_upstream live_env sample_params ''appdb'' sample_rt live_state = (Ok (), s')"
    using connect_upstream_Ok [OF live_state_simps(1,2,8,11,12) u1] by blast
  from connect_upstream_fail_closed [OF s'] have
    out: "cout (h_client s') = cout (h_client live_state) @ pg_frame (CHR ''R'', put_be32 AuthOk)"
    and srv: "srv_store (h_srv s') = Register ''appdb'' 5
       (sample_store\<lparr>st_conns := (st_conns sample_store)(5 \<mapsto> new_conn sample_rt)\<rparr>)"
    by (auto simp: live_state_def)
  have "5 \<in> set (conns_of ''appdb'' (srv_store (h_srv s')))"
    unfolding srv by (simp add: Register_def conns_of_def sample_store_def)
  with s' out show ?thesis by (simp add: live_state_def fresh_conn_def)
qed

end
