(* ===== verification/Digest.thy ===== *)
theory Digest
  imports GoBase
begin

text \<open>
  \<open>crypto/sha1\<close> and \<open>crypto/sha256\<close>, as far as the password scrambles use them: one call on a byte
  slice (FIPS 180-4). Both pad the message to whole blocks of sixteen 32-bit words, extend each block
  to a schedule and fold a round function over it.
\<close>

definition sha_pad :: "bytes \<Rightarrow> bytes" where
  "sha_pad b =
     b @ CHR 0x80 # replicate ((119 - length b mod 64) mod 64) NUL @ rev (le_bytes 8 (8 * length b))"

function chunks :: "nat \<Rightarrow> 'a list \<Rightarrow> 'a list list" where
  "chunks n xs = (if xs = [] \<or> n = 0 then [] else take n xs # chunks n (drop n xs))"
  by pat_completeness auto

termination chunks
  by (relation "measure (length \<circ> snd)") auto

declare chunks.simps [simp del]

definition sha_blocks :: "bytes \<Rightarrow> u32 list list" where
  "sha_blocks b = chunks 16 (map be_uint32 (chunks 4 (sha_pad b)))"

text \<open>Extend a schedule by \<open>k\<close> words, each computed from the words so far.\<close>

primrec extend :: "(u32 list \<Rightarrow> nat \<Rightarrow> u32) \<Rightarrow> nat \<Rightarrow> u32 list \<Rightarrow> u32 list" where
  "extend f 0 ws = ws"
| "extend f (Suc k) ws = extend f k (ws @ [f ws (length ws)])"

section \<open>SHA-1\<close>

type_synonym sha1_state = "u32 \<times> u32 \<times> u32 \<times> u32 \<times> u32"

definition sha1_init :: sha1_state where
  "sha1_init = (0x67452301, 0xEFCDAB89, 0x98BADCFE, 0x10325476, 0xC3D2E1F0)"

definition sha1_word :: "u32 list \<Rightarrow> nat \<Rightarrow> u32" where
  "sha1_word ws t = word_rotl 1 (ws ! (t - 3) XOR ws ! (t - 8) XOR ws ! (t - 14) XOR ws ! (t - 16))"

fun sha1_round :: "nat \<times> u32 \<Rightarrow> sha1_state \<Rightarrow> sha1_state" where
  "sha1_round (t, w) (a, b, c, d, e) =
     (let (f, k) =
        (if t < 20 then ((b AND c) OR (NOT b AND d), 0x5A827999)
         else if t < 40 then (b XOR c XOR d, 0x6ED9EBA1)
         else if t < 60 then ((b AND c) OR (b AND d) OR (c AND d), 0x8F1BBCDC)
         else (b XOR c XOR d, 0xCA62C1D6))
      in (word_rotl 5 a + f + e + k + w, a, word_rotl 30 b, c, d))"

fun sha1_block :: "u32 list \<Rightarrow> sha1_state \<Rightarrow> sha1_state" where
  "sha1_block blk (a, b, c, d, e) =
     (let (a', b', c', d', e') = fold sha1_round (zip [0..<80] (extend sha1_word 64 blk)) (a, b, c, d, e)
      in (a + a', b + b', c + c', d + d', e + e'))"

definition sha1Sum :: "bytes \<Rightarrow> bytes" where
  "sha1Sum b =
     (let (h0, h1, h2, h3, h4) = fold sha1_block (sha_blocks b) sha1_init
      in put_be32 h0 @ put_be32 h1 @ put_be32 h2 @ put_be32 h3 @ put_be32 h4)"

lemma length_sha1Sum [simp]: "length (sha1Sum b) = 20"
  by (simp add: sha1Sum_def Let_def split: prod.split)

section \<open>SHA-256\<close>

definition sha256_K :: "u32 list" where
  "sha256_K =
    [0x428A2F98, 0x71374491, 0xB5C0FBCF, 0xE9B5DBA5, 0x3956C25B, 0x59F111F1, 0x923F82A4, 0xAB1C5ED5,
     0xD807AA98, 0x12835B01, 0x243185BE, 0x550C7DC3, 0x72BE5D74, 0x80DEB1FE, 0x9BDC06A7, 0xC19BF174,
     0xE49B69C1, 0xEFBE4786, 0x0FC19DC6, 0x240CA1CC, 0x2DE92C6F, 0x4A7484AA, 0x5CB0A9DC, 0x76F988DA,
     0x983E5152, 0xA831C66D, 0xB00327C8, 0xBF597FC7, 0xC6E00BF3, 0xD5A79147, 0x06CA6351, 0x14292967,
     0x27B70A85, 0x2E1B2138, 0x4D2C6DFC, 0x53380D13, 0x650A7354, 0x766A0ABB, 0x81C2C92E, 0x92722C85,
     0xA2BFE8A1, 0xA81A664B, 0xC24B8B70, 0xC76C51A3, 0xD192E819, 0xD6990624, 0xF40E3585, 0x106AA070,
     0x19A4C116, 0x1E376C08, 0x2748774C, 0x34B0BCB5, 0x391C0CB3, 0x4ED8AA4A, 0x5B9CCA4F, 0x682E6FF3,
     0x748F82EE, 0x78A5636F, 0x84C87814, 0x8CC70208, 0x90BEFFFA, 0xA4506CEB, 0xBEF9A3F7, 0xC67178F2]"

type_synonym sha256_state = "u32 list"

definition sha256_init :: sha256_state where
  "sha256_init = [0x6A09E667, 0xBB67AE85, 0x3C6EF372, 0xA54FF53A, 0x510E527F, 0x9B05688C, 0x1F83D9AB, 0x5BE0CD19]"

definition sha256_word :: "u32 list \<Rightarrow> nat \<Rightarrow> u32" where
  "sha256_word ws t =
     (let x = ws ! (t - 15); y = ws ! (t - 2);
          s0 = word_rotr 7 x XOR word_rotr 18 x XOR drop_bit 3 x;
          s1 = word_rotr 17 y XOR word_rotr 19 y XOR drop_bit 10 y
      in ws ! (t - 16) + s0 + ws ! (t - 7) + s1)"

definition sha256_round :: "u32 \<times> u32 \<Rightarrow> sha256_state \<Rightarrow> sha256_state" where
  "sha256_round kw st =
     (let k = fst kw; w = snd kw; a = st ! 0; b = st ! 1; c = st ! 2; d = st ! 3;
          e = st ! 4; f = st ! 5; g = st ! 6; h = st ! 7;
          S1 = word_rotr 6 e XOR word_rotr 11 e XOR word_rotr 25 e;
          ch = (e AND f) XOR (NOT e AND g);
          t1 = h + S1 + ch + k + w;
          S0 = word_rotr 2 a XOR word_rotr 13 a XOR word_rotr 22 a;
          maj = (a AND b) XOR (a AND c) XOR (b AND c)
      in [t1 + (S0 + maj), a, b, c, d + t1, e, f, g])"

definition sha256_block :: "u32 list \<Rightarrow> sha256_state \<Rightarrow> sha256_state" where
  "sha256_block blk st =
     map2 (+) st (fold sha256_round (zip sha256_K (extend sha256_word 48 blk)) st)"

definition sha256Sum :: "bytes \<Rightarrow> bytes" where
  "sha256Sum b = concat (map put_be32 (fold sha256_block (sha_blocks b) sha256_init))"

lemma length_sha256_round: "length (sha256_round kw st) = 8"
  by (simp add: sha256_round_def Let_def)

lemma length_fold_sha256_round: "length st = 8 \<Longrightarrow> length (fold sha256_round kws st) = 8"
  by (induction kws arbitrary: st) (simp_all add: length_sha256_round)

lemma length_fold_sha256_block: "length st = 8 \<Longrightarrow> length (fold sha256_block blks st) = 8"
  by (induction blks arbitrary: st) (simp_all add: sha256_block_def length_fold_sha256_round)

lemma length_sha256Sum [simp]: "length (sha256Sum b) = 32"
proof -
  have "length (concat (map put_be32 ws)) = 4 * length ws" for ws
    by (induction ws) auto
  then show ?thesis
    by (simp add: sha256Sum_def length_fold_sha256_block sha256_init_def)
qed

end
