(* ===== verification/MysqlWire.thy ===== *)
theory MysqlWire
  imports GoIO Digest
begin

text \<open>
  \<open>internal/proxy/mysqlwire.go\<close>: the MySQL packet framing, length-encoded integers and strings, the
  two handshake packets, the OK and ERR packets and the password scrambles.

  A packet written is read back whatever its size, and so are the handshakes; the parser of the
  server's greeting never panics, and the parser of the client's login is shown to panic exactly on
  certain lengths of the authentication data.
\<close>

definition MaxPacketPayload :: nat where "MaxPacketPayload = 0xFFFFFF"

definition ClientLongPassword :: u32 where "ClientLongPassword = 0x00000001"
definition ClientFoundRows :: u32 where "ClientFoundRows = 0x00000002"
definition ClientLongFlag :: u32 where "ClientLongFlag = 0x00000004"
definition ClientConnectWithDB :: u32 where "ClientConnectWithDB = 0x00000008"
definition ClientProtocol41 :: u32 where "ClientProtocol41 = 0x00000200"
definition ClientSSL :: u32 where "ClientSSL = 0x00000800"
definition ClientTransactions :: u32 where "ClientTransactions = 0x00002000"
definition ClientSecureConnection :: u32 where "ClientSecureConnection = 0x00008000"
definition ClientPluginAuth :: u32 where "ClientPluginAuth = 0x00080000"
definition ClientConnectAttrs :: u32 where "ClientConnectAttrs = 0x00100000"
definition ClientPluginAuthLenencClientData :: u32 where "ClientPluginAuthLenencClientData = 0x00200000"
definition ClientDeprecateEOF :: u32 where "ClientDeprecateEOF = 0x01000000"

definition OKPacketHeader :: byte where "OKPacketHeader = CHR 0x00"
definition ErrPacketHeader :: byte where "ErrPacketHeader = CHR 0xFF"
definition EOFPacketHeader :: byte where "EOFPacketHeader = CHR 0xFE"

definition MySQLNativePassword :: string where "MySQLNativePassword = ''mysql_native_password''"
definition CachingSHA2Password :: string where "CachingSHA2Password = ''caching_sha2_password''"
definition ProtocolVersion10 :: byte where "ProtocolVersion10 = CHR 0x0A"
definition DefaultCharsetUTF8MB4 :: byte where "DefaultCharsetUTF8MB4 = CHR 0x2D"

text \<open>\<open>caps&flag != 0\<close>.\<close>

definition has_cap :: "u32 \<Rightarrow> u32 \<Rightarrow> bool" where
  "has_cap caps flag \<longleftrightarrow> caps AND flag \<noteq> 0"

section \<open>Packets\<close>

text \<open>\<open>b[0] | b[1]<<8 | ...\<close>.\<close>

primrec or_bytes :: "bytes \<Rightarrow> u64" where
  "or_bytes [] = 0"
| "or_bytes (b # bs) = word_of_nat (of_char b) OR push_bit 8 (or_bytes bs)"

function ReadPacket_loop :: "bytes \<Rightarrow> (conn, byte \<times> bytes) io" where
  "ReadPacket_loop payload c =
     (case ReadFull 4 c of
        (Err e, c1) \<Rightarrow> (Err e, c1)
      | (Panic, c1) \<Rightarrow> (Panic, c1)
      | (Ok hdr, c1) \<Rightarrow>
          let len = unat (or_bytes (take 3 hdr)) in
          (case ReadFull len c1 of
             (Err e, c2) \<Rightarrow> (Err e, c2)
           | (Panic, c2) \<Rightarrow> (Panic, c2)
           | (Ok chunk, c2) \<Rightarrow>
               if len < MaxPacketPayload then (Ok (hdr ! 3, payload @ chunk), c2)
               else ReadPacket_loop (payload @ chunk) c2))"
  by pat_completeness auto

termination ReadPacket_loop
proof (relation "measure (\<lambda>(payload, c). length (cin c))", goal_cases)
  case (2 payload c x c1 hdr len y c2 chunk)
  then have "ReadFull 4 c = (Ok hdr, c1)" and "ReadFull len c1 = (Ok chunk, c2)" by auto
  then have "length hdr = 4" "cin c = hdr @ cin c1" "cin c1 = chunk @ cin c2"
    by (auto dest!: ReadFull_OkD)
  then show ?case by simp
qed simp

declare ReadPacket_loop.simps [simp del]

definition ReadPacket :: "(conn, byte \<times> bytes) io" where
  "ReadPacket = ReadPacket_loop []"

definition packet_header :: "nat \<Rightarrow> u8 \<Rightarrow> bytes" where
  "packet_header n seq = [char_of n, char_of (n div 256), char_of (n div 65536), byte_of seq]"

function WritePacket :: "u8 \<Rightarrow> bytes \<Rightarrow> (conn, u8) io" where
  "WritePacket seq payload =
     (let n = min (length payload) MaxPacketPayload in
      bindIO (Write (packet_header n seq)) (\<lambda>_.
      bindIO (Write (take n payload)) (\<lambda>_.
        if n < MaxPacketPayload then retIO (seq + 1)
        else if drop n payload = []
        then bindIO (Write (packet_header 0 (seq + 1))) (\<lambda>_. retIO (seq + 1 + 1))
        else WritePacket (seq + 1) (drop n payload))))"
  by pat_completeness auto

termination WritePacket
  by (relation "measure (length \<circ> snd)") (auto simp: MaxPacketPayload_def)

declare WritePacket.simps [simp del]

section \<open>Length-encoded integers and strings\<close>

definition AppendLenencInt :: "bytes \<Rightarrow> u64 \<Rightarrow> bytes" where
  "AppendLenencInt b i =
     (if i < 0xFB then b @ le_bytes 1 (unat i)
      else if i \<le> 0xFFFF then b @ CHR 0xFC # le_bytes 2 (unat i)
      else if i \<le> 0xFFFFFF then b @ CHR 0xFD # le_bytes 3 (unat i)
      else b @ CHR 0xFE # le_bytes 8 (unat i))"

definition ReadLenencInt :: "bytes \<Rightarrow> nat \<Rightarrow> (u64 \<times> nat) res" where
  "ReadLenencInt b pos =
     (if pos \<ge> length b then Err (Errorf ''lenenc-int: out of range at %d'' [AInt (int pos)])
      else bindR (idx b pos) (\<lambda>first.
        if first < CHR 0xFB then Ok (or_bytes [first], pos + 1)
        else if first = CHR 0xFC then
          (if pos + 3 > length b then Err (Errorf ''lenenc-int: truncated 2-byte'' [])
           else bindR (slice b (pos + 1) (pos + 3)) (\<lambda>v. Ok (or_bytes v, pos + 3)))
        else if first = CHR 0xFD then
          (if pos + 4 > length b then Err (Errorf ''lenenc-int: truncated 3-byte'' [])
           else bindR (slice b (pos + 1) (pos + 4)) (\<lambda>v. Ok (or_bytes v, pos + 4)))
        else if first = CHR 0xFE then
          (if pos + 9 > length b then Err (Errorf ''lenenc-int: truncated 8-byte'' [])
           else bindR (slice b (pos + 1) (pos + 9)) (\<lambda>v. Ok (le_uint64 v, pos + 9)))
        else Err (Errorf ''lenenc-int: invalid leading byte 0x%02x'' [AByte first])))"

definition AppendLenencStr :: "bytes \<Rightarrow> bytes \<Rightarrow> bytes" where
  "AppendLenencStr b s = AppendLenencInt b (word_of_nat (length s)) @ s"

definition readNulString :: "bytes \<Rightarrow> nat \<Rightarrow> (string \<times> nat) res" where
  "readNulString b pos =
     (case index_from b pos NUL of
        Some i \<Rightarrow> bindR (slice b pos i) (\<lambda>s. Ok (s, i + 1))
      | None \<Rightarrow> Err (Errorf ''nul-string: unterminated at %d'' [AInt (int pos)]))"

section \<open>OK and ERR packets\<close>

definition EncodeOKPacket :: "u64 \<Rightarrow> u64 \<Rightarrow> u16 \<Rightarrow> u16 \<Rightarrow> bytes" where
  "EncodeOKPacket affectedRows lastInsertID statusFlags warnings =
     AppendLenencInt (AppendLenencInt [OKPacketHeader] affectedRows) lastInsertID
       @ put_le16 statusFlags @ put_le16 warnings"

definition EncodeERRPacket :: "u16 \<Rightarrow> string \<Rightarrow> string \<Rightarrow> bytes" where
  "EncodeERRPacket code sqlState message =
     (let sqlState = (if length sqlState \<noteq> 5 then ''HY000'' else sqlState) in
      ErrPacketHeader # put_le16 code @ CHR ''#'' # sqlState @ message)"

definition ParseERRPacket :: "bytes \<Rightarrow> string res" where
  "ParseERRPacket b =
     (if length b < 3 \<or> b ! 0 \<noteq> ErrPacketHeader then Ok ''not an ERR packet''
      else bindR (slice b 1 3) (\<lambda>cb.
        let code = uint (le_uint16 cb) in
        if 3 < length b \<and> b ! 3 = CHR ''#'' \<and> 3 + 6 \<le> length b then
          bindR (slice b 4 9) (\<lambda>sqlState.
          bindR (slice b 9 (length b)) (\<lambda>msg.
            Ok (''ERROR '' @ Itoa code @ '' ('' @ sqlState @ ''): '' @ msg)))
        else bindR (slice b 3 (length b)) (\<lambda>msg. Ok (''ERROR '' @ Itoa code @ '': '' @ msg))))"

definition IsErrPacket :: "bytes \<Rightarrow> bool" where
  "IsErrPacket b \<longleftrightarrow> length b > 0 \<and> b ! 0 = ErrPacketHeader"

definition IsOKPacket :: "bytes \<Rightarrow> bool" where
  "IsOKPacket b \<longleftrightarrow> length b > 0 \<and> b ! 0 = OKPacketHeader"

section \<open>The server's greeting\<close>

record HandshakeV10 =
  hv_ProtocolVersion :: byte
  hv_ServerVersion :: string
  hv_ConnectionID :: u32
  hv_AuthPluginData :: bytes
  hv_Capabilities :: u32
  hv_CharacterSet :: byte
  hv_StatusFlags :: u16
  hv_AuthPluginName :: string

text \<open>Optional fields: present if enough bytes are left.\<close>

definition opt_byte :: "bytes \<Rightarrow> nat \<Rightarrow> byte \<times> nat" where
  "opt_byte b pos = (if pos < length b then (b ! pos, pos + 1) else (NUL, pos))"

definition opt_uint16 :: "bytes \<Rightarrow> nat \<Rightarrow> u16 \<times> nat" where
  "opt_uint16 b pos =
     (if pos + 2 \<le> length b then (le_uint16 (take 2 (drop pos b)), pos + 2) else (0, pos))"

definition handshake_part2 :: "bytes \<Rightarrow> nat \<Rightarrow> byte \<Rightarrow> (bytes \<times> nat) res" where
  "handshake_part2 b pos authDataLen =
     (let part2Len = 13;
          part2Len = (if int (of_char authDataLen) - 8 > part2Len then int (of_char authDataLen) - 8 else part2Len);
          part2Len = (if int pos + part2Len > int (length b) then int (length b) - int pos else part2Len)
      in if part2Len > 0
         then bindR (slice b pos (pos + nat part2Len)) (\<lambda>part2.
                Ok (trim_right_NUL part2, pos + nat part2Len))
         else Ok ([], pos))"

definition handshake_plugin :: "bytes \<Rightarrow> nat \<Rightarrow> string res" where
  "handshake_plugin b pos =
     (case readNulString b pos of
        Ok (name, _) \<Rightarrow> Ok name
      | Err _ \<Rightarrow> bindR (slice b pos (length b)) (\<lambda>rest. Ok (trim_right_NUL rest))
      | Panic \<Rightarrow> Panic)"

text \<open>From the character set on; older handshakes stop anywhere in it.\<close>

definition handshake_tail :: "bytes \<Rightarrow> nat \<Rightarrow> bytes \<Rightarrow> HandshakeV10 \<Rightarrow> HandshakeV10 res" where
  "handshake_tail b pos authData h =
     (let (charset, pos) = opt_byte b pos;
          (status, pos) = opt_uint16 b pos;
          (capUpper, pos) = opt_uint16 b pos;
          caps = hv_Capabilities h OR push_bit 16 (ucast capUpper);
          (authDataLen, pos) = opt_byte b pos;
          pos = (if pos + 10 \<le> length b then pos + 10 else pos);
          h = h\<lparr>hv_CharacterSet := charset, hv_StatusFlags := status, hv_Capabilities := caps\<rparr>
      in bindR (if has_cap caps ClientSecureConnection then handshake_part2 b pos authDataLen else Ok ([], pos))
           (\<lambda>(part2, pos).
             let h = h\<lparr>hv_AuthPluginData := authData @ part2\<rparr> in
             if has_cap caps ClientPluginAuth \<and> pos < length b
             then bindR (handshake_plugin b pos) (\<lambda>name. Ok (h\<lparr>hv_AuthPluginName := name\<rparr>))
             else Ok h))"

definition ParseHandshakeV10 :: "bytes \<Rightarrow> HandshakeV10 res" where
  "ParseHandshakeV10 b =
     (if length b < 1 then Err (Errorf ''handshake: empty'' [])
      else bindR (idx b 0) (\<lambda>version.
        if version \<noteq> ProtocolVersion10 then
          (if version = ErrPacketHeader
           then bindR (ParseERRPacket b) (\<lambda>msg.
                  Err (Errorf ''server returned error instead of handshake: %s'' [AStr msg]))
           else Err (Errorf ''unsupported handshake protocol version %d'' [AByte version]))
        else
          bindR (wrapR (\<lambda>e. Errorf ''handshake server version: %w'' [AWrap e]) (readNulString b 1)) (\<lambda>(server, pos).
          if pos + 4 > length b then Err (Errorf ''handshake: truncated connection id'' [])
          else bindR (slice b pos (pos + 4)) (\<lambda>cid.
          let pos = pos + 4 in
          if pos + 8 > length b then Err (Errorf ''handshake: truncated auth-plugin-data-part-1'' [])
          else bindR (slice b pos (pos + 8)) (\<lambda>authData.
          let pos = pos + 8 in
          if pos \<ge> length b then Err (Errorf ''handshake: truncated filler'' [])
          else let pos = pos + 1 in
          if pos + 2 > length b then Err (Errorf ''handshake: truncated capability lower'' [])
          else bindR (slice b pos (pos + 2)) (\<lambda>capLower.
            handshake_tail b (pos + 2) authData
              \<lparr>hv_ProtocolVersion = version, hv_ServerVersion = server, hv_ConnectionID = le_uint32 cid,
               hv_AuthPluginData = [], hv_Capabilities = ucast (le_uint16 capLower), hv_CharacterSet = NUL,
               hv_StatusFlags = 0, hv_AuthPluginName = []\<rparr>))))))"

definition EncodeHandshakeV10 ::
  "string \<Rightarrow> u32 \<Rightarrow> u32 \<Rightarrow> byte \<Rightarrow> u16 \<Rightarrow> string \<Rightarrow> bytes \<Rightarrow> bytes" where
  "EncodeHandshakeV10 serverVersion connectionID capabilities charset statusFlags authPlugin salt =
     (let salt = (if length salt < 20 then salt @ replicate (20 - length salt) NUL else salt) in
      [ProtocolVersion10] @ serverVersion @ [NUL] @ put_le32 connectionID @ take 8 salt @ [NUL]
        @ put_le16 (ucast capabilities) @ [charset] @ put_le16 statusFlags
        @ put_le16 (ucast (drop_bit 16 capabilities))
        @ [if has_cap capabilities ClientPluginAuth then CHR 0x15 else NUL]
        @ replicate 10 NUL @ take 12 (drop 8 salt) @ [NUL]
        @ (if has_cap capabilities ClientPluginAuth then authPlugin @ [NUL] else []))"

section \<open>The client's login\<close>

definition EncodeHandshakeResponse41 ::
  "u32 \<Rightarrow> byte \<Rightarrow> string \<Rightarrow> bytes \<Rightarrow> string \<Rightarrow> string \<Rightarrow> bytes" where
  "EncodeHandshakeResponse41 capabilities charset username authResponse database authPlugin =
     put_le32 capabilities @ put_le32 (word_of_nat MaxPacketPayload) @ [charset] @ replicate 23 NUL
       @ username @ [NUL] @ [char_of (length authResponse)] @ authResponse
       @ (if has_cap capabilities ClientConnectWithDB then database @ [NUL] else [])
       @ (if has_cap capabilities ClientPluginAuth then authPlugin @ [NUL] else [])"

definition EncodeSSLRequest :: "u32 \<Rightarrow> byte \<Rightarrow> bytes" where
  "EncodeSSLRequest capabilities charset =
     put_le32 capabilities @ put_le32 (word_of_nat MaxPacketPayload) @ [charset] @ replicate 23 NUL"

record HandshakeResponse41 =
  hr_Capabilities :: u32
  hr_MaxPacketSize :: u32
  hr_CharacterSet :: byte
  hr_Username :: string
  hr_AuthResponse :: bytes
  hr_Database :: string
  hr_AuthPlugin :: string

text \<open>Addition of two \<open>int\<close>s, which are 64 bits wide and wrap around, and slicing up to a position
  that may be negative.\<close>

definition int_add64 :: "int \<Rightarrow> int \<Rightarrow> int" where
  "int_add64 a b = sint (word_of_int a + word_of_int b :: u64)"

definition slice_to :: "'a list \<Rightarrow> nat \<Rightarrow> int \<Rightarrow> 'a list res" where
  "slice_to b lo hi = (if hi < 0 then Panic else slice b lo (nat hi))"

definition response_auth :: "bytes \<Rightarrow> u32 \<Rightarrow> nat \<Rightarrow> (bytes \<times> nat) res" where
  "response_auth b caps pos =
     (if has_cap caps ClientPluginAuthLenencClientData then
        bindR (wrapR (\<lambda>e. Errorf ''handshake response auth len: %w'' [AWrap e]) (ReadLenencInt b pos)) (\<lambda>(n, pos).
          let fin = int_add64 (int pos) (sint n) in
          if fin > int (length b) then Err (Errorf ''handshake response: auth-response out of range'' [])
          else bindR (slice_to b pos fin) (\<lambda>auth. Ok (auth, nat fin)))
      else if has_cap caps ClientSecureConnection then
        (if pos \<ge> length b then Err (Errorf ''handshake response: missing auth length'' [])
         else bindR (idx b pos) (\<lambda>l.
           let n = of_char l; pos = pos + 1 in
           if pos + n > length b then Err (Errorf ''handshake response: auth-response out of range'' [])
           else bindR (slice b pos (pos + n)) (\<lambda>auth. Ok (auth, pos + n))))
      else wrapR (\<lambda>e. Errorf ''handshake response auth: %w'' [AWrap e]) (readNulString b pos))"

definition response_plugin :: "bytes \<Rightarrow> u32 \<Rightarrow> nat \<Rightarrow> string res" where
  "response_plugin b caps pos =
     (if has_cap caps ClientPluginAuth \<and> pos < length b
      then (case readNulString b pos of Ok (name, _) \<Rightarrow> Ok name | Err _ \<Rightarrow> Ok [] | Panic \<Rightarrow> Panic)
      else Ok [])"

definition ParseHandshakeResponse41 :: "bytes \<Rightarrow> HandshakeResponse41 res" where
  "ParseHandshakeResponse41 b =
     (if length b < 32 then Err (Errorf ''handshake response: too short (%d)'' [AInt (int (length b))])
      else bindR (slice b 0 4) (\<lambda>cb.
        let caps = le_uint32 cb in
        if \<not> has_cap caps ClientProtocol41
        then Err (Errorf ''handshake response: pre-4.1 protocol not supported'' [])
        else bindR (slice b 4 8) (\<lambda>mb.
        bindR (idx b 8) (\<lambda>charset.
        bindR (wrapR (\<lambda>e. Errorf ''handshake response username: %w'' [AWrap e]) (readNulString b 32)) (\<lambda>(user, pos).
        bindR (response_auth b caps pos) (\<lambda>(auth, pos).
        bindR (if has_cap caps ClientConnectWithDB
               then wrapR (\<lambda>e. Errorf ''handshake response database: %w'' [AWrap e]) (readNulString b pos)
               else Ok ([], pos)) (\<lambda>(database, pos).
        bindR (response_plugin b caps pos) (\<lambda>plugin.
          Ok \<lparr>hr_Capabilities = caps, hr_MaxPacketSize = le_uint32 mb, hr_CharacterSet = charset,
              hr_Username = user, hr_AuthResponse = auth, hr_Database = database,
              hr_AuthPlugin = plugin\<rparr>))))))))"

section \<open>Password scrambles\<close>

definition xor_bytes :: "bytes \<Rightarrow> bytes \<Rightarrow> bytes" where
  "xor_bytes a b = map2 (\<lambda>x y. byte_of (u8_of x XOR u8_of y)) a b"

definition ScrambleNativePassword :: "string \<Rightarrow> bytes \<Rightarrow> bytes" where
  "ScrambleNativePassword password salt =
     (if password = [] then []
      else let salt = (if length salt > 20 then take 20 salt else salt);
               h1 = sha1Sum password; h2 = sha1Sum h1; h3 = sha1Sum (salt @ h2)
           in xor_bytes h1 h3)"

definition ScrambleCachingSHA2Password :: "string \<Rightarrow> bytes \<Rightarrow> bytes" where
  "ScrambleCachingSHA2Password password salt =
     (if password = [] then []
      else let salt = (if length salt > 20 then take 20 salt else salt);
               h1 = sha256Sum password; h2 = sha256Sum h1; h3 = sha256Sum (h2 @ salt)
           in xor_bytes h1 h3)"

section \<open>Integers on the wire\<close>

lemma or_bytes_le_val: "length bs \<le> 8 \<Longrightarrow> or_bytes bs = word_of_nat (le_val bs)"
proof (induction bs)
  case (Cons b bs)
  have "take_bit 8 (of_char b :: nat) = of_char b"
    using nat_of_char_less_256 [of b] by (intro take_bit_nat_eq_self) simp
  then have small: "bit (of_char b :: nat) n \<Longrightarrow> n < 8" for n by (metis bit_take_bit_iff)
  have "(word_of_nat (of_char b) :: u64) OR push_bit 8 (or_bytes bs)
      = word_of_nat (of_char b) + push_bit 8 (or_bytes bs)"
    by (intro disjunctive_add [symmetric]) (auto simp: bit_simps dest!: small)
  moreover have "push_bit 8 (or_bytes bs) = 256 * or_bytes bs"
    by (simp add: push_bit_eq_mult mult.commute)
  ultimately show ?case using Cons by (simp only: or_bytes.simps) simp
qed simp

lemma packet_header_length:
  assumes "n \<le> MaxPacketPayload"
  shows "unat (or_bytes (take 3 (packet_header n seq))) = n"
proof -
  have "le_bytes 3 n = [char_of n, char_of (n div 256), char_of (n div 256 div 256)]"
    by (simp add: numeral_3_eq_3)
  then have h: "take 3 (packet_header n seq) = le_bytes 3 n"
    by (simp add: packet_header_def div_mult2_eq [symmetric])
  have "n < 256 ^ 3" using assms by (simp add: MaxPacketPayload_def)
  then show ?thesis unfolding h using or_bytes_le_val [of "le_bytes 3 n"]
    by (simp add: unat_of_nat)
qed

lemma packet_header_simps [simp]: "length (packet_header n seq) = 4" "packet_header n seq ! 3 = byte_of seq"
  by (simp_all add: packet_header_def)

section \<open>Packets are read back\<close>

text \<open>The bytes of a payload on the wire: full packets, then one that is shorter.\<close>

function packet_bytes :: "u8 \<Rightarrow> bytes \<Rightarrow> bytes" where
  "packet_bytes seq p =
     (if length p < MaxPacketPayload then packet_header (length p) seq @ p
      else packet_header MaxPacketPayload seq @ take MaxPacketPayload p
             @ packet_bytes (seq + 1) (drop MaxPacketPayload p))"
  by pat_completeness auto

termination packet_bytes
  by (relation "measure (length \<circ> snd)") (auto simp: MaxPacketPayload_def)

declare packet_bytes.simps [simp del]

abbreviation packets_full :: "bytes \<Rightarrow> u8" where
  "packets_full p \<equiv> word_of_nat (length p div MaxPacketPayload)"

lemma packets_full_drop:
  assumes "\<not> length p < MaxPacketPayload"
  shows "packets_full p = packets_full (drop MaxPacketPayload p) + 1"
proof -
  have "length p div MaxPacketPayload = Suc ((length p - MaxPacketPayload) div MaxPacketPayload)"
    using assms by (intro le_div_geq) (auto simp: MaxPacketPayload_def)
  then show ?thesis by simp
qed

lemma WritePacket_Ok_iff:
  "WritePacket seq p c = (Ok seq', c') \<longleftrightarrow>
     can_write (length (packet_bytes seq p)) c \<and> c' = wrote (packet_bytes seq p) c
     \<and> seq' = seq + packets_full p + 1"
proof (induction seq p arbitrary: c rule: packet_bytes.induct)
  case (1 seq p)
  let ?M = MaxPacketPayload
  note io = Let_def bindIO_eq_Ok_iff Write_Ok_iff can_write_append
  consider (short) "length p < ?M" | (exact) "length p = ?M" | (more) "?M < length p" by linarith
  then show ?case
  proof cases
    case short
    then have "packet_bytes seq p = packet_header (length p) seq @ p" by (subst packet_bytes.simps) simp
    with short show ?thesis
      by (subst WritePacket.simps) (auto simp: io simp del: length_append packet_header_simps)
  next
    case exact
    moreover have "0 < ?M" by (simp add: MaxPacketPayload_def)
    ultimately have "packet_bytes seq p = packet_header ?M seq @ p @ packet_header 0 (seq + 1)"
      by (subst packet_bytes.simps, subst packet_bytes.simps) simp
    with exact \<open>0 < ?M\<close> show ?thesis
      by (subst WritePacket.simps) (auto simp: io simp del: length_append packet_header_simps)
  next
    case more
    then have "packet_bytes seq p =
        packet_header ?M seq @ take ?M p @ packet_bytes (seq + 1) (drop ?M p)"
      by (subst packet_bytes.simps) simp
    moreover have "packets_full p = packets_full (drop ?M p) + 1" using more by (simp add: packets_full_drop)
    ultimately show ?thesis
      using more 1 by (subst WritePacket.simps) (auto simp: io simp del: length_append packet_header_simps)
  qed
qed

lemma ReadPacket_loop_packet_bytes:
  "\<not> cclosed c \<Longrightarrow> cin c = packet_bytes seq p @ rest \<Longrightarrow>
   ReadPacket_loop acc c = (Ok (byte_of (seq + packets_full p), acc @ p), c\<lparr>cin := rest\<rparr>)"
proof (induction seq p arbitrary: acc c rule: packet_bytes.induct)
  case (1 seq p)
  let ?M = MaxPacketPayload
  show ?case
  proof (cases "length p < ?M")
    case True
    with "1.prems" have cin: "cin c = packet_header (length p) seq @ (p @ rest)" by (subst (asm) packet_bytes.simps) simp
    from True cin "1.prems"(1) show ?thesis
      by (subst ReadPacket_loop.simps) (simp add: packet_header_length)
  next
    case False
    define rest' where "rest' = packet_bytes (seq + 1) (drop ?M p) @ rest"
    have cin: "cin c = packet_header ?M seq @ (take ?M p @ rest')"
      using False "1.prems" by (subst (asm) packet_bytes.simps) (simp add: rest'_def)
    from False cin "1.prems"(1) have "ReadPacket_loop acc c = ReadPacket_loop (acc @ take ?M p) (c\<lparr>cin := rest'\<rparr>)"
      by (subst ReadPacket_loop.simps) (simp add: packet_header_length min_absorb2)
    also have "\<dots> = (Ok (byte_of (seq + 1 + packets_full (drop ?M p)), (acc @ take ?M p) @ drop ?M p),
                      (c\<lparr>cin := rest'\<rparr>)\<lparr>cin := rest\<rparr>)"
      using False "1.prems" by (intro "1.IH") (simp_all add: rest'_def)
    finally show ?thesis by (simp add: packets_full_drop [OF False] ac_simps)
  qed
qed

lemma ReadPacket_loop_OkD:
  "ReadPacket_loop acc c = (Ok m, c') \<Longrightarrow>
   (\<exists>x. cin c = x @ cin c' \<and> 4 \<le> length x) \<and> (\<exists>i. c' = c\<lparr>cin := i\<rparr>)
   \<and> ReadPacket_loop acc (fresh_conn (cin c)) = (Ok m, fresh_conn (cin c'))"
proof (induction acc c rule: ReadPacket_loop.induct)
  case (1 acc c)
  from "1.prems" obtain hdr c1 where h: "ReadFull 4 c = (Ok hdr, c1)"
    by (subst (asm) ReadPacket_loop.simps) (auto split: prod.splits res.splits)
  define len where "len = unat (or_bytes (take 3 hdr))"
  from "1.prems" h obtain chunk c2 where k: "ReadFull len c1 = (Ok chunk, c2)"
    by (subst (asm) ReadPacket_loop.simps) (auto simp: Let_def len_def split: prod.splits res.splits)
  note d1 = ReadFull_fresh [OF h] and d2 = ReadFull_fresh [OF k]
  have step: "ReadPacket_loop acc c = (if len < MaxPacketPayload then (Ok (hdr ! 3, acc @ chunk), c2)
      else ReadPacket_loop (acc @ chunk) c2)"
    using h k by (subst ReadPacket_loop.simps) (simp add: Let_def len_def)
  have f1: "ReadFull 4 (fresh_conn (cin c)) = (Ok hdr, fresh_conn (cin c1))"
    and f2: "ReadFull len (fresh_conn (cin c1)) = (Ok chunk, fresh_conn (cin c2))" using d1 d2 by blast+
  have fstep: "ReadPacket_loop acc (fresh_conn (cin c)) =
      (if len < MaxPacketPayload then (Ok (hdr ! 3, acc @ chunk), fresh_conn (cin c2))
       else ReadPacket_loop (acc @ chunk) (fresh_conn (cin c2)))"
    using f1 f2 by (subst ReadPacket_loop.simps) (simp add: Let_def len_def)
  have pre: "cin c = (hdr @ chunk) @ cin c2" "length hdr = 4" using d1 d2 by simp_all
  from d1 d2 obtain i where upd: "c2 = c\<lparr>cin := i\<rparr>" by auto
  show ?case
  proof (cases "len < MaxPacketPayload")
    case True
    with step "1.prems" have c': "m = (hdr ! 3, acc @ chunk)" "c' = c2" by auto
    show ?thesis
      unfolding c' by (intro conjI exI [of _ "hdr @ chunk"] exI [of _ i] pre(1) upd) (use True fstep pre(2) in simp_all)
  next
    case False
    with step "1.prems" have rec: "ReadPacket_loop (acc @ chunk) c2 = (Ok m, c')" by simp
    from "1.IH" [OF h [symmetric] refl len_def k [symmetric] refl False rec] obtain x i' where
      x: "cin c2 = x @ cin c'" "c' = c2\<lparr>cin := i'\<rparr>"
        "ReadPacket_loop (acc @ chunk) (fresh_conn (cin c2)) = (Ok m, fresh_conn (cin c'))" by blast
    have "c' = c\<lparr>cin := i'\<rparr>" using x(2) upd by simp
    moreover have "cin c = (hdr @ chunk @ x) @ cin c'" using pre(1) x(1) by simp
    moreover have "4 \<le> length (hdr @ chunk @ x)" using pre(2) by simp
    moreover have "ReadPacket_loop acc (fresh_conn (cin c)) = (Ok m, fresh_conn (cin c'))" using False fstep x(3) by simp
    ultimately show ?thesis by blast
  qed
qed

lemma ReadPacket_OkD:
  assumes "ReadPacket c = (Ok m, c')"
  shows "length (cin c') < length (cin c)" and "\<exists>i. c' = c\<lparr>cin := i\<rparr>"
    and "ReadPacket (fresh_conn (cin c)) = (Ok m, fresh_conn (cin c'))"
  using ReadPacket_loop_OkD [of "[]" c m c'] assms by (auto simp: ReadPacket_def)

lemma WritePacket_cin: "WritePacket seq p c = (Ok s, c') \<Longrightarrow> cin c' = cin c"
  by (simp add: WritePacket_Ok_iff)

definition mysql_frame :: "byte \<times> bytes \<Rightarrow> bytes" where
  "mysql_frame m = packet_bytes (u8_of (fst m) - packets_full (snd m)) (snd m)"

lemma packet_bytes_length: "4 \<le> length (packet_bytes seq p)"
  by (subst packet_bytes.simps) simp

lemma ReadPacket_packet_bytes:
  "\<not> cclosed c \<Longrightarrow> cin c = packet_bytes seq p @ rest \<Longrightarrow>
   ReadPacket c = (Ok (byte_of (seq + packets_full p), p), c\<lparr>cin := rest\<rparr>)"
  using ReadPacket_loop_packet_bytes [of c seq p rest "[]"] by (simp add: ReadPacket_def)

interpretation mysql: framing mysql_frame ReadPacket "\<lambda>_. True"
proof
  fix m :: "byte \<times> bytes" and c :: conn and rest
  assume "\<not> cclosed c" and "cin c = mysql_frame m @ rest"
  then show "ReadPacket c = (Ok m, c\<lparr>cin := rest\<rparr>)"
    by (cases m) (simp add: mysql_frame_def ReadPacket_packet_bytes)
next
  fix m :: "byte \<times> bytes"
  show "mysql_frame m \<noteq> []"
    using packet_bytes_length [of "u8_of (fst m) - packets_full (snd m)" "snd m"]
    by (auto simp: mysql_frame_def)
qed

text \<open>C36. A packet written is read back whatever its size: a payload of any length, split into as many
  frames as it needs, comes back whole, with the sequence id of its last frame, and the sequence ids
  count the frames modulo 256.\<close>

theorem mysql_packet_roundtrip:
  assumes "WritePacket seq payload c = (Ok seq', c')" and "\<not> cclosed r"
    and "cin r = drop (length (cout c)) (cout c') @ rest"
  shows "ReadPacket r = (Ok (byte_of (seq' - 1), payload), r\<lparr>cin := rest\<rparr>)
     \<and> seq' = seq + word_of_nat (length payload div MaxPacketPayload + 1)"
  using assms ReadPacket_packet_bytes [of r seq payload rest] by (simp add: WritePacket_Ok_iff)

theorem mysql_packet_roundtrip_witness:
  "\<exists>c'. WritePacket 255 ''select 1'' (fresh_conn []) = (Ok 0, c')
     \<and> ReadPacket (fresh_conn (cout c')) = (Ok (CHR 0xFF, ''select 1''), fresh_conn [])"
proof -
  have w: "WritePacket 255 ''select 1'' (fresh_conn []) =
      (Ok 0, wrote (packet_bytes 255 ''select 1'') (fresh_conn []))"
    by (simp add: WritePacket_Ok_iff can_write_def fresh_conn_def MaxPacketPayload_def)
  have "ReadPacket (fresh_conn (packet_bytes 255 ''select 1'')) =
      (Ok (byte_of (0 - 1), ''select 1''), (fresh_conn (packet_bytes 255 ''select 1''))\<lparr>cin := []\<rparr>)"
    using mysql_packet_roundtrip [OF w, of "fresh_conn (packet_bytes 255 ''select 1'')" "[]"]
    by (simp add: fresh_conn_def)
  moreover have "byte_of (- 1) = CHR 0xFF" by code_simp
  ultimately show ?thesis
    using w by (intro exI [of _ "wrote (packet_bytes 255 ''select 1'') (fresh_conn [])"])
      (simp add: fresh_conn_def)
qed

section \<open>Strings and integers are read back\<close>

lemma readNulString_append [codec_simps]:
  assumes "NUL \<notin> set s" and "i = length p"
  shows "readNulString (p @ s @ NUL # q) i = Ok (s, length p + length s + 1)"
  using assms by (simp add: readNulString_def index_from_append slice_append)

interpretation nul_string: codec "\<lambda>s. s @ [NUL]" readNulString "\<lambda>s. NUL \<notin> set s"
  by unfold_locales (simp add: readNulString_append)

lemma readNulString_not_Panic [simp]: "readNulString b pos \<noteq> Panic"
  by (auto simp: readNulString_def slice_def dest: index_from_SomeD split: option.split)

lemma readNulString_OkD:
  "readNulString b pos = Ok (s, pos') \<Longrightarrow> pos < pos' \<and> pos' \<le> length b \<and> pos' = pos + length s + 1"
  by (auto simp: readNulString_def slice_def dest!: index_from_SomeD split: option.splits if_splits)

lemma le_bytes_or:
  assumes "k \<le> 8" and "unat (i :: u64) < 256 ^ k"
  shows "or_bytes (le_bytes k (unat i)) = i"
  using assms by (simp add: or_bytes_le_val)

lemma lenenc_at:
  shows "i < 0xFB \<Longrightarrow> ReadLenencInt (p @ le_bytes 1 (unat i) @ q) (length p) = Ok (i, length p + 1)"
    and "i \<le> 0xFFFF \<Longrightarrow> ReadLenencInt (p @ CHR 0xFC # le_bytes 2 (unat i) @ q) (length p) = Ok (i, length p + 3)"
    and "i \<le> 0xFFFFFF \<Longrightarrow> ReadLenencInt (p @ CHR 0xFD # le_bytes 3 (unat i) @ q) (length p) = Ok (i, length p + 4)"
    and "ReadLenencInt (p @ CHR 0xFE # le_bytes 8 (unat i) @ q) (length p) = Ok (i, length p + 9)"
proof -
  assume i: "i < 0xFB"
  then have "unat i < 251" by (simp add: word_less_nat_alt)
  moreover have "or_bytes [char_of (unat i)] = i"
    using le_bytes_or [of 1 i] \<open>unat i < 251\<close> by simp
  ultimately show "ReadLenencInt (p @ le_bytes 1 (unat i) @ q) (length p) = Ok (i, length p + 1)"
    by (simp add: ReadLenencInt_def idx_append less_char_def)
next
  assume "i \<le> 0xFFFF"
  then have "or_bytes (le_bytes 2 (unat i)) = i"
    by (intro le_bytes_or) (simp_all add: word_le_nat_alt)
  then show "ReadLenencInt (p @ CHR 0xFC # le_bytes 2 (unat i) @ q) (length p) = Ok (i, length p + 3)"
    using slice_append [of "length p + 1" "p @ [CHR 0xFC]" "length p + 3" "le_bytes 2 (unat i)" q]
    by (simp add: ReadLenencInt_def idx_append less_char_def)
next
  assume "i \<le> 0xFFFFFF"
  then have "or_bytes (le_bytes 3 (unat i)) = i"
    by (intro le_bytes_or) (simp_all add: word_le_nat_alt)
  then show "ReadLenencInt (p @ CHR 0xFD # le_bytes 3 (unat i) @ q) (length p) = Ok (i, length p + 4)"
    using slice_append [of "length p + 1" "p @ [CHR 0xFD]" "length p + 4" "le_bytes 3 (unat i)" q]
    by (simp add: ReadLenencInt_def idx_append less_char_def)
next
  show "ReadLenencInt (p @ CHR 0xFE # le_bytes 8 (unat i) @ q) (length p) = Ok (i, length p + 9)"
    using slice_append [of "length p + 1" "p @ [CHR 0xFE]" "length p + 9" "le_bytes 8 (unat i)" q] get_put(3) [of i]
    by (simp add: ReadLenencInt_def idx_append less_char_def put_le64_def)
qed

interpretation lenenc: codec "AppendLenencInt []" ReadLenencInt "\<lambda>_. True"
proof
  fix i :: u64 and p q :: bytes
  show "ReadLenencInt (p @ AppendLenencInt [] i @ q) (length p) = Ok (i, length p + length (AppendLenencInt [] i))"
    using lenenc_at [where i = i and p = p and q = q] by (auto simp: AppendLenencInt_def linorder_not_less)
qed

section \<open>The greeting is read back\<close>

lemma opt_byte_at: "rest_at b i (x # q) \<Longrightarrow> opt_byte b i = (x, i + 1) \<and> rest_at b (i + 1) q"
  using rest_at_Cons [of b i x q] by (simp add: opt_byte_def)

lemma opt_uint16_at: "rest_at b i (put_le16 w @ q) \<Longrightarrow> opt_uint16 b i = (w, i + 2) \<and> rest_at b (i + 2) q"
  using rest_at_le [of b i "put_le16 w" q 2] rest_at_next [of b i "put_le16 w" q 2]
  by (simp add: opt_uint16_def) (simp add: rest_at_def)

lemma caps_halves: "ucast (ucast caps :: u16) OR push_bit 16 (ucast (ucast (drop_bit 16 caps) :: u16)) = (caps :: u32)"
  by (rule bit_word_eqI) (auto simp: bit_simps)

lemma handshake_part2_at:
  assumes "rest_at b i ((s @ [NUL]) @ q)" and "length s = 12" and "last s \<noteq> NUL" and "of_char adl \<le> (21 :: nat)"
  shows "handshake_part2 b i adl = Ok (s, i + 13) \<and> rest_at b (i + 13) q"
proof -
  have "int (of_char adl) - 8 \<le> 13" using assms(4) by linarith
  moreover have "s \<noteq> []" using assms(2) by auto
  ultimately show ?thesis
    using rest_at_le [OF assms(1), of 13] rest_at_slice [OF assms(1), of 13] rest_at_next [OF assms(1), of 13] assms(2,3)
    by (auto simp: handshake_part2_def Let_def trim_right_NUL_snoc)
qed

lemma handshake_tail_at:
  assumes at: "rest_at b i (charset # put_le16 status @ put_le16 (ucast (drop_bit 16 caps)) @ adl # replicate 10 NUL
      @ (s @ [NUL]) @ (if has_cap caps ClientPluginAuth then plugin @ [NUL] else []))"
    and h: "hv_Capabilities h = ucast (ucast caps :: u16)" "hv_AuthPluginName h = []"
    and s: "length s = 12" "last s \<noteq> NUL" and adl: "of_char adl \<le> (21 :: nat)"
    and caps: "has_cap caps ClientSecureConnection"
    and plugin: "NUL \<notin> set plugin" "\<not> has_cap caps ClientPluginAuth \<Longrightarrow> plugin = []"
  shows "handshake_tail b i authData h =
     Ok (h\<lparr>hv_CharacterSet := charset, hv_StatusFlags := status, hv_Capabilities := caps,
           hv_AuthPluginData := authData @ s, hv_AuthPluginName := plugin\<rparr>)"
proof -
  note a = opt_byte_at [OF at]
  note a2 = opt_uint16_at [OF conjunct2 [OF a]]
  note a3 = opt_uint16_at [OF conjunct2 [OF a2]]
  note a4 = opt_byte_at [OF conjunct2 [OF a3]]
  note a5 = conjunct2 [OF a4]
  have a6: "rest_at b (i + 1 + 2 + 2 + 1 + 10) ((s @ [NUL]) @ (if has_cap caps ClientPluginAuth then plugin @ [NUL] else []))"
    by (rule rest_at_next [OF a5]) simp
  note a7 = handshake_part2_at [OF a6 s adl]
  let ?p = "i + 1 + 2 + 2 + 1 + 10 + 13"
  have fin: "rest_at b ?p (if has_cap caps ClientPluginAuth then plugin @ [NUL] else [])"
    using a7 by (simp add: ac_simps)
  have name: "if has_cap caps ClientPluginAuth then ?p < length b \<and> handshake_plugin b ?p = Ok plugin else \<not> ?p < length b"
  proof (cases "has_cap caps ClientPluginAuth")
    case True
    then have "readNulString b ?p = Ok (plugin, ?p + length (plugin @ [NUL]))" and "length b = ?p + length (plugin @ [NUL])"
      using fin nul_string.dec_at [OF plugin(1), of b ?p "[]"] rest_at_length [OF fin] by simp_all
    with True show ?thesis by (simp add: handshake_plugin_def)
  qed (use rest_at_length [OF fin] in simp)
  have "i + 1 + 2 + 2 + 1 + 10 \<le> length b" using rest_at_le [OF a5, of 10] by simp
  then show ?thesis
    unfolding handshake_tail_def Let_def
    by (simp only: conjunct1 [OF a] conjunct1 [OF a2] conjunct1 [OF a3] conjunct1 [OF a4] conjunct1 [OF a7]
        h(1) caps_halves caps prod.case if_True bindR.simps)
      (use name h plugin(2) in \<open>cases "has_cap caps ClientPluginAuth"; simp\<close>)
qed

lemma ParseHandshakeV10_Encode:
  assumes "NUL \<notin> set version" and plugin: "NUL \<notin> set plugin" "\<not> has_cap caps ClientPluginAuth \<Longrightarrow> plugin = []"
    and salt: "length salt = 20" "last salt \<noteq> NUL" and caps: "has_cap caps ClientSecureConnection"
  shows "ParseHandshakeV10 (EncodeHandshakeV10 version cid caps charset status plugin salt) =
     Ok \<lparr>hv_ProtocolVersion = ProtocolVersion10, hv_ServerVersion = version, hv_ConnectionID = cid,
         hv_AuthPluginData = salt, hv_Capabilities = caps, hv_CharacterSet = charset,
         hv_StatusFlags = status, hv_AuthPluginName = plugin\<rparr>"
proof -
  define adl where "adl = (if has_cap caps ClientPluginAuth then CHR 0x15 else NUL)"
  define t where "t = charset # put_le16 status @ put_le16 (ucast (drop_bit 16 caps)) @ adl # replicate 10 NUL
      @ (drop 8 salt @ [NUL]) @ (if has_cap caps ClientPluginAuth then plugin @ [NUL] else [])"
  define b where "b = EncodeHandshakeV10 version cid caps charset status plugin salt"
  have b: "rest_at b 0 ([ProtocolVersion10] @ (version @ [NUL]) @ put_le32 cid @ take 8 salt @ [NUL] @ put_le16 (ucast caps) @ t)"
    using salt by (simp add: rest_at_def b_def EncodeHandshakeV10_def t_def adl_def)
  have b1: "rest_at b 1 ((version @ [NUL]) @ put_le32 cid @ take 8 salt @ [NUL] @ put_le16 (ucast caps) @ t)"
    using rest_at_next [OF b, of 1] by simp
  note v = nul_string.dec_at [OF assms(1) b1]
  let ?p = "1 + length (version @ [NUL])"
  note b3 = rest_at_next [OF conjunct2 [OF v], of 4, simplified length_put, OF refl]
  have b4: "rest_at b (?p + 4 + 8) ([NUL] @ put_le16 (ucast caps) @ t)" using rest_at_next [OF b3, of 8] salt by simp
  have b5: "rest_at b (?p + 4 + 8 + 1) (put_le16 (ucast caps) @ t)" using rest_at_next [OF b4, of 1] by simp
  have b6: "rest_at b (?p + 4 + 8 + 1 + 2) t" using rest_at_next [OF b5, of 2] by simp
  have s: "length (drop 8 salt) = 12" "last (drop 8 salt) \<noteq> NUL" using salt by (simp_all add: last_drop)
  have "handshake_tail b (?p + 4 + 8 + 1 + 2) (take 8 salt)
      \<lparr>hv_ProtocolVersion = ProtocolVersion10, hv_ServerVersion = version, hv_ConnectionID = cid, hv_AuthPluginData = [],
       hv_Capabilities = ucast (ucast caps :: u16), hv_CharacterSet = NUL, hv_StatusFlags = 0, hv_AuthPluginName = []\<rparr> =
     Ok \<lparr>hv_ProtocolVersion = ProtocolVersion10, hv_ServerVersion = version, hv_ConnectionID = cid,
         hv_AuthPluginData = salt, hv_Capabilities = caps, hv_CharacterSet = charset,
         hv_StatusFlags = status, hv_AuthPluginName = plugin\<rparr>"
    using handshake_tail_at [OF b6 [unfolded t_def] _ _ s _ caps plugin] by (simp add: adl_def)
  moreover have "b ! 0 = ProtocolVersion10" "0 < length b" using rest_at_Cons [of b 0 ProtocolVersion10] b by auto
  ultimately show ?thesis
    using v rest_at_slice [OF conjunct2 [OF v], of 4] rest_at_slice [OF b3, of 8] rest_at_slice [OF b5, of 2]
      rest_at_le [OF conjunct2 [OF v], of 4] rest_at_le [OF b3, of 8] rest_at_le [OF b4, of 1] rest_at_le [OF b5, of 2] salt
    unfolding b_def [symmetric] ParseHandshakeV10_def
    by (simp add: idx_def Let_def)
qed

lemma ParseERRPacket_not_Panic [simp]: "ParseERRPacket b \<noteq> Panic"
  by (auto simp: ParseERRPacket_def slice_def Let_def)

lemma handshake_part2_not_Panic: "handshake_part2 b i adl \<noteq> Panic"
  by (auto simp: handshake_part2_def Let_def slice_def bindR_eq_Panic_iff split: if_splits)

lemma handshake_plugin_not_Panic: "i < length b \<Longrightarrow> handshake_plugin b i \<noteq> Panic"
  using readNulString_not_Panic [of b i]
  by (auto simp: handshake_plugin_def slice_def split: res.splits)

lemma handshake_tail_not_Panic: "handshake_tail b i authData h \<noteq> Panic"
  by (auto simp: handshake_tail_def Let_def handshake_part2_not_Panic handshake_plugin_not_Panic
      bindR_eq_Panic_iff split: prod.splits if_splits)

lemma ParseHandshakeV10_not_Panic: "ParseHandshakeV10 b \<noteq> Panic"
  by (auto simp: ParseHandshakeV10_def Let_def idx_def slice_def bindR_eq_Panic_iff wrapR_eq_Ok_iff
      handshake_tail_not_Panic split: prod.splits if_splits)

text \<open>The parser of a server's greeting returns exactly what the encoder was given, for a 20-byte
  salt that does not end in NUL (the padding the parser strips), and it never panics, whatever bytes a
  server sends.\<close>

theorem handshake_v10_roundtrip:
  assumes "NUL \<notin> set version" and "NUL \<notin> set plugin" and "has_cap caps ClientPluginAuth \<or> plugin = []"
    and "length salt = 20" and "last salt \<noteq> NUL" and "has_cap caps ClientSecureConnection"
  shows "ParseHandshakeV10 (EncodeHandshakeV10 version cid caps charset status plugin salt) =
     Ok \<lparr>hv_ProtocolVersion = ProtocolVersion10, hv_ServerVersion = version, hv_ConnectionID = cid,
         hv_AuthPluginData = salt, hv_Capabilities = caps, hv_CharacterSet = charset,
         hv_StatusFlags = status, hv_AuthPluginName = plugin\<rparr>
     \<and> ParseHandshakeV10 b \<noteq> Panic"
  using assms ParseHandshakeV10_Encode [of version plugin caps salt cid charset status] ParseHandshakeV10_not_Panic [of b] by auto

theorem handshake_v10_roundtrip_witness:
  "ParseHandshakeV10 (EncodeHandshakeV10 ''8.0.36'' 7 0x00088200 (CHR 0x2D) 2 MySQLNativePassword (replicate 20 (CHR ''s''))) =
     Ok \<lparr>hv_ProtocolVersion = ProtocolVersion10, hv_ServerVersion = ''8.0.36'', hv_ConnectionID = 7,
         hv_AuthPluginData = replicate 20 (CHR ''s''), hv_Capabilities = 0x00088200, hv_CharacterSet = CHR 0x2D,
         hv_StatusFlags = 2, hv_AuthPluginName = MySQLNativePassword\<rparr>
   \<and> ParseHandshakeV10 [] \<noteq> Panic"
  by (rule handshake_v10_roundtrip)
    (simp_all add: MySQLNativePassword_def has_cap_def ClientPluginAuth_def ClientSecureConnection_def)

section \<open>The login is read back\<close>

lemma int_add64_eq: "int_add64 (int i) (sint (n :: u64)) = (int i + uint n + 2 ^ 63) mod 2 ^ 64 - 2 ^ 63"
proof -
  have "word_of_int (int i) + word_of_int (sint n) = (word_of_int (int i + uint n) :: u64)" by simp
  then show ?thesis
    by (simp only: int_add64_def int_word_sint) simp
qed

lemma int_add64_wrap:
  assumes "i < 2 ^ 63"
  shows "if unat (n :: u64) + i < 2 ^ 63 then int_add64 (int i) (sint n) = int (i + unat n)
         else int_add64 (int i) (sint n) < int i"
proof -
  define m where "m = unat n"
  have u: "uint n = int m" "m < 2 ^ 64" "unat n = m" using unsigned_less [of n, where ?'a = nat] by (simp_all add: m_def)
  show ?thesis
  proof (cases "m + i < 2 ^ 63")
    case False
    have "(int i + int m + 2 ^ 63) mod 2 ^ 64 = (int i + int m + 2 ^ 63 - 2 ^ 64) mod 2 ^ 64"
      by (rule minus_mod_self2 [symmetric])
    also have "\<dots> = int i + int m + 2 ^ 63 - 2 ^ 64" using False u assms by (intro mod_pos_pos_trivial) auto
    finally show ?thesis using False u by (simp add: int_add64_eq)
  qed (use u in \<open>simp add: int_add64_eq\<close>)
qed

lemma ReadLenencInt_not_Panic [simp]: "ReadLenencInt b i \<noteq> Panic"
  by (auto simp: ReadLenencInt_def idx_def slice_def)

lemma ReadLenencInt_OkD: "ReadLenencInt b i = Ok (n, i') \<Longrightarrow> i < i' \<and> i' \<le> length b"
  by (auto simp: ReadLenencInt_def idx_def slice_def split: if_splits)

text \<open>The authentication data makes the login parser panic exactly when its length, added to the
  position, does not fit in an \<open>int\<close>.\<close>

lemma response_auth_Panic_iff:
  assumes "length b < 2 ^ 63"
  shows "response_auth b caps i = Panic \<longleftrightarrow>
     has_cap caps ClientPluginAuthLenencClientData \<and> (\<exists>n i'. ReadLenencInt b i = Ok (n, i') \<and> 2 ^ 63 \<le> unat n + i')"
proof (cases "has_cap caps ClientPluginAuthLenencClientData")
  case True
  show ?thesis
  proof (cases "ReadLenencInt b i")
    case (Ok r)
    obtain n i' where r: "r = (n, i')" by (cases r)
    with Ok have i': "i' \<le> length b" using ReadLenencInt_OkD by blast
    with assms have "i' < 2 ^ 63" by simp
    moreover obtain m where m: "unat n = m" by simp
    ultimately show ?thesis using int_add64_wrap [of i' n] i' Ok r True unfolding m
      by (auto simp: response_auth_def Let_def slice_to_def slice_def bindR_eq_Panic_iff m split: if_splits)
  qed (use True in \<open>simp_all add: response_auth_def\<close>)
next
  case False
  then show ?thesis by (auto simp: response_auth_def Let_def idx_def slice_def bindR_eq_Panic_iff)
qed

lemma lenenc_small: "n < 251 \<Longrightarrow> AppendLenencInt [] (word_of_nat n) = [char_of n]"
  by (simp add: AppendLenencInt_def word_less_nat_alt unat_of_nat)

lemma response_auth_at:
  assumes at: "rest_at b i (char_of (length auth) # auth @ q)" and len: "length b < 2 ^ 63" "length auth < 256"
    and caps: "has_cap caps ClientSecureConnection"
    and lenenc: "has_cap caps ClientPluginAuthLenencClientData \<Longrightarrow> length auth < 251"
  shows "response_auth b caps i = Ok (auth, i + 1 + length auth)"
proof -
  note a = rest_at_Cons [OF at]
  have le: "i + 1 + length auth \<le> length b" and sl: "slice b (i + 1) (i + 1 + length auth) = Ok auth"
    using a rest_at_le [of b "i + 1" auth q "length auth"] rest_at_slice [of b "i + 1" auth q "length auth"] by auto
  show ?thesis
  proof (cases "has_cap caps ClientPluginAuthLenencClientData")
    case True
    have "ReadLenencInt b i = Ok (word_of_nat (length auth), i + 1)"
      using lenenc.dec_at [of b i "word_of_nat (length auth)" "auth @ q"] at lenenc [OF True] by (simp add: lenenc_small)
    moreover have "unat (word_of_nat (length auth) :: u64) = length auth" using len by (simp add: unat_of_nat)
    then have "int_add64 (int (i + 1)) (sint (word_of_nat (length auth) :: u64)) = int (i + 1 + length auth)"
      using int_add64_wrap [of "i + 1" "word_of_nat (length auth)"] le len by (auto split: if_splits)
    ultimately show ?thesis
      using True le sl by (simp add: response_auth_def Let_def slice_to_def nat_add_distrib)
  next
    case False
    have "of_char (b ! i) = length auth" using a len(2) by simp
    with False caps a le sl show ?thesis by (simp add: response_auth_def Let_def idx_def)
  qed
qed

lemma response_plugin_at:
  assumes "NUL \<notin> set plugin" and "\<not> has_cap caps ClientPluginAuth \<Longrightarrow> plugin = []"
    and "rest_at b i (if has_cap caps ClientPluginAuth then plugin @ [NUL] else [])"
  shows "response_plugin b caps i = Ok plugin"
proof (cases "has_cap caps ClientPluginAuth")
  case True
  with assms have "rest_at b i ((plugin @ [NUL]) @ [])" by simp
  from nul_string.dec_at [OF assms(1) this] rest_at_length [OF this] True show ?thesis
    by (simp add: response_plugin_def)
qed (use assms in \<open>simp add: response_plugin_def\<close>)

lemma ParseHandshakeResponse41_Encode:
  fixes db plugin :: string
  defines "db_part \<equiv> \<lambda>caps. if has_cap caps ClientConnectWithDB then db @ [NUL] else []"
    and "plugin_part \<equiv> \<lambda>caps. if has_cap caps ClientPluginAuth then plugin @ [NUL] else []"
  assumes b: "b = EncodeHandshakeResponse41 caps charset user auth db plugin" and len: "length b < 2 ^ 63"
    and user: "NUL \<notin> set user" and db: "NUL \<notin> set db" "\<not> has_cap caps ClientConnectWithDB \<Longrightarrow> db = []"
    and plugin: "NUL \<notin> set plugin" "\<not> has_cap caps ClientPluginAuth \<Longrightarrow> plugin = []"
    and caps: "has_cap caps ClientProtocol41" "has_cap caps ClientSecureConnection"
    and auth: "length auth < 256" "has_cap caps ClientPluginAuthLenencClientData \<Longrightarrow> length auth < 251"
  shows "ParseHandshakeResponse41 b =
     Ok \<lparr>hr_Capabilities = caps, hr_MaxPacketSize = word_of_nat MaxPacketPayload, hr_CharacterSet = charset,
         hr_Username = user, hr_AuthResponse = auth, hr_Database = db, hr_AuthPlugin = plugin\<rparr>"
proof -
  let ?tail = "(user @ [NUL]) @ char_of (length auth) # auth @ db_part caps @ plugin_part caps"
  have at: "rest_at b 0 (put_le32 caps @ put_le32 (word_of_nat MaxPacketPayload) @ charset # replicate 23 NUL @ ?tail)"
    by (simp add: b EncodeHandshakeResponse41_def db_part_def plugin_part_def rest_at_def)
  note at4 = rest_at_next [OF at, of 4, simplified]
  note at8 = rest_at_next [OF at4, of 4, simplified]
  have at9: "rest_at b 9 (replicate 23 NUL @ ?tail)" using rest_at_Cons [OF at8] by simp
  have at32: "rest_at b 32 ?tail" using rest_at_next [OF at9, of 23] by simp
  note u = nul_string.dec_at [OF user at32]
  let ?p = "32 + length (user @ [NUL])"
  note a = response_auth_at [OF conjunct2 [OF u] len auth(1) caps(2) auth(2)]
  let ?q = "?p + 1 + length auth"
  have at_db: "rest_at b ?q (db_part caps @ plugin_part caps)"
    using rest_at_next [of b "?p + 1" auth "db_part caps @ plugin_part caps" "length auth"]
      rest_at_Cons [OF conjunct2 [OF u]] by simp
  define r where "r = ?q + length (db_part caps)"
  have d: "(if has_cap caps ClientConnectWithDB
            then wrapR (\<lambda>e. Errorf ''handshake response database: %w'' [AWrap e]) (readNulString b ?q)
            else Ok ([], ?q)) = Ok (db, r)" and at_plugin: "rest_at b r (plugin_part caps)"
    using nul_string.dec_at [OF db(1), of b ?q "plugin_part caps"] at_db db(2)
    by (auto simp: r_def db_part_def)
  have pl: "response_plugin b caps r = Ok plugin"
    using response_plugin_at [OF plugin] at_plugin by (simp add: plugin_part_def)
  have "slice b 0 4 = Ok (put_le32 caps)" "slice b 4 8 = Ok (put_le32 (word_of_nat MaxPacketPayload))"
    "idx b 8 = Ok charset" "32 \<le> length b"
    using rest_at_slice [OF at, of 4] rest_at_slice [OF at4, of 4] rest_at_Cons [OF at8] rest_at_le [OF at32]
    by (simp_all add: idx_def)
  then show ?thesis
    using conjunct1 [OF u] a d pl caps(1)
    by (cases "has_cap caps ClientConnectWithDB") (simp_all add: ParseHandshakeResponse41_def)
qed


text \<open>C37. The parser of a client's login returns exactly what the encoder was given: capabilities,
  character set, user, authentication data, database and plugin.\<close>

theorem handshake_response_roundtrip:
  assumes "NUL \<notin> set user" and "NUL \<notin> set db" and "NUL \<notin> set plugin"
    and "has_cap caps ClientConnectWithDB \<or> db = []" and "has_cap caps ClientPluginAuth \<or> plugin = []"
    and "has_cap caps ClientProtocol41" and "has_cap caps ClientSecureConnection"
    and "length auth < (if has_cap caps ClientPluginAuthLenencClientData then 251 else 256)"
    and "length (EncodeHandshakeResponse41 caps charset user auth db plugin) < 2 ^ 63"
  shows "ParseHandshakeResponse41 (EncodeHandshakeResponse41 caps charset user auth db plugin) =
     Ok \<lparr>hr_Capabilities = caps, hr_MaxPacketSize = word_of_nat MaxPacketPayload, hr_CharacterSet = charset,
         hr_Username = user, hr_AuthResponse = auth, hr_Database = db, hr_AuthPlugin = plugin\<rparr>"
  using assms by (intro ParseHandshakeResponse41_Encode [OF refl]) (auto split: if_splits)

theorem handshake_response_roundtrip_witness:
  "ParseHandshakeResponse41 (EncodeHandshakeResponse41 0x00288208 (CHR 0x2D) ''app'' ''0123456789'' ''shop'' MySQLNativePassword) =
     Ok \<lparr>hr_Capabilities = 0x00288208, hr_MaxPacketSize = word_of_nat MaxPacketPayload, hr_CharacterSet = CHR 0x2D,
         hr_Username = ''app'', hr_AuthResponse = ''0123456789'', hr_Database = ''shop'', hr_AuthPlugin = MySQLNativePassword\<rparr>"
  by (rule handshake_response_roundtrip)
    (simp_all add: MySQLNativePassword_def has_cap_def ClientPluginAuth_def ClientSecureConnection_def
      ClientConnectWithDB_def ClientProtocol41_def ClientPluginAuthLenencClientData_def EncodeHandshakeResponse41_def)

lemma ParseHandshakeResponse41_Panic_iff:
  assumes "length b < 2 ^ 63"
  shows "ParseHandshakeResponse41 b = Panic \<longleftrightarrow>
     32 \<le> length b \<and> has_cap (le_uint32 (take 4 b)) ClientProtocol41
     \<and> has_cap (le_uint32 (take 4 b)) ClientPluginAuthLenencClientData
     \<and> (\<exists>user pos n pos'. readNulString b 32 = Ok (user, pos) \<and> ReadLenencInt b pos = Ok (n, pos')
          \<and> 2 ^ 63 \<le> unat n + pos')"
proof -
  have pl: "response_plugin b caps i \<noteq> Panic" for caps i
    using readNulString_not_Panic [of b i] by (auto simp: response_plugin_def split: res.splits)
  have db: "(if P then wrapR f (readNulString b i) else Ok ([], i)) \<noteq> Panic" for P f i by simp
  let ?caps = "le_uint32 (take 4 b)"
  have "ParseHandshakeResponse41 b = Panic \<longleftrightarrow> 32 \<le> length b \<and> has_cap ?caps ClientProtocol41
      \<and> (\<exists>user pos. readNulString b 32 = Ok (user, pos) \<and> response_auth b ?caps pos = Panic)"
    by (auto simp: ParseHandshakeResponse41_def Let_def slice_def idx_def bindR_eq_Panic_iff db pl
        split: prod.splits)
  then show ?thesis by (auto simp: response_auth_Panic_iff [OF assms])
qed


text \<open>A login with an empty user and authentication data of length \<open>2 ^ 64 - 1\<close>.\<close>

definition crash_login :: bytes where
  "crash_login = put_le32 0x00200200 @ replicate 28 NUL @ [NUL] @ AppendLenencInt [] 0xFFFFFFFFFFFFFFFF"

lemma crash_login_parts:
  "length crash_login = 42" "readNulString crash_login 32 = Ok ([], 33)"
  "ReadLenencInt crash_login 33 = Ok (0xFFFFFFFFFFFFFFFF, 42)"
  "has_cap (le_uint32 (take 4 crash_login)) ClientProtocol41"
  "has_cap (le_uint32 (take 4 crash_login)) ClientPluginAuthLenencClientData"
proof -
  have enc: "length (AppendLenencInt [] 0xFFFFFFFFFFFFFFFF) = 9" by (simp add: AppendLenencInt_def)
  then show "length crash_login = 42" by (simp add: crash_login_def)
  have "rest_at crash_login 32 (([] @ [NUL]) @ AppendLenencInt [] 0xFFFFFFFFFFFFFFFF)"
    by (simp add: rest_at_def crash_login_def)
  from nul_string.dec_at [OF _ this] show "readNulString crash_login 32 = Ok ([], 33)" by simp
  have "rest_at crash_login 33 (AppendLenencInt [] 0xFFFFFFFFFFFFFFFF @ [])"
    by (simp add: rest_at_def crash_login_def)
  from lenenc.dec_at [OF TrueI this] enc show "ReadLenencInt crash_login 33 = Ok (0xFFFFFFFFFFFFFFFF, 42)" by simp
  have "take 4 crash_login = put_le32 0x00200200" by (simp add: crash_login_def)
  then show "has_cap (le_uint32 (take 4 crash_login)) ClientProtocol41"
    and "has_cap (le_uint32 (take 4 crash_login)) ClientPluginAuthLenencClientData"
    by (simp_all add: has_cap_def ClientProtocol41_def ClientPluginAuthLenencClientData_def)
qed

lemma crash_login_Panic: "ParseHandshakeResponse41 crash_login = Panic"
  using ParseHandshakeResponse41_Panic_iff [of crash_login] crash_login_parts by auto

text \<open>The parser of a client's login panics exactly on packets that announce authentication data of
  a length that overflows the position: the check against the packet's size then compares a negative
  number, and the slice that follows is out of range.\<close>

theorem handshake_response_panics:
  assumes "length b < 2 ^ 63"
  shows "ParseHandshakeResponse41 b = Panic \<longleftrightarrow>
     32 \<le> length b \<and> has_cap (le_uint32 (take 4 b)) ClientProtocol41
     \<and> has_cap (le_uint32 (take 4 b)) ClientPluginAuthLenencClientData
     \<and> (\<exists>user pos n pos'. readNulString b 32 = Ok (user, pos) \<and> ReadLenencInt b pos = Ok (n, pos')
          \<and> 2 ^ 63 \<le> unat n + pos')"
  using assms by (rule ParseHandshakeResponse41_Panic_iff)

theorem handshake_response_panics_witness:
  "length crash_login < 2 ^ 63 \<and> ParseHandshakeResponse41 crash_login = Panic"
proof -
  have "length crash_login < 2 ^ 63" by (simp add: crash_login_parts)
  then show ?thesis
    using handshake_response_panics [of crash_login] crash_login_parts by auto
qed

section \<open>Error packets and scrambles\<close>

lemma ParseERRPacket_Encode:
  assumes "length sqlState = 5"
  shows "ParseERRPacket (EncodeERRPacket code sqlState msg) =
     Ok (''ERROR '' @ Itoa (uint code) @ '' ('' @ sqlState @ ''): '' @ msg)"
proof -
  let ?b = "EncodeERRPacket code sqlState msg"
  have at: "rest_at ?b 0 ([ErrPacketHeader] @ put_le16 code @ CHR ''#'' # sqlState @ msg)"
    using assms by (simp add: EncodeERRPacket_def rest_at_def)
  have n: "1 + 2 = (3 :: nat)" "3 + 1 = (4 :: nat)" "4 + 5 = (9 :: nat)" by simp_all
  have at1: "rest_at ?b 1 (put_le16 code @ CHR ''#'' # sqlState @ msg)" using rest_at_next [OF at, of 1] by simp
  note at3 = rest_at_next [OF at1, of 2, unfolded n length_put, OF refl]
  note at4 = rest_at_Cons [OF at3, unfolded n]
  note at9 = rest_at_next [OF conjunct2 [OF conjunct2 [OF at4]], of 5, unfolded n, OF assms [symmetric]]
  have "slice ?b 1 3 = Ok (put_le16 code)" "slice ?b 4 9 = Ok sqlState"
    using rest_at_slice [OF at1, of 2, unfolded n] rest_at_slice [OF conjunct2 [OF conjunct2 [OF at4]], of 5, unfolded n] assms
    by simp_all
  moreover have "slice ?b 9 (length ?b) = Ok msg" 
    using rest_at_slice [of ?b 9 msg "[]"] rest_at_length [OF at9] at9 by simp
  moreover have "?b ! 0 = ErrPacketHeader" using rest_at_Cons [of ?b 0] at by auto
  moreover have "?b ! 3 = CHR ''#''" "9 \<le> length ?b" using at4 rest_at_length [OF at9] by auto
  ultimately show ?thesis by (simp add: ParseERRPacket_def)
qed

lemma xor_bytes_cancel: "length a \<le> length b \<Longrightarrow> xor_bytes (xor_bytes a b) b = a"
proof (induction a arbitrary: b)
  case (Cons x a)
  then obtain y ys where b: "b = y # ys" by (cases b) auto
  have "(u8_of x XOR u8_of y) XOR u8_of y = u8_of x" by (simp add: xor.assoc)
  with Cons b show ?case by (simp add: xor_bytes_def)
qed (simp add: xor_bytes_def)

lemma length_xor_bytes [simp]: "length (xor_bytes a b) = min (length a) (length b)"
  by (simp add: xor_bytes_def)

text \<open>How a MySQL server checks a response against the hash it stores for the user.\<close>

definition native_check :: "bytes \<Rightarrow> bytes \<Rightarrow> bytes \<Rightarrow> bool" where
  "native_check stored salt resp \<longleftrightarrow> sha1Sum (xor_bytes resp (sha1Sum (salt @ stored))) = stored"

definition caching_check :: "bytes \<Rightarrow> bytes \<Rightarrow> bytes \<Rightarrow> bool" where
  "caching_check stored salt resp \<longleftrightarrow> sha256Sum (xor_bytes resp (sha256Sum (stored @ salt))) = stored"

text \<open>C38. The scrambles are what a server accepts: for a non-empty password and a 20-byte salt, the
  response passes the server's check against the stored double hash of that password, has the length
  of the digest, and depends on nothing behind the salt's twenty bytes.\<close>

theorem scrambles_verify:
  assumes "password \<noteq> []" and "length salt = 20"
  shows "native_check (sha1Sum (sha1Sum password)) salt (ScrambleNativePassword password (salt @ x))
     \<and> caching_check (sha256Sum (sha256Sum password)) salt (ScrambleCachingSHA2Password password (salt @ x))
     \<and> length (ScrambleNativePassword password (salt @ x)) = 20
     \<and> length (ScrambleCachingSHA2Password password (salt @ x)) = 32"
proof -
  have "(if length (salt @ x) > 20 then take 20 (salt @ x) else salt @ x) = salt" using assms(2) by auto
  with assms(1) show ?thesis
    by (simp add: ScrambleNativePassword_def ScrambleCachingSHA2Password_def native_check_def
        caching_check_def xor_bytes_cancel Let_def)
qed

theorem scrambles_verify_witness:
  "native_check (sha1Sum (sha1Sum ''secret'')) (replicate 20 (CHR ''s'')) (ScrambleNativePassword ''secret'' (replicate 20 (CHR ''s'')))
   \<and> length (ScrambleCachingSHA2Password ''secret'' (replicate 20 (CHR ''s''))) = 32"
  using scrambles_verify [of "''secret''" "replicate 20 (CHR ''s'')" "[]"] by simp

end
