(* ===== verification/MysqlAuth.thy ===== *)
theory MysqlAuth
  imports MysqlWire
begin

text \<open>
  \<open>internal/proxy/mysqlauth.go\<close>: the login on a MySQL upstream. The greeting is read, the link is
  upgraded to TLS if the target requires it, the login is sent, and a loop answers authentication
  switches and the two forms of \<open>caching_sha2_password\<close> until the server accepts or rejects.

  A login that succeeds has read an OK packet; what it has sent is the login and answers that do not
  reveal the password unless the link is encrypted. The loop ends because every round reads a packet.
\<close>

definition authMoreDataHeader :: byte where "authMoreDataHeader = CHR 0x01"
definition authSwitchRequestEOF :: byte where "authSwitchRequestEOF = CHR 0xFE"
definition cachingSHA2FastSuccess :: byte where "cachingSHA2FastSuccess = CHR 0x03"
definition cachingSHA2FullAuth :: byte where "cachingSHA2FullAuth = CHR 0x04"
definition cachingSHA2RequestKey :: byte where "cachingSHA2RequestKey = CHR 0x02"

definition mysqlUpstreamCaps :: "u32 \<Rightarrow> bool \<Rightarrow> u32" where
  "mysqlUpstreamCaps serverCaps withDB =
     (let desired = ClientLongPassword OR ClientLongFlag OR ClientProtocol41 OR ClientTransactions
            OR ClientSecureConnection OR ClientPluginAuth OR ClientPluginAuthLenencClientData
            OR ClientDeprecateEOF;
          caps = desired AND serverCaps;
          caps = caps OR (ClientProtocol41 OR ClientSecureConnection OR ClientPluginAuth)
      in if withDB then caps OR ClientConnectWithDB else caps)"

definition mysqlAuthResponse :: "string \<Rightarrow> string \<Rightarrow> bytes \<Rightarrow> bytes res" where
  "mysqlAuthResponse plugin password salt =
     (if plugin = MySQLNativePassword \<or> plugin = [] then Ok (ScrambleNativePassword password salt)
      else if plugin = CachingSHA2Password then Ok (ScrambleCachingSHA2Password password salt)
      else Err (Errorf ''unsupported auth plugin %q'' [AStr plugin]))"

section \<open>caching_sha2_password\<close>

definition firstByte :: "bytes \<Rightarrow> byte" where
  "firstByte b = (if b = [] then NUL else b ! 0)"

definition parseRSAPublicKey :: "'c env \<Rightarrow> bytes \<Rightarrow> bytes res" where
  "parseRSAPublicKey env pemData =
     (case env_pem_decode env (trim_right_NUL pemData) of
        None \<Rightarrow> Err (Errorf ''caching_sha2 RSA: invalid PEM public key'' [])
      | Some block \<Rightarrow>
          bindR (wrapR (\<lambda>e. Errorf ''caching_sha2 RSA: parse public key: %w'' [AWrap e]) (env_parse_pkix env block))
            (\<lambda>key. case key of
                RSAKey k \<Rightarrow> Ok k
              | OtherKey _ \<Rightarrow> Err (Errorf ''caching_sha2 RSA: not an RSA public key'' [])))"

definition obfuscate :: "bytes \<Rightarrow> bytes \<Rightarrow> bytes" where
  "obfuscate plain salt =
     map (\<lambda>i. byte_of (u8_of (plain ! i) XOR u8_of (salt ! (i mod length salt)))) [0..<length plain]"

definition encryptCachingSHA2Password :: "'c env \<Rightarrow> string \<Rightarrow> bytes \<Rightarrow> bytes \<Rightarrow> bytes res" where
  "encryptCachingSHA2Password env password salt pub =
     (if salt = [] then Err (Errorf ''caching_sha2 RSA: empty nonce'' [])
      else env_oaep env pub (obfuscate (password @ [NUL]) salt))"

definition mysqlCachingSHA2RSA :: "'c env \<Rightarrow> u8 \<Rightarrow> string \<Rightarrow> bytes \<Rightarrow> (conn, u8) io" where
  "mysqlCachingSHA2RSA env seq password salt =
     bindIO (wrapIO ''request public key: %w'' (WritePacket seq [cachingSHA2RequestKey])) (\<lambda>_.
     bindIO (wrapIO ''read public key: %w'' ReadPacket) (\<lambda>(rseq, payload).
       if length payload < 1 \<or> payload ! 0 \<noteq> authMoreDataHeader
       then errIO (Errorf ''expected public key AuthMoreData, got 0x%02x'' [AByte (firstByte payload)])
       else
         bindIO (liftIO (parseRSAPublicKey env (drop 1 payload))) (\<lambda>pub.
         bindIO (liftIO (encryptCachingSHA2Password env password salt pub)) (\<lambda>enc.
           wrapIO ''write encrypted password: %w'' (WritePacket (u8_of rseq + 1) enc)))))"

definition mysqlCachingSHA2More :: "'c env \<Rightarrow> u8 \<Rightarrow> bytes \<Rightarrow> string \<Rightarrow> bytes \<Rightarrow> bool \<Rightarrow> (conn, u8) io" where
  "mysqlCachingSHA2More env seq payload password salt secure =
     (if length payload < 2 then errIO (Errorf ''short caching_sha2 AuthMoreData'' [])
      else if payload ! 1 = cachingSHA2FastSuccess then retIO seq
      else if payload ! 1 = cachingSHA2FullAuth then
        (if password = [] then WritePacket seq [NUL]
         else if secure then WritePacket seq (password @ [NUL])
         else mysqlCachingSHA2RSA env seq password salt)
      else errIO (Errorf ''unexpected caching_sha2 marker 0x%02x'' [AByte (payload ! 1)]))"

section \<open>The authentication loop\<close>

text \<open>One round of the loop: \<open>None\<close> if the login is accepted, otherwise the plugin and the salt of the
  next round. The sequence id of the next packet always follows from the packet just read.\<close>

definition auth_round ::
  "'c env \<Rightarrow> string \<Rightarrow> string \<Rightarrow> bytes \<Rightarrow> bool \<Rightarrow> (conn, (string \<times> bytes) option) io" where
  "auth_round env plugin password salt secure =
     bindIO (wrapIO ''read auth result: %w'' ReadPacket) (\<lambda>(rseq, payload).
       let seq = u8_of rseq + 1 in
       if length payload = 0 then errIO (Errorf ''empty auth packet'' [])
       else if payload ! 0 = OKPacketHeader then retIO None
       else if payload ! 0 = ErrPacketHeader then
         bindIO (liftIO (ParseERRPacket payload)) (\<lambda>msg.
           errIO (Errorf ''upstream auth failed: %s'' [AStr msg]))
       else if payload ! 0 = authSwitchRequestEOF then
         bindIO (liftIO (wrapR (\<lambda>e. Errorf ''auth switch: %w'' [AWrap e]) (readNulString payload 1))) (\<lambda>(newPlugin, np).
         bindIO (liftIO (slice payload np (length payload))) (\<lambda>rest.
           let newSalt = trim_right_NUL rest in
           bindIO (liftIO (mysqlAuthResponse newPlugin password newSalt)) (\<lambda>authResp.
           bindIO (wrapIO ''write auth switch response: %w'' (WritePacket seq authResp)) (\<lambda>_.
             retIO (Some (newPlugin, newSalt))))))
       else if payload ! 0 = authMoreDataHeader then
         (if plugin \<noteq> CachingSHA2Password
          then errIO (Errorf ''unexpected AuthMoreData for plugin %q'' [AStr plugin])
          else bindIO (mysqlCachingSHA2More env seq payload password salt secure) (\<lambda>_.
                 retIO (Some (plugin, salt))))
       else errIO (Errorf ''unexpected auth packet header 0x%02x'' [AByte (payload ! 0)]))"

text \<open>Every round that returns has read a packet.\<close>

lemma mysqlCachingSHA2RSA_cin:
  "mysqlCachingSHA2RSA env seq password salt c = (Ok s, c') \<Longrightarrow> length (cin c') \<le> length (cin c)"
  by (auto simp: mysqlCachingSHA2RSA_def bindIO_eq_Ok_iff wrapIO_eq_Ok_iff WritePacket_Ok_iff
      dest!: ReadPacket_OkD(1) split: if_splits)

lemma mysqlCachingSHA2More_cin:
  "mysqlCachingSHA2More env seq payload password salt secure c = (Ok s, c') \<Longrightarrow> length (cin c') \<le> length (cin c)"
  by (auto simp: mysqlCachingSHA2More_def WritePacket_Ok_iff dest: mysqlCachingSHA2RSA_cin split: if_splits)

lemma auth_round_cin:
  "auth_round env plugin password salt secure c = (Ok x, c') \<Longrightarrow> length (cin c') < length (cin c)"
  by (auto simp: auth_round_def bindIO_eq_Ok_iff wrapIO_eq_Ok_iff WritePacket_Ok_iff Let_def
      dest!: ReadPacket_OkD(1) mysqlCachingSHA2More_cin split: if_splits)

function mysqlFinishAuth :: "'c env \<Rightarrow> string \<Rightarrow> string \<Rightarrow> bytes \<Rightarrow> bool \<Rightarrow> (conn, unit) io" where
  "mysqlFinishAuth env plugin password salt secure c =
     (case auth_round env plugin password salt secure c of
        (Ok None, c') \<Rightarrow> (Ok (), c')
      | (Ok (Some (plugin', salt')), c') \<Rightarrow> mysqlFinishAuth env plugin' password salt' secure c'
      | (Err e, c') \<Rightarrow> (Err e, c')
      | (Panic, c') \<Rightarrow> (Panic, c'))"
  by pat_completeness auto

termination mysqlFinishAuth
  by (relation "measure (\<lambda>(env, plugin, password, salt, secure, c). length (cin c))") (auto dest: auth_round_cin [OF sym])

declare mysqlFinishAuth.simps [simp del]

section \<open>AuthenticateUpstreamMySQL\<close>

text \<open>The variable \<open>conn\<close> is the state: \<open>conn = tlsConn\<close> replaces it, and the connection that the
  function returns is the state it ends in. \<open>tlsConfig\<close> is the server name it holds, if there is one.\<close>

definition use_conn :: "conn \<Rightarrow> (conn, unit) io" where
  "use_conn c' c = (Ok (), c')"

definition mysql_tls :: "'c env \<Rightarrow> u8 \<Rightarrow> HandshakeV10 \<Rightarrow> u32 \<Rightarrow> string \<Rightarrow> (conn, u8 \<times> u32) io" where
  "mysql_tls env seq hs caps serverName =
     (if \<not> has_cap (hv_Capabilities hs) ClientSSL
      then errIO (Errorf ''upstream does not support TLS but sslmode=require'' [])
      else let caps = caps OR ClientSSL in
        bindIO (wrapIO ''write SSLRequest: %w'' (WritePacket (seq + 1) (EncodeSSLRequest caps DefaultCharsetUTF8MB4))) (\<lambda>seq.
        bindIO (\<lambda>c. wrapIO ''upstream TLS handshake: %w'' (liftIO (env_tls env serverName c)) c) (\<lambda>tlsConn.
        bindIO (use_conn tlsConn) (\<lambda>_. retIO (seq, caps)))))"

definition mysql_plugin :: "HandshakeV10 \<Rightarrow> string" where
  "mysql_plugin hs = (if hv_AuthPluginName hs = [] then MySQLNativePassword else hv_AuthPluginName hs)"

definition AuthenticateUpstreamMySQL ::
  "'c env \<Rightarrow> string \<Rightarrow> string \<Rightarrow> string \<Rightarrow> bool \<Rightarrow> string option \<Rightarrow> (conn, HandshakeV10 \<times> u32) io" where
  "AuthenticateUpstreamMySQL env user password database secure tlsConfig =
     bindIO (wrapIO ''read handshake: %w'' ReadPacket) (\<lambda>(rseq, payload).
       if IsErrPacket payload then
         bindIO (liftIO (ParseERRPacket payload)) (\<lambda>msg.
           errIO (Errorf ''upstream rejected connection: %s'' [AStr msg]))
       else
         bindIO (liftIO (ParseHandshakeV10 payload)) (\<lambda>hs.
         let seq = u8_of rseq; plugin = mysql_plugin hs;
             caps = mysqlUpstreamCaps (hv_Capabilities hs) (database \<noteq> []) in
         bindIO (case tlsConfig of
                   Some serverName \<Rightarrow> mysql_tls env seq hs caps serverName
                 | None \<Rightarrow> retIO (seq + 1, caps)) (\<lambda>(seq, caps).
         bindIO (liftIO (mysqlAuthResponse plugin password (hv_AuthPluginData hs))) (\<lambda>authResp.
         bindIO (wrapIO ''write handshake response: %w''
                   (WritePacket seq (EncodeHandshakeResponse41 caps DefaultCharsetUTF8MB4 user authResp database plugin))) (\<lambda>_.
         bindIO (mysqlFinishAuth env plugin password (hv_AuthPluginData hs) (secure \<or> tlsConfig \<noteq> None)) (\<lambda>_.
           retIO (hs, caps)))))))"

section \<open>What a successful login has read and sent\<close>

text \<open>The packets read from a stream.\<close>

primrec received :: "(byte \<times> bytes) list \<Rightarrow> bytes \<Rightarrow> bytes \<Rightarrow> bool" where
  "received [] i i' \<longleftrightarrow> i = i'"
| "received (m # ms) i i' \<longleftrightarrow> (\<exists>j. ReadPacket (fresh_conn i) = (Ok m, fresh_conn j) \<and> received ms j i')"

text \<open>The packets written, in order, with the sequence ids of their first frames.\<close>

definition sent_packets :: "(u8 \<times> bytes) list \<Rightarrow> bytes" where
  "sent_packets qs = concat (map (\<lambda>(seq, p). packet_bytes seq p) qs)"

text \<open>The answers the loop can give: a scramble of the password for a plugin the proxy knows, a request
  for the server's key, the password encrypted under a key, nothing but NUL for the empty password,
  and the password itself only on an encrypted link.\<close>

definition auth_reply :: "'c env \<Rightarrow> string \<Rightarrow> bool \<Rightarrow> bytes \<Rightarrow> bool" where
  "auth_reply env password secure q \<longleftrightarrow>
     (\<exists>plugin salt. mysqlAuthResponse plugin password salt = Ok q)
     \<or> q = [cachingSHA2RequestKey]
     \<or> (\<exists>salt pub. encryptCachingSHA2Password env password salt pub = Ok q)
     \<or> (password = [] \<and> q = [NUL])
     \<or> (secure \<and> q = password @ [NUL])"

lemma received_append: "received (ms @ ns) i k \<longleftrightarrow> (\<exists>j. received ms i j \<and> received ns j k)"
  by (induction ms arbitrary: i) auto

lemma sent_packets_append: "sent_packets (ps @ qs) = sent_packets ps @ sent_packets qs"
  by (simp add: sent_packets_def)

definition exchange :: "conn \<Rightarrow> conn \<Rightarrow> (byte \<times> bytes) list \<Rightarrow> (u8 \<times> bytes) list \<Rightarrow> bool" where
  "exchange c c' ms qs \<longleftrightarrow> received ms (cin c) (cin c') \<and> cout c' = cout c @ sent_packets qs"

lemma exchange_trans:
  "exchange c c1 ms qs \<Longrightarrow> exchange c1 c2 ms' qs' \<Longrightarrow> exchange c c2 (ms @ ms') (qs @ qs')"
  by (auto simp: exchange_def received_append sent_packets_append)

lemma exchange_read: "ReadPacket c = (Ok m, c') \<Longrightarrow> exchange c c' [m] []"
  using ReadPacket_OkD [of c m c'] by (auto simp: exchange_def sent_packets_def)

lemma exchange_write: "WritePacket seq p c = (Ok s, c') \<Longrightarrow> exchange c c' [] [(seq, p)]"
  by (auto simp: WritePacket_Ok_iff exchange_def sent_packets_def)

definition replies :: "'c env \<Rightarrow> string \<Rightarrow> bool \<Rightarrow> (u8 \<times> bytes) list \<Rightarrow> bool" where
  "replies env password secure qs \<longleftrightarrow> list_all (\<lambda>q. auth_reply env password secure (snd q)) qs"

lemma replies_simps [simp]:
  "replies env pw s []" "replies env pw s (q # qs) \<longleftrightarrow> auth_reply env pw s (snd q) \<and> replies env pw s qs"
  "replies env pw s (ps @ qs) \<longleftrightarrow> replies env pw s ps \<and> replies env pw s qs"
  by (simp_all add: replies_def)

lemma mysqlCachingSHA2RSA_exchange:
  assumes "mysqlCachingSHA2RSA env seq password salt c = (Ok s, c')"
  shows "\<exists>ms qs. exchange c c' ms qs \<and> replies env password secure qs"
proof -
  from assms obtain s1 c1 m c2 pub enc seq' where
    w: "WritePacket seq [cachingSHA2RequestKey] c = (Ok s1, c1)" and r: "ReadPacket c1 = (Ok m, c2)"
    and enc: "encryptCachingSHA2Password env password salt pub = Ok enc" and w2: "WritePacket seq' enc c2 = (Ok s, c')"
    by (auto simp: mysqlCachingSHA2RSA_def bindIO_eq_Ok_iff wrapIO_eq_Ok_iff split: if_splits)
  have "exchange c c' ([] @ [m] @ []) ([(seq, [cachingSHA2RequestKey])] @ [] @ [(seq', enc)])"
    using exchange_write [OF w] exchange_read [OF r] exchange_write [OF w2] by (blast intro: exchange_trans)
  moreover have "replies env password secure ([(seq, [cachingSHA2RequestKey])] @ [] @ [(seq', enc)])"
    using enc by (auto simp: auth_reply_def)
  ultimately show ?thesis by blast
qed

lemma mysqlCachingSHA2More_exchange:
  assumes "mysqlCachingSHA2More env seq payload password salt secure c = (Ok s, c')"
  shows "\<exists>ms qs. exchange c c' ms qs \<and> replies env password secure qs"
proof -
  consider "c' = c" | "password = []" "WritePacket seq [NUL] c = (Ok s, c')"
    | "secure" "WritePacket seq (password @ [NUL]) c = (Ok s, c')"
    | "mysqlCachingSHA2RSA env seq password salt c = (Ok s, c')"
    using assms by (auto simp: mysqlCachingSHA2More_def split: if_splits)
  then show ?thesis
  proof cases
    case 1
    then have "exchange c c' [] []" by (simp add: exchange_def sent_packets_def)
    then show ?thesis by (intro exI) auto
  next
    case 2
    then have "exchange c c' [] [(seq, [NUL])]" "replies env password secure [(seq, [NUL])]"
      using exchange_write by (auto simp: auth_reply_def)
    then show ?thesis by blast
  next
    case 3
    then have "exchange c c' [] [(seq, password @ [NUL])]" "replies env password secure [(seq, password @ [NUL])]"
      using exchange_write by (auto simp: auth_reply_def)
    then show ?thesis by blast
  qed (rule mysqlCachingSHA2RSA_exchange)
qed

lemma auth_round_exchange:
  assumes "auth_round env plugin password salt secure c = (Ok x, c')"
  shows "\<exists>m ms qs. exchange c c' (m # ms) qs \<and> replies env password secure qs
     \<and> (x = None \<longrightarrow> IsOKPacket (snd m) \<and> ms = [])"
proof -
  from assms obtain rseq payload c1 where r: "ReadPacket c = (Ok (rseq, payload), c1)"
    by (auto simp: auth_round_def bindIO_eq_Ok_iff wrapIO_eq_Ok_iff)
  note x = exchange_read [OF r]
  consider (ok) "x = None" "IsOKPacket payload" "c' = c1"
    | (switch) p sl q seq s where "x = Some (p, sl)" "mysqlAuthResponse p password sl = Ok q" "WritePacket seq q c1 = (Ok s, c')"
    | (more) y seq s where "x = Some y" "mysqlCachingSHA2More env seq payload password salt secure c1 = (Ok s, c')"
    using assms r by (auto simp: auth_round_def bindIO_eq_Ok_iff wrapIO_eq_Ok_iff Let_def IsOKPacket_def split: if_splits)
  then show ?thesis
  proof cases
    case ok
    with x show ?thesis by (intro exI [of _ "(rseq, payload)"] exI [of _ "[]"]) simp
  next
    case (switch p sl q seq s)
    with exchange_trans [OF x exchange_write [OF switch(3)]] show ?thesis
      by (intro exI [of _ "(rseq, payload)"] exI [of _ "[]"] exI [of _ "[(seq, q)]"]) (auto simp: auth_reply_def)
  next
    case (more y seq s)
    from mysqlCachingSHA2More_exchange [OF more(2)] obtain ms qs where
      "exchange c1 c' ms qs" "replies env password secure qs" by blast
    with exchange_trans [OF x this(1)] more(1) show ?thesis by auto
  qed
qed

lemma mysqlFinishAuth_exchange:
  "mysqlFinishAuth env plugin password salt secure c = (Ok (), c') \<Longrightarrow>
   \<exists>ms m qs. exchange c c' (ms @ [m]) qs \<and> replies env password secure qs \<and> IsOKPacket (snd m)"
proof (induction env plugin password salt secure c rule: mysqlFinishAuth.induct)
  case (1 env plugin password salt secure c)
  from "1.prems" obtain x c1 where r: "auth_round env plugin password salt secure c = (Ok x, c1)"
    by (subst (asm) mysqlFinishAuth.simps) (auto split: prod.splits res.splits)
  from auth_round_exchange [OF r] obtain m ms qs where
    e: "exchange c c1 (m # ms) qs" "replies env password secure qs" "x = None \<longrightarrow> IsOKPacket (snd m) \<and> ms = []" by blast
  show ?case
  proof (cases x)
    case None
    with "1.prems" r have "c' = c1" by (subst (asm) mysqlFinishAuth.simps) simp
    with e None show ?thesis by (intro exI [of _ "[]"] exI [of _ m] exI [of _ qs]) simp
  next
    case (Some y)
    obtain p sl where y: "y = (p, sl)" by (cases y)
    with "1.prems" r Some have rec: "mysqlFinishAuth env p password sl secure c1 = (Ok (), c')"
      by (subst (asm) mysqlFinishAuth.simps) simp
    from "1.IH" r Some y rec obtain ms' m' qs' where
      e2: "exchange c1 c' (ms' @ [m']) qs'" "replies env password secure qs'" "IsOKPacket (snd m')" by fastforce
    have "exchange c c' ((m # ms @ ms') @ [m']) (qs @ qs')" using exchange_trans [OF e(1) e2(1)] by simp
    with e(2) e2(2,3) show ?thesis by (intro exI [of _ "m # ms @ ms'"] exI [of _ m'] exI [of _ "qs @ qs'"]) simp
  qed
qed

text \<open>The link the login goes over: the connection itself, or the TLS stream that the server agreed to,
  after nothing but the request for it has gone out in clear.\<close>

definition mysql_link :: "'c env \<Rightarrow> HandshakeV10 \<Rightarrow> string option \<Rightarrow> bool \<Rightarrow> conn \<Rightarrow> u32 \<Rightarrow> conn \<Rightarrow> bool" where
  "mysql_link env hs tlsConfig withDB c caps c' \<longleftrightarrow>
     (case tlsConfig of
        None \<Rightarrow> c' = c \<and> caps = mysqlUpstreamCaps (hv_Capabilities hs) withDB
      | Some serverName \<Rightarrow>
          has_cap (hv_Capabilities hs) ClientSSL
          \<and> caps = mysqlUpstreamCaps (hv_Capabilities hs) withDB OR ClientSSL
          \<and> (\<exists>seq. env_tls env serverName (wrote (packet_bytes seq (EncodeSSLRequest caps DefaultCharsetUTF8MB4)) c) = Ok c'))"

lemma mysql_tls_OkD:
  assumes "mysql_tls env seq hs caps name c = (Ok (seq', caps'), c')"
  shows "has_cap (hv_Capabilities hs) ClientSSL \<and> caps' = caps OR ClientSSL
    \<and> env_tls env name (wrote (packet_bytes (seq + 1) (EncodeSSLRequest caps' DefaultCharsetUTF8MB4)) c) = Ok c'"
  using assms by (auto simp: mysql_tls_def Let_def bindIO_eq_Ok_iff wrapIO_eq_Ok_iff WritePacket_Ok_iff
      use_conn_def split: if_splits)

lemma AuthenticateUpstreamMySQL_OkD:
  assumes "AuthenticateUpstreamMySQL env user password database secure tlsConfig c = (Ok (hs, caps), c')"
  shows "\<exists>g c1 c2 seq auth qs ms m. ReadPacket c = (Ok g, c1) \<and> ParseHandshakeV10 (snd g) = Ok hs
     \<and> mysql_link env hs tlsConfig (database \<noteq> []) c1 caps c2
     \<and> mysqlAuthResponse (mysql_plugin hs) password (hv_AuthPluginData hs) = Ok auth
     \<and> exchange c2 c' (ms @ [m])
         ((seq, EncodeHandshakeResponse41 caps DefaultCharsetUTF8MB4 user auth database (mysql_plugin hs)) # qs)
     \<and> IsOKPacket (snd m) \<and> replies env password (secure \<or> tlsConfig \<noteq> None) qs"
proof -
  let ?caps = "mysqlUpstreamCaps (hv_Capabilities hs) (database \<noteq> [])"
  from assms obtain rseq payload c1 c2 seq auth s1 c3 where
    g: "ReadPacket c = (Ok (rseq, payload), c1)" "ParseHandshakeV10 payload = Ok hs"
    and link: "(case tlsConfig of Some name \<Rightarrow> mysql_tls env (u8_of rseq) hs ?caps name | None \<Rightarrow> retIO (u8_of rseq + 1, ?caps)) c1
       = (Ok (seq, caps), c2)"
    and auth: "mysqlAuthResponse (mysql_plugin hs) password (hv_AuthPluginData hs) = Ok auth"
    and w: "WritePacket seq (EncodeHandshakeResponse41 caps DefaultCharsetUTF8MB4 user auth database (mysql_plugin hs)) c2 = (Ok s1, c3)"
    and f: "mysqlFinishAuth env (mysql_plugin hs) password (hv_AuthPluginData hs) (secure \<or> tlsConfig \<noteq> None) c3 = (Ok (), c')"
    by (auto simp: AuthenticateUpstreamMySQL_def bindIO_eq_Ok_iff wrapIO_eq_Ok_iff Let_def split: if_splits)
  have "mysql_link env hs tlsConfig (database \<noteq> []) c1 caps c2"
    using link by (cases tlsConfig) (auto simp: mysql_link_def dest!: mysql_tls_OkD)
  moreover from mysqlFinishAuth_exchange [OF f] obtain ms m qs where
    e: "exchange c3 c' (ms @ [m]) qs" "replies env password (secure \<or> tlsConfig \<noteq> None) qs" "IsOKPacket (snd m)" by blast
  from exchange_trans [OF exchange_write [OF w] e(1)] have
    "exchange c2 c' (ms @ [m]) ((seq, EncodeHandshakeResponse41 caps DefaultCharsetUTF8MB4 user auth database (mysql_plugin hs)) # qs)"
    by simp
  ultimately show ?thesis
    using g auth e by (intro exI [of _ "(rseq, payload)"] exI [of _ c1] exI [of _ c2] exI [of _ seq] exI [of _ auth]
        exI [of _ qs] exI [of _ ms] exI [of _ m]) simp
qed

text \<open>C16. Success of the MySQL login is justified, and the password is confined. The server's greeting
  was parsed; where TLS is required the server offered it and the login went over the encrypted stream;
  the proxy sent the login packet for the target's user with a scrambled password, and then only
  scrambles, key requests, encryptions of the password or, on an encrypted link and for an empty
  password, what the protocol sends in clear; and the last packet read before success is an OK
  packet.\<close>

theorem AuthenticateUpstreamMySQL_sound:
  assumes "AuthenticateUpstreamMySQL env user password database secure tlsConfig c = (Ok (hs, caps), c')"
  shows "\<exists>g c1 c2 seq auth qs ms m. ReadPacket c = (Ok g, c1) \<and> ParseHandshakeV10 (snd g) = Ok hs
     \<and> mysql_link env hs tlsConfig (database \<noteq> []) c1 caps c2
     \<and> mysqlAuthResponse (mysql_plugin hs) password (hv_AuthPluginData hs) = Ok auth
     \<and> exchange c2 c' (ms @ [m])
         ((seq, EncodeHandshakeResponse41 caps DefaultCharsetUTF8MB4 user auth database (mysql_plugin hs)) # qs)
     \<and> IsOKPacket (snd m) \<and> replies env password (secure \<or> tlsConfig \<noteq> None) qs"
  using assms by (rule AuthenticateUpstreamMySQL_OkD)

lemma mysqlFinishAuth_OK:
  assumes "\<not> cclosed c" and "cin c = packet_bytes seq (OKPacketHeader # x) @ rest"
  shows "mysqlFinishAuth env plugin password salt secure c = (Ok (), c\<lparr>cin := rest\<rparr>)"
proof -
  have "auth_round env plugin password salt secure c = (Ok None, c\<lparr>cin := rest\<rparr>)"
    using ReadPacket_packet_bytes [OF assms] by (simp add: auth_round_def)
  then show ?thesis by (subst mysqlFinishAuth.simps) simp
qed

lemma AuthenticateUpstreamMySQL_Ok:
  assumes hs: "ParseHandshakeV10 greeting = Ok hs" "\<not> IsErrPacket greeting"
    and auth: "mysqlAuthResponse (mysql_plugin hs) password (hv_AuthPluginData hs) = Ok auth"
    and c: "\<not> cclosed c" "ccap c = None"
    and cin: "cin c = packet_bytes 0 greeting @ packet_bytes 2 (OKPacketHeader # x) @ rest"
    and small: "length greeting < MaxPacketPayload"
    and caps: "caps = mysqlUpstreamCaps (hv_Capabilities hs) (database \<noteq> [])"
    and login: "login = EncodeHandshakeResponse41 caps DefaultCharsetUTF8MB4 user auth database (mysql_plugin hs)"
  shows "AuthenticateUpstreamMySQL env user password database secure None c =
     (Ok (hs, caps), wrote (packet_bytes 1 login) (c\<lparr>cin := rest\<rparr>))"
proof -
  have byte_0: "byte_of 0 = NUL" by code_simp
  let ?c1 = "c\<lparr>cin := packet_bytes 2 (OKPacketHeader # x) @ rest\<rparr>"
  have r: "ReadPacket c = (Ok (NUL, greeting), ?c1)"
    using ReadPacket_packet_bytes [OF c(1) cin] small byte_0 by simp
  have "\<exists>s. WritePacket 1 login ?c1 = (Ok s, wrote (packet_bytes 1 login) ?c1)"
    using c by (simp add: WritePacket_Ok_iff can_write_def)
  then obtain s where w: "WritePacket 1 login ?c1 = (Ok s, wrote (packet_bytes 1 login) ?c1)" ..
  have f: "mysqlFinishAuth env (mysql_plugin hs) password (hv_AuthPluginData hs) secure (wrote (packet_bytes 1 login) ?c1)
      = (Ok (), wrote (packet_bytes 1 login) (c\<lparr>cin := rest\<rparr>))"
    using mysqlFinishAuth_OK [of "wrote (packet_bytes 1 login) ?c1" 2 x rest] c(1) by (simp add: wrote_cin)
  have "u8_of NUL = 0" by (simp add: u8_of_def)
  then show ?thesis
    using r hs auth w f by (simp add: AuthenticateUpstreamMySQL_def Let_def caps [symmetric] login [symmetric])
qed

text \<open>Against a server that greets and accepts, the login succeeds: it sends exactly the login packet,
  as the packet that follows the greeting, and leaves the stream right behind the OK packet.\<close>

theorem AuthenticateUpstreamMySQL_complete:
  assumes "ParseHandshakeV10 greeting = Ok hs" "\<not> IsErrPacket greeting" and "length greeting < MaxPacketPayload"
    and "mysqlAuthResponse (mysql_plugin hs) password (hv_AuthPluginData hs) = Ok auth"
    and "\<not> cclosed c" and "ccap c = None"
    and "cin c = packet_bytes 0 greeting @ packet_bytes 2 (OKPacketHeader # x) @ rest"
  shows "\<exists>caps. caps = mysqlUpstreamCaps (hv_Capabilities hs) (database \<noteq> [])
     \<and> AuthenticateUpstreamMySQL env user password database secure None c =
         (Ok (hs, caps), wrote (packet_bytes 1
            (EncodeHandshakeResponse41 caps DefaultCharsetUTF8MB4 user auth database (mysql_plugin hs))) (c\<lparr>cin := rest\<rparr>))"
  using AuthenticateUpstreamMySQL_Ok [OF assms(1,2,4,5,6,7,3) refl refl] by blast

text \<open>A server that greets and accepts.\<close>

definition mysql_env :: "nat env" where
  "mysql_env =
     \<lparr>env_isPrint = (\<lambda>_. True), env_dial = (\<lambda>_. Err (SysErr ''connection refused'')),
      env_tls = (\<lambda>_ c. Ok c), env_scram_new = (\<lambda>u p. Ok 0), env_scram_step = (\<lambda>k m. (Ok [], Suc k)),
      env_scram_valid = (\<lambda>k. True), env_rand = (\<lambda>n. Ok (replicate n (CHR 0x07))),
      env_pem_decode = (\<lambda>b. Some b), env_parse_pkix = (\<lambda>b. Ok (RSAKey b)), env_oaep = (\<lambda>k m. Ok m),
      env_f2i = (\<lambda>_. 0), env_now = (\<lambda>_. 0), env_toLower = (\<lambda>r. r), env_remote = ''127.0.0.1:50000'', env_goos = ''linux'',
      env_buffered = 0, env_copy = (0, 0)\<rparr>"

definition sample_greeting :: bytes where
  "sample_greeting = EncodeHandshakeV10 ''8.0.36'' 7 0x01088200 (CHR 0x2D) 2 MySQLNativePassword (replicate 20 (CHR ''s''))"

definition sample_hs :: HandshakeV10 where
  "sample_hs = \<lparr>hv_ProtocolVersion = ProtocolVersion10, hv_ServerVersion = ''8.0.36'', hv_ConnectionID = 7,
     hv_AuthPluginData = replicate 20 (CHR ''s''), hv_Capabilities = 0x01088200, hv_CharacterSet = CHR 0x2D,
     hv_StatusFlags = 2, hv_AuthPluginName = MySQLNativePassword\<rparr>"

definition sample_mysql_upstream :: conn where
  "sample_mysql_upstream = fresh_conn (packet_bytes 0 sample_greeting @ packet_bytes 2 [OKPacketHeader] @ ''Z'')"

lemma sample_mysql_login:
  shows "ParseHandshakeV10 sample_greeting = Ok sample_hs" and "\<not> IsErrPacket sample_greeting"
    and "length sample_greeting < MaxPacketPayload"
    and "mysqlAuthResponse (mysql_plugin sample_hs) password (hv_AuthPluginData sample_hs) =
      Ok (ScrambleNativePassword password (replicate 20 (CHR ''s'')))"
    and "\<not> cclosed sample_mysql_upstream" and "ccap sample_mysql_upstream = None"
    and "cin sample_mysql_upstream = packet_bytes 0 sample_greeting @ packet_bytes 2 [OKPacketHeader] @ ''Z''"
proof -
  show "ParseHandshakeV10 sample_greeting = Ok sample_hs"
    unfolding sample_greeting_def sample_hs_def
    by (rule ParseHandshakeV10_Encode)
      (simp_all add: MySQLNativePassword_def has_cap_def ClientPluginAuth_def ClientSecureConnection_def)
qed (simp_all add: sample_greeting_def sample_hs_def sample_mysql_upstream_def fresh_conn_def mysql_plugin_def
    IsErrPacket_def EncodeHandshakeV10_def ProtocolVersion10_def ErrPacketHeader_def MaxPacketPayload_def
    MySQLNativePassword_def mysqlAuthResponse_def)

theorem AuthenticateUpstreamMySQL_complete_witness:
  "\<exists>c'. AuthenticateUpstreamMySQL mysql_env ''app'' ''secret'' ''shop'' False None sample_mysql_upstream =
     (Ok (sample_hs, mysqlUpstreamCaps 0x01088200 True), c') \<and> cin c' = ''Z''"
  using AuthenticateUpstreamMySQL_complete [OF sample_mysql_login, where database = "''shop''" and env = mysql_env]
  by (auto simp: sample_hs_def)

theorem AuthenticateUpstreamMySQL_sound_witness:
  "\<exists>caps c' ms m qs c2. AuthenticateUpstreamMySQL mysql_env ''app'' ''secret'' ''shop'' False None sample_mysql_upstream =
     (Ok (sample_hs, caps), c') \<and> exchange c2 c' (ms @ [m]) qs \<and> IsOKPacket (snd m)"
proof -
  obtain caps c' where "AuthenticateUpstreamMySQL mysql_env ''app'' ''secret'' ''shop'' False None sample_mysql_upstream =
     (Ok (sample_hs, caps), c')"
    using AuthenticateUpstreamMySQL_Ok [OF sample_mysql_login(1,2,4-7,3) refl refl] by blast
  from AuthenticateUpstreamMySQL_sound [OF this] this show ?thesis by blast
qed

end
