(* ===== verification/MysqlServer.thy ===== *)
theory MysqlServer
  imports Handler MysqlAuth
begin

text \<open>
  \<open>internal/proxy/mysqlclient.go\<close> and \<open>internal/proxy/mysqlserver.go\<close>: the MySQL handler. It greets
  the client, reads its login, routes by database, logs in to the upstream and only then accepts the
  client; the command phase is relayed.
\<close>

section \<open>Greeting a client\<close>

definition serverStatusAutocommit :: u16 where "serverStatusAutocommit = 0x0002"

definition mysqlProxyClientCaps :: u32 where
  "mysqlProxyClientCaps =
     ClientLongPassword OR ClientLongFlag OR ClientProtocol41 OR ClientTransactions OR ClientSecureConnection
       OR ClientPluginAuth OR ClientPluginAuthLenencClientData OR ClientConnectWithDB OR ClientDeprecateEOF"

definition newMySQLSalt :: "'c env \<Rightarrow> bytes res" where
  "newMySQLSalt env =
     bindR (wrapR (\<lambda>e. Errorf ''generate salt: %w'' [AWrap e]) (env_rand env 20)) (\<lambda>salt.
       Ok (map (\<lambda>b. if b = NUL then CHR 0x01 else b) salt))"

record ClientLogin =
  cl_Response :: HandshakeResponse41
  cl_Caps :: u32
  cl_NextSeq :: u8

definition greeting_for :: "string \<Rightarrow> u32 \<Rightarrow> bytes \<Rightarrow> bytes" where
  "greeting_for serverVersion connectionID salt =
     EncodeHandshakeV10 serverVersion connectionID mysqlProxyClientCaps DefaultCharsetUTF8MB4
       serverStatusAutocommit MySQLNativePassword salt"

definition GreetClientMySQL :: "'c env \<Rightarrow> string \<Rightarrow> u32 \<Rightarrow> (conn, ClientLogin) io" where
  "GreetClientMySQL env serverVersion connectionID =
     bindIO (liftIO (newMySQLSalt env)) (\<lambda>salt.
     bindIO (wrapIO ''write handshake: %w'' (WritePacket 0 (greeting_for serverVersion connectionID salt))) (\<lambda>_.
     bindIO (wrapIO ''read handshake response: %w'' ReadPacket) (\<lambda>(seq, payload).
     bindIO (liftIO (ParseHandshakeResponse41 payload)) (\<lambda>resp.
       retIO \<lparr>cl_Response = resp, cl_Caps = hr_Capabilities resp AND mysqlProxyClientCaps,
              cl_NextSeq = u8_of seq + 1\<rparr>))))"

section \<open>dispatchMySQL\<close>

definition mysqlServerVersion :: string where "mysqlServerVersion = ''8.0.0-dbpivot''"
definition erAccessDenied :: u16 where "erAccessDenied = 1045"
definition erBadDBError :: u16 where "erBadDBError = 1049"
definition erUnknownError :: u16 where "erUnknownError = 1105"

definition writeMySQLErr :: "u8 \<Rightarrow> u16 \<Rightarrow> string \<Rightarrow> string \<Rightarrow> (conn, unit) io" where
  "writeMySQLErr seq code sqlState msg =
     bindIO (WritePacket seq (EncodeERRPacket code sqlState msg)) (\<lambda>_. retIO ())"

text \<open>\<open>_ = writeMySQLErr(client, login.NextSeq, ...)\<close>.\<close>

definition reject_mysql :: "ClientLogin \<Rightarrow> u16 \<Rightarrow> string \<Rightarrow> string \<Rightarrow> (hstate, unit) io" where
  "reject_mysql login code sqlState msg = tryIO (on_client (writeMySQLErr (cl_NextSeq login) code sqlState msg))"

definition login_dbname :: "ClientLogin \<Rightarrow> string" where
  "login_dbname login =
     (let d = hr_Database (cl_Response login) in if d = [] then hr_Username (cl_Response login) else d)"

definition upstream_database :: "ClientLogin \<Rightarrow> ResolvedTarget \<Rightarrow> string" where
  "upstream_database login rt =
     (if rt_Database rt = [] then hr_Database (cl_Response login) else rt_Database rt)"

definition tls_config :: "ResolvedTarget \<Rightarrow> string option" where
  "tls_config rt = (if rt_SSLMode rt = SSLModeRequire then Some (rt_Host rt) else None)"

definition ok_packet :: bytes where
  "ok_packet = EncodeOKPacket 0 0 serverStatusAutocommit 0"

text \<open>From a successful lookup up to and including \<open>Register\<close>.\<close>

definition connect_mysql :: "'c env \<Rightarrow> ClientLogin \<Rightarrow> string \<Rightarrow> ResolvedTarget \<Rightarrow> (hstate, unit) io" where
  "connect_mysql env login n rt =
     catchIO (dial_up env (upstream_addr rt))
       (\<lambda>e. bindIO (reject_mysql login erUnknownError ''HY000''
                      (Sprintf (env_isPrint env) ''upstream dial failed: %v'' [AErr e])) (\<lambda>_. errIO e))
       (\<lambda>_.
     catchIO (on_up (AuthenticateUpstreamMySQL env (rt_User rt) (rt_Password rt) (upstream_database login rt)
                       False (tls_config rt)))
       (\<lambda>e. bindIO (reject_mysql login erAccessDenied ''28000''
                      (Sprintf (env_isPrint env) ''upstream auth failed: %v'' [AErr e])) (\<lambda>_.
             bindIO close_up (\<lambda>_. errIO e)))
       (\<lambda>(_, upCaps).
     if cl_Caps login AND ClientDeprecateEOF \<noteq> upCaps AND ClientDeprecateEOF then
       bindIO (reject_mysql login erUnknownError ''HY000''
                 ''proxy/upstream capability mismatch (CLIENT_DEPRECATE_EOF)'') (\<lambda>_.
       bindIO close_up (\<lambda>_.
         errIO (Errorf ''mysql capability mismatch: client=0x%08x upstream=0x%08x''
                  [AInt (uint (cl_Caps login)), AInt (uint upCaps)])))
     else
       catchIO (on_client (WritePacket (cl_NextSeq login) ok_packet))
         (\<lambda>e. bindIO close_up (\<lambda>_. errIO (Errorf ''write OK to client: %w'' [AWrap e])))
         (\<lambda>_. attach n rt)))"

definition route_mysql :: "'c env \<Rightarrow> ClientLogin \<Rightarrow> (hstate, unit) io" where
  "route_mysql env login s =
     (let dbname = login_dbname login in
      case lookupDatabase (h_srv s) AdapterMySQL dbname of
        None \<Rightarrow> reject_mysql login erBadDBError ''42000''
                  (Sprintf (env_isPrint env) (''Unknown database '%s'' @ [CHR 0x27]) [AStr dbname]) s
      | Some n \<Rightarrow>
          (case Current n (srv_store (h_srv s)) of
             None \<Rightarrow> reject_mysql login erUnknownError ''HY000''
                       (Sprintf (env_isPrint env) ''database %q has no active target'' [AStr dbname]) s
           | Some rt \<Rightarrow> bindIO (connect_mysql env login n rt) (\<lambda>_. relay env) s))"

definition dispatchMySQL :: "'c env \<Rightarrow> (hstate, unit) io" where
  "dispatchMySQL env =
     bindIO next_connID (\<lambda>connID.
     bindIO (wrapIO ''mysql client handshake: %w'' (on_client (GreetClientMySQL env mysqlServerVersion connID)))
       (route_mysql env))"

section \<open>Connecting fails closed\<close>

lemma reject_mysql_keeps [simp]: "keeps_srv (reject_mysql login code st msg)"
  by (simp add: reject_mysql_def)

lemma connect_mysql_commits: "commits (connect_mysql env login n rt)"
  unfolding connect_mysql_def
  by (intro commits_catchIO) (auto simp: split_beta intro!: commits_catchIO intro: commits_keeps)

text \<open>The connection is dialled and logged in to; the client gets its OK packet; the connection is
  registered.\<close>

lemma connect_mysql_OkD:
  assumes "connect_mysql env login n rt s = (Ok (), s')"
  shows "\<exists>u hs caps u1. env_dial env (upstream_addr rt) = Ok u
     \<and> AuthenticateUpstreamMySQL env (rt_User rt) (rt_Password rt) (upstream_database login rt) False (tls_config rt) u
         = (Ok (hs, caps), u1)
     \<and> caps AND ClientDeprecateEOF = cl_Caps login AND ClientDeprecateEOF
     \<and> h_up s' = Some u1 \<and> h_id s' = h_id s
     \<and> h_client s' = wrote (packet_bytes (cl_NextSeq login) ok_packet) (h_client s)
     \<and> h_srv s' = (h_srv s)\<lparr>srv_store := Register n (h_id s)
         ((srv_store (h_srv s))\<lparr>st_conns := (st_conns (srv_store (h_srv s)))(h_id s \<mapsto> new_conn rt)\<rparr>)\<rparr>"
proof -
  from assms obtain u where u: "env_dial env (upstream_addr rt) = Ok u"
    by (auto simp: connect_mysql_def catchIO_eq_Ok_iff dial_up_def bindIO_eq_Ok_iff)
  with assms obtain hs caps s1 s2 q where
    auth: "on_up (AuthenticateUpstreamMySQL env (rt_User rt) (rt_Password rt) (upstream_database login rt) False (tls_config rt))
        (s\<lparr>h_up := Some u\<rparr>) = (Ok (hs, caps), s1)"
    and eof: "cl_Caps login AND ClientDeprecateEOF = caps AND ClientDeprecateEOF"
    and ok: "on_client (WritePacket (cl_NextSeq login) ok_packet) s1 = (Ok q, s2)"
    and att: "attach n rt s2 = (Ok (), s')"
    by (auto simp: connect_mysql_def catchIO_eq_Ok_iff dial_up_def bindIO_eq_Ok_iff split: if_splits)
  from auth obtain u1 where u1: "AuthenticateUpstreamMySQL env (rt_User rt) (rt_Password rt) (upstream_database login rt)
      False (tls_config rt) u = (Ok (hs, caps), u1)" and s1: "s1 = s\<lparr>h_up := Some u1\<rparr>"
    by (auto simp: on_up_Ok_iff)
  from ok s1 have s2: "s2 = s\<lparr>h_up := Some u1, h_client := wrote (packet_bytes (cl_NextSeq login) ok_packet) (h_client s)\<rparr>"
    by (auto simp: on_client_Ok_iff WritePacket_Ok_iff)
  with u u1 eof att show ?thesis by (auto simp: attach_def Let_def)
qed

lemma reject_mysql_client_only [simp]: "client_only (reject_mysql login code st msg)" "closes_on_err (reject_mysql login code st msg)"
  by (simp_all add: reject_mysql_def)

interpretation mysql_session: session "connect_mysql env login n rt" n rt for env login n rt
proof
  show "commits (connect_mysql env login n rt)" by (rule connect_mysql_commits)
  show "up_closed s'" if "up_closed s" and "connect_mysql env login n rt s = (Err e, s')" for s e s'
    using that unfolding connect_mysql_def by (rule dial_closes) (auto simp: split_beta)
  fix s s'
  assume "connect_mysql env login n rt s = (Ok (), s')"
  note ok = connect_mysql_OkD [OF this]
  from ok show "\<exists>u. h_up s' = Some u" by blast
  from ok show "h_id s' = h_id s \<and> h_srv s' = (h_srv s)\<lparr>srv_store := Register n (h_id s)
      ((srv_store (h_srv s))\<lparr>st_conns := (st_conns (srv_store (h_srv s)))(h_id s \<mapsto> new_conn rt)\<rparr>)\<rparr>" by blast
qed

text \<open>C8. The MySQL handler fails closed. If it connects, the upstream has accepted the login with the
  target's credentials and database (over TLS where the target requires it), both legs agree on the
  framing that \<open>CLIENT_DEPRECATE_EOF\<close> selects, the client is sent exactly one OK packet with the next
  sequence id, and the connection is registered for the target. If it does not, for whatever reason,
  the server is unchanged and nothing is registered.\<close>

theorem connect_mysql_fail_closed:
  assumes "connect_mysql env login n rt s = (r, s')"
  shows "(r = Ok () \<longrightarrow>
       (\<exists>u hs caps u1. env_dial env (upstream_addr rt) = Ok u
          \<and> AuthenticateUpstreamMySQL env (rt_User rt) (rt_Password rt) (upstream_database login rt) False (tls_config rt) u
              = (Ok (hs, caps), u1)
          \<and> caps AND ClientDeprecateEOF = cl_Caps login AND ClientDeprecateEOF
          \<and> h_up s' = Some u1
          \<and> h_client s' = wrote (packet_bytes (cl_NextSeq login) ok_packet) (h_client s)
          \<and> h_srv s' = (h_srv s)\<lparr>srv_store := Register n (h_id s)
              ((srv_store (h_srv s))\<lparr>st_conns := (st_conns (srv_store (h_srv s)))(h_id s \<mapsto> new_conn rt)\<rparr>)\<rparr>))
     \<and> (r \<noteq> Ok () \<longrightarrow> h_srv s' = h_srv s)"
proof -
  have "h_srv s' = h_srv s" if "r \<noteq> Ok ()"
    using connect_mysql_commits [of env login n rt] assms that unfolding commits_def
    by (metis fst_conv old.unit.exhaust snd_conv)
  moreover have "r = Ok () \<Longrightarrow> connect_mysql env login n rt s = (Ok (), s')" using assms by simp
  ultimately show ?thesis using connect_mysql_OkD [of env login n rt s s'] by blast
qed

section \<open>A session\<close>

definition login_of :: "u8 \<Rightarrow> HandshakeResponse41 \<Rightarrow> ClientLogin" where
  "login_of seq resp =
     \<lparr>cl_Response = resp, cl_Caps = hr_Capabilities resp AND mysqlProxyClientCaps, cl_NextSeq = seq + 1\<rparr>"

definition greeted :: "'c env \<Rightarrow> bytes \<Rightarrow> bytes \<Rightarrow> hstate \<Rightarrow> hstate" where
  "greeted env salt rest s =
     (let connID = srv_connSeq (h_srv s) + 1 in
      s\<lparr>h_srv := (h_srv s)\<lparr>srv_connSeq := connID\<rparr>,
        h_client := wrote (packet_bytes 0 (greeting_for mysqlServerVersion connID salt)) ((h_client s)\<lparr>cin := rest\<rparr>)\<rparr>)"

lemma dispatchMySQL_greets:
  assumes "\<not> cclosed (h_client s)" and "ccap (h_client s) = None" and salt: "newMySQLSalt env = Ok salt"
    and cin: "cin (h_client s) = packet_bytes seq payload @ rest"
  shows "dispatchMySQL env s =
     (case ParseHandshakeResponse41 payload of
        Ok resp \<Rightarrow> route_mysql env (login_of (seq + packets_full payload) resp) (greeted env salt rest s)
      | Err e \<Rightarrow> (Err (Errorf ''mysql client handshake: %w'' [AWrap e]), greeted env salt rest s)
      | Panic \<Rightarrow> (Panic, greeted env salt rest s))"
proof -
  let ?id = "srv_connSeq (h_srv s) + 1" and ?c = "h_client s"
  let ?g = "packet_bytes 0 (greeting_for mysqlServerVersion ?id salt)"
  obtain q where w: "WritePacket 0 (greeting_for mysqlServerVersion ?id salt) ?c = (Ok q, wrote ?g ?c)"
    using assms(1,2) by (simp add: WritePacket_Ok_iff can_write_def)
  have r: "ReadPacket (wrote ?g ?c) = (Ok (byte_of (seq + packets_full payload), payload), wrote ?g (?c\<lparr>cin := rest\<rparr>))"
    using ReadPacket_packet_bytes [of "wrote ?g ?c" seq payload rest] assms(1) cin by (simp add: wrote_cin)
  have "GreetClientMySQL env mysqlServerVersion ?id ?c =
     (case ParseHandshakeResponse41 payload of
        Ok resp \<Rightarrow> (Ok (login_of (seq + packets_full payload) resp), wrote ?g (?c\<lparr>cin := rest\<rparr>))
      | Err e \<Rightarrow> (Err e, wrote ?g (?c\<lparr>cin := rest\<rparr>)) | Panic \<Rightarrow> (Panic, wrote ?g (?c\<lparr>cin := rest\<rparr>)))"
    using salt w r by (cases "ParseHandshakeResponse41 payload") (simp_all add: GreetClientMySQL_def login_of_def bindIO_def)
  then show ?thesis
    by (cases "ParseHandshakeResponse41 payload")
      (simp_all add: dispatchMySQL_def next_connID_def greeted_def Let_def bindIO_def wrapIO_def on_client_def)
qed

lemma greeted_simps [simp]:
  "lookupDatabase (h_srv (greeted env salt rest s)) = lookupDatabase (h_srv s)"
  "srv_store (h_srv (greeted env salt rest s)) = srv_store (h_srv s)"
  "cin (h_client (greeted env salt rest s)) = rest" "cclosed (h_client (greeted env salt rest s)) = cclosed (h_client s)"
  "cout (h_client (greeted env salt rest s)) =
     cout (h_client s) @ packet_bytes 0 (greeting_for mysqlServerVersion (srv_connSeq (h_srv s) + 1) salt)"
  by (simp_all add: greeted_def Let_def lookupDatabase_def fun_eq_iff)

lemma ccap_greeted [simp]: "ccap (h_client s) = None \<Longrightarrow> ccap (h_client (greeted env salt rest s)) = None"
  by (simp add: greeted_def Let_def wrote_def)

lemma connect_mysql_Ok:
  assumes "\<not> cclosed (h_client s)" and "ccap (h_client s) = None"
    and "env_dial env (upstream_addr rt) = Ok u"
    and "AuthenticateUpstreamMySQL env (rt_User rt) (rt_Password rt) (upstream_database login rt) False (tls_config rt) u
        = (Ok (hs, caps), u1)"
    and "cl_Caps login AND ClientDeprecateEOF = caps AND ClientDeprecateEOF"
  shows "\<exists>s'. connect_mysql env login n rt s = (Ok (), s')"
proof -
  obtain q where "WritePacket (cl_NextSeq login) ok_packet (h_client s) =
      (Ok q, wrote (packet_bytes (cl_NextSeq login) ok_packet) (h_client s))"
    using assms(1,2) by (simp add: WritePacket_Ok_iff can_write_def)
  then show ?thesis using assms(3-5) by (simp add: connect_mysql_def dial_up_def attach_def Let_def)
qed


text \<open>C39. A client that sends a login whose authentication data has a length that overflows crashes the
  handler: the panic is not recovered from, so it takes the whole proxy down.\<close>

theorem dispatchMySQL_panics:
  assumes "\<not> cclosed (h_client s)" and "ccap (h_client s) = None" and "newMySQLSalt env = Ok salt"
    and "cin (h_client s) = packet_bytes seq crash_login @ rest"
  shows "fst (dispatchMySQL env s) = Panic"
proof -
  have "ParseHandshakeResponse41 crash_login = Panic" by (rule crash_login_Panic)
  then show ?thesis using dispatchMySQL_greets [OF assms] by simp
qed


section \<open>Examples\<close>

definition shop_rt :: ResolvedTarget where
  "shop_rt = \<lparr>rt_Name = ''local'', rt_Host = ''127.0.0.1'', rt_Port = 3307, rt_User = ''root'',
     rt_Password = ''pw'', rt_Database = ''shop_dev'', rt_SSLMode = [], rt_AuthSource = []\<rparr>"

definition shop_env :: "nat env" where
  "shop_env = mysql_env\<lparr>env_dial := (\<lambda>_. Ok sample_mysql_upstream)\<rparr>"

definition shop_payload :: bytes where
  "shop_payload = EncodeHandshakeResponse41 0x01288208 (CHR 0x2D) ''dev'' ''x'' ''shop'' MySQLNativePassword"

definition shop_resp :: HandshakeResponse41 where
  "shop_resp = \<lparr>hr_Capabilities = 0x01288208, hr_MaxPacketSize = word_of_nat MaxPacketPayload,
     hr_CharacterSet = CHR 0x2D, hr_Username = ''dev'', hr_AuthResponse = ''x'', hr_Database = ''shop'',
     hr_AuthPlugin = MySQLNativePassword\<rparr>"

definition shop_state :: "bytes \<Rightarrow> hstate" where
  "shop_state b = \<lparr>h_client = fresh_conn b, h_up = None,
     h_srv = (new_server sample_config Map.empty Map.empty)\<lparr>srv_store :=
       \<lparr>st_dbs = [''shop'' \<mapsto> (NewDatabase (c_Databases sample_config ! 1) (c_ForwardTargets sample_config))
                    \<lparr>db_current := Some shop_rt\<rparr>], st_conns = Map.empty\<rparr>\<rparr>, h_id = 5\<rparr>"

lemma shop_state_simps [simp]:
  "\<not> cclosed (h_client (shop_state b))" "ccap (h_client (shop_state b)) = None" "cin (h_client (shop_state b)) = b"
  "cout (h_client (shop_state b)) = []" "srv_connSeq (h_srv (shop_state b)) = 0"
  "lookupDatabase (h_srv (shop_state b)) AdapterMySQL ''shop'' = Some ''shop''"
  "Current ''shop'' (srv_store (h_srv (shop_state b))) = Some shop_rt"
  "newMySQLSalt shop_env = Ok (replicate 20 (CHR 0x07))"
  by (simp_all add: shop_state_def fresh_conn_def lookupDatabase_def AdapterMySQL_def Current_def NewDatabase_def
      newMySQLSalt_def shop_env_def mysql_env_def new_server_def)
    (simp add: sample_config_def)

lemma shop_login:
  shows "ParseHandshakeResponse41 shop_payload = Ok shop_resp"
    and "login_dbname (login_of q shop_resp) = ''shop''"
    and "\<exists>u1. AuthenticateUpstreamMySQL shop_env (rt_User shop_rt) (rt_Password shop_rt)
        (upstream_database (login_of q shop_resp) shop_rt) False (tls_config shop_rt) sample_mysql_upstream
        = (Ok (sample_hs, mysqlUpstreamCaps 0x01088200 True), u1) \<and> cin u1 = ''Z''"
    and "cl_Caps (login_of q shop_resp) AND ClientDeprecateEOF = mysqlUpstreamCaps 0x01088200 True AND ClientDeprecateEOF"
proof -
  show "ParseHandshakeResponse41 shop_payload = Ok shop_resp"
    unfolding shop_payload_def shop_resp_def
    by (rule ParseHandshakeResponse41_Encode [OF refl])
      (simp_all add: EncodeHandshakeResponse41_def MySQLNativePassword_def has_cap_def ClientPluginAuth_def
        ClientSecureConnection_def ClientConnectWithDB_def ClientProtocol41_def ClientPluginAuthLenencClientData_def)
  show "\<exists>u1. AuthenticateUpstreamMySQL shop_env (rt_User shop_rt) (rt_Password shop_rt)
        (upstream_database (login_of q shop_resp) shop_rt) False (tls_config shop_rt) sample_mysql_upstream
        = (Ok (sample_hs, mysqlUpstreamCaps 0x01088200 True), u1) \<and> cin u1 = ''Z''"
    using AuthenticateUpstreamMySQL_Ok [OF sample_mysql_login(1,2,4-7,3) refl refl,
        of shop_env "''root''" "''pw''" "''shop_dev''" False]
    by (simp add: tls_config_def shop_rt_def SSLModeRequire_def upstream_database_def)
      (simp add: sample_hs_def)
qed (simp_all add: login_of_def shop_resp_def login_dbname_def mysqlProxyClientCaps_def mysqlUpstreamCaps_def
    ClientDeprecateEOF_def ClientLongPassword_def ClientLongFlag_def ClientProtocol41_def ClientTransactions_def
    ClientSecureConnection_def ClientPluginAuth_def ClientPluginAuthLenencClientData_def ClientConnectWithDB_def)


theorem connect_mysql_fail_closed_witness:
  "\<exists>s'. connect_mysql shop_env (login_of 1 shop_resp) ''shop'' shop_rt (shop_state []) = (Ok (), s')
     \<and> cout (h_client s') = packet_bytes 2 ok_packet \<and> 5 \<in> set (conns_of ''shop'' (srv_store (h_srv s')))"
proof -
  obtain u1 where u1: "AuthenticateUpstreamMySQL shop_env (rt_User shop_rt) (rt_Password shop_rt)
      (upstream_database (login_of 1 shop_resp) shop_rt) False (tls_config shop_rt) sample_mysql_upstream
      = (Ok (sample_hs, mysqlUpstreamCaps 0x01088200 True), u1)" using shop_login(3) by blast
  have dial: "env_dial shop_env (upstream_addr shop_rt) = Ok sample_mysql_upstream" by (simp add: shop_env_def)
  obtain s' where s': "connect_mysql shop_env (login_of 1 shop_resp) ''shop'' shop_rt (shop_state []) = (Ok (), s')"
    using connect_mysql_Ok [OF _ _ dial u1 shop_login(4), of "shop_state []"] by auto
  from connect_mysql_fail_closed [OF s'] have c: "h_client s' = wrote (packet_bytes 2 ok_packet) (h_client (shop_state []))"
    and "conns_of ''shop'' (srv_store (h_srv s')) = [5]"
    by (auto simp: login_of_def shop_state_def Register_def conns_of_def NewDatabase_def add_new_def)
  with s' show ?thesis by simp
qed

theorem dispatchMySQL_panics_witness:
  "fst (dispatchMySQL shop_env (shop_state (packet_bytes 1 crash_login))) = Panic"
  by (rule dispatchMySQL_panics [where rest = "[]"]) simp_all

end
