(* ===== verification/Bson.thy ===== *)
theory Bson
  imports GoFmt
begin

text \<open>
  \<open>internal/proxy/bson.go\<close>: the BSON encoder and the decoder, which call each other for nested
  documents. A \<open>float64\<close> is kept as its bits, and \<open>int32\<close>, \<open>int64\<close> and \<open>int\<close> values as words.

  The decoder terminates and never panics, it reads no further than the length a document declares,
  and it reads back what the encoder writes; the encoder, which appends to a slice and patches the
  length in afterwards, is equal to a compositional one.
\<close>

definition bsonDouble :: byte where "bsonDouble = CHR 0x01"
definition bsonString :: byte where "bsonString = CHR 0x02"
definition bsonDocument :: byte where "bsonDocument = CHR 0x03"
definition bsonArray :: byte where "bsonArray = CHR 0x04"
definition bsonBinary :: byte where "bsonBinary = CHR 0x05"
definition bsonObjectID :: byte where "bsonObjectID = CHR 0x07"
definition bsonBool :: byte where "bsonBool = CHR 0x08"
definition bsonDateTime :: byte where "bsonDateTime = CHR 0x09"
definition bsonNull :: byte where "bsonNull = CHR 0x0A"
definition bsonInt32 :: byte where "bsonInt32 = CHR 0x10"
definition bsonTimestamp :: byte where "bsonTimestamp = CHR 0x11"
definition bsonInt64 :: byte where "bsonInt64 = CHR 0x12"

lemmas bson_tags =
  bsonDouble_def bsonString_def bsonDocument_def bsonArray_def bsonBinary_def bsonObjectID_def
  bsonBool_def bsonDateTime_def bsonNull_def bsonInt32_def bsonTimestamp_def bsonInt64_def

definition BinarySubtypeGeneric :: byte where "BinarySubtypeGeneric = CHR 0x00"

text \<open>The Go types an element's value can have; a document is a list of keys and values.\<close>

datatype bval =
    VDouble u64
  | VString string
  | VDoc "(string \<times> bval) list"
  | VArray "bval list"
  | VBinary byte bytes
  | VObjectID bytes
  | VBool bool
  | VDateTime u64
  | VNull
  | VInt32 u32
  | VInt u64
  | VTimestamp u32 u32
  | VInt64 u64

type_synonym BSON = "(string \<times> bval) list"

fun Lookup :: "BSON \<Rightarrow> string \<Rightarrow> bval option" where
  "Lookup [] key = None"
| "Lookup ((k, v) # d) key = (if k = key then Some v else Lookup d key)"

section \<open>Encoding\<close>

definition appendCString :: "bytes \<Rightarrow> string \<Rightarrow> bytes" where
  "appendCString b s = b @ s @ [NUL]"

definition appendBSONString :: "bytes \<Rightarrow> string \<Rightarrow> bytes" where
  "appendBSONString b s = b @ put_le32 (word_of_nat (length s + 1)) @ s @ [NUL]"

text \<open>\<open>binary.LittleEndian.PutUint32(b[start:], ...)\<close>: the placeholder is overwritten.\<close>

definition patch32 :: "bytes \<Rightarrow> nat \<Rightarrow> u32 \<Rightarrow> bytes" where
  "patch32 b start w = take start b @ put_le32 w @ drop (start + 4) b"

fun appendBSONElement :: "bytes \<Rightarrow> string \<Rightarrow> bval \<Rightarrow> bytes"
and append_elems :: "bytes \<Rightarrow> BSON \<Rightarrow> bytes"
and append_array :: "bytes \<Rightarrow> nat \<Rightarrow> bval list \<Rightarrow> bytes"
where
  "appendBSONElement b key (VDouble f) = appendCString (b @ [bsonDouble]) key @ put_le64 f"
| "appendBSONElement b key (VString s) = appendBSONString (appendCString (b @ [bsonString]) key) s"
| "appendBSONElement b key (VDoc d) =
     (let b = appendCString (b @ [bsonDocument]) key; start = length b;
          b = append_elems (b @ replicate 4 NUL) d @ [NUL]
      in patch32 b start (word_of_nat (length b - start)))"
| "appendBSONElement b key (VArray vs) =
     (let b = appendCString (b @ [bsonArray]) key; start = length b;
          b = append_array (b @ replicate 4 NUL) 0 vs @ [NUL]
      in patch32 b start (word_of_nat (length b - start)))"
| "appendBSONElement b key (VBinary subtype x) =
     appendCString (b @ [bsonBinary]) key @ put_le32 (word_of_nat (length x)) @ [subtype] @ x"
| "appendBSONElement b key (VObjectID oid) = appendCString (b @ [bsonObjectID]) key @ oid"
| "appendBSONElement b key (VBool x) =
     appendCString (b @ [bsonBool]) key @ [if x then CHR 0x01 else CHR 0x00]"
| "appendBSONElement b key (VDateTime t) = appendCString (b @ [bsonDateTime]) key @ put_le64 t"
| "appendBSONElement b key VNull = appendCString (b @ [bsonNull]) key"
| "appendBSONElement b key (VInt32 i) = appendCString (b @ [bsonInt32]) key @ put_le32 i"
| "appendBSONElement b key (VInt i) = appendCString (b @ [bsonInt32]) key @ put_le32 (ucast i)"
| "appendBSONElement b key (VTimestamp t i) =
     appendCString (b @ [bsonTimestamp]) key @ put_le32 i @ put_le32 t"
| "appendBSONElement b key (VInt64 i) = appendCString (b @ [bsonInt64]) key @ put_le64 i"
| "append_elems b [] = b"
| "append_elems b ((k, v) # d) = append_elems (appendBSONElement b k v) d"
| "append_array b i [] = b"
| "append_array b i (v # vs) = append_array (appendBSONElement b (Itoa (int i)) v) (i + 1) vs"

definition AppendBSON :: "bytes \<Rightarrow> BSON \<Rightarrow> bytes" where
  "AppendBSON b d =
     (let start = length b; b = append_elems (b @ replicate 4 NUL) d @ [NUL]
      in patch32 b start (word_of_nat (length b - start)))"

definition MarshalBSON :: "BSON \<Rightarrow> bytes" where
  "MarshalBSON d = AppendBSON [] d"

section \<open>Decoding\<close>

definition readCString :: "bytes \<Rightarrow> nat \<Rightarrow> (string \<times> nat) res" where
  "readCString b pos =
     (case index_from b pos NUL of
        Some i \<Rightarrow> bindR (slice b pos i) (\<lambda>s. Ok (s, i + 1))
      | None \<Rightarrow> Err (Errorf ''bson: unterminated cstring at %d'' [AInt (int pos)]))"

definition readBSONString :: "bytes \<Rightarrow> nat \<Rightarrow> (string \<times> nat) res" where
  "readBSONString b pos =
     (if pos + 4 > length b then Err (Errorf ''bson: truncated string length'' [])
      else bindR (slice b pos (pos + 4)) (\<lambda>l.
        let n = sint (le_uint32 l); start = pos + 4 in
        if n < 1 then Err (Errorf ''bson: invalid string length %d'' [AInt n])
        else if start + nat n > length b then Err (Errorf ''bson: string length %d out of range'' [AInt n])
        else bindR (idx b (start + nat n - 1)) (\<lambda>z.
          if z \<noteq> NUL then Err (Errorf ''bson: string not NUL-terminated'' [])
          else bindR (slice b start (start + nat n - 1)) (\<lambda>s. Ok (s, start + nat n)))))"

text \<open>A value of a fixed size.\<close>

definition read_fixed :: "string \<Rightarrow> nat \<Rightarrow> (bytes \<Rightarrow> bval) \<Rightarrow> bytes \<Rightarrow> nat \<Rightarrow> (bval \<times> nat) res" where
  "read_fixed errf n f b pos =
     (if pos + n > length b then Err (Errorf errf [])
      else bindR (slice b pos (pos + n)) (\<lambda>x. Ok (f x, pos + n)))"

definition read_binary :: "bytes \<Rightarrow> nat \<Rightarrow> (bval \<times> nat) res" where
  "read_binary b pos =
     (if pos + 5 > length b then Err (Errorf ''bson: truncated binary header'' [])
      else bindR (slice b pos (pos + 4)) (\<lambda>l.
        bindR (idx b (pos + 4)) (\<lambda>subtype.
        let blen = sint (le_uint32 l); start = pos + 5 in
        if blen < 0 \<or> start + nat blen > length b
        then Err (Errorf ''bson: binary length %d out of range'' [AInt blen])
        else bindR (slice b start (start + nat blen)) (\<lambda>x. Ok (VBinary subtype x, start + nat blen)))))"

text \<open>The cases of \<open>readBSONValue\<close> that do not recurse.\<close>

definition read_scalar :: "byte \<Rightarrow> bytes \<Rightarrow> nat \<Rightarrow> (bval \<times> nat) res" where
  "read_scalar t b pos =
     (if t = bsonDouble then read_fixed ''bson: truncated double'' 8 (\<lambda>x. VDouble (le_uint64 x)) b pos
      else if t = bsonString then bindR (readBSONString b pos) (\<lambda>(s, np). Ok (VString s, np))
      else if t = bsonBinary then read_binary b pos
      else if t = bsonObjectID then read_fixed ''bson: truncated objectid'' 12 VObjectID b pos
      else if t = bsonBool then read_fixed ''bson: truncated bool'' 1 (\<lambda>x. VBool (x ! 0 \<noteq> CHR 0x00)) b pos
      else if t = bsonDateTime
      then read_fixed ''bson: truncated datetime'' 8 (\<lambda>x. VDateTime (le_uint64 x)) b pos
      else if t = bsonNull then Ok (VNull, pos)
      else if t = bsonInt32 then read_fixed ''bson: truncated int32'' 4 (\<lambda>x. VInt32 (le_uint32 x)) b pos
      else if t = bsonTimestamp
      then read_fixed ''bson: truncated timestamp'' 8
             (\<lambda>x. VTimestamp (le_uint32 (drop 4 x)) (le_uint32 (take 4 x))) b pos
      else if t = bsonInt64 then read_fixed ''bson: truncated int64'' 8 (\<lambda>x. VInt64 (le_uint64 x)) b pos
      else Err (Errorf ''bson: unsupported element type 0x%02x'' [AByte t]))"

function ReadBSONDocument :: "bytes \<Rightarrow> (BSON \<times> nat) res"
and read_elems :: "bytes \<Rightarrow> nat \<Rightarrow> BSON \<Rightarrow> (BSON \<times> nat) res"
and readBSONValue :: "byte \<Rightarrow> bytes \<Rightarrow> nat \<Rightarrow> (bval \<times> nat) res"
where
  "ReadBSONDocument b =
     (if length b < 5 then Err (Errorf ''bson: document too short (%d bytes)'' [AInt (int (length b))])
      else
        let len = sint (le_uint32 (take 4 b)) in
        if len < 5 \<or> len > int (length b)
        then Err (Errorf ''bson: invalid document length %d (have %d bytes)'' [AInt len, AInt (int (length b))])
        else read_elems (take (nat len) b) 4 [])"
| "read_elems doc pos out =
     (if pos \<ge> length doc then Err (Errorf ''bson: document not terminated'' [])
      else if doc ! pos = CHR 0x00 then
        (if pos + 1 \<noteq> length doc
         then Err (Errorf ''bson: %d trailing bytes after terminator'' [AInt (int (length doc) - int (pos + 1))])
         else Ok (out, length doc))
      else
        bindR (readCString doc (pos + 1)) (\<lambda>(key, np).
        bindR (readBSONValue (doc ! pos) doc np) (\<lambda>(val, np).
          read_elems doc np (out @ [(key, val)]))))"
| "readBSONValue t b pos =
     (if t = bsonDocument then
        bindR (slice b pos (length b)) (\<lambda>rest.
        bindR (ReadBSONDocument rest) (\<lambda>(sub, n). Ok (VDoc sub, pos + n)))
      else if t = bsonArray then
        bindR (slice b pos (length b)) (\<lambda>rest.
        bindR (ReadBSONDocument rest) (\<lambda>(sub, n). Ok (VArray (map snd sub), pos + n)))
      else read_scalar t b pos)"
  by pat_completeness auto

text \<open>The decoder is nested in itself: where the loop goes on depends on what a recursive call returned.
  On the arguments on which the functions are defined, a value ends no earlier than it starts; this
  is what the termination proof needs.\<close>

lemma read_scalar_progress: "read_scalar t b pos = Ok (v, np) \<Longrightarrow> pos \<le> np"
  by (auto simp: read_scalar_def read_fixed_def read_binary_def readBSONString_def Let_def bindR_eq_Ok_iff
      split: if_splits)

lemma readCString_progress: "readCString b pos = Ok (s, np) \<Longrightarrow> pos < np \<and> np \<le> length b"
  by (auto simp: readCString_def bindR_eq_Ok_iff dest!: index_from_SomeD split: option.splits)

lemma read_progress:
  shows "ReadBSONDocument_read_elems_readBSONValue_dom (Inl b) \<Longrightarrow>
      ReadBSONDocument b = Ok (d, n) \<Longrightarrow> 5 \<le> n \<and> n \<le> length b"
    and "ReadBSONDocument_read_elems_readBSONValue_dom (Inr (Inl (doc, pos, out))) \<Longrightarrow>
      read_elems doc pos out = Ok (d, n) \<Longrightarrow> n = length doc"
    and "ReadBSONDocument_read_elems_readBSONValue_dom (Inr (Inr (t, b', pos'))) \<Longrightarrow>
      readBSONValue t b' pos' = Ok (v, np) \<Longrightarrow> pos' \<le> np"
proof (induction b and doc pos out and t b' pos' arbitrary: d n and d n and v np
    rule: ReadBSONDocument_read_elems_readBSONValue.pinduct)
  case (1 b)
  then show ?case by (auto simp: ReadBSONDocument.psimps Let_def split: if_splits)
next
  case (2 doc pos out)
  then show ?case
    by (auto simp: read_elems.psimps bindR_eq_Ok_iff split: if_splits)
next
  case (3 t b pos)
  then show ?case
    by (auto simp: readBSONValue.psimps bindR_eq_Ok_iff dest: read_scalar_progress split: if_splits)
qed

termination ReadBSONDocument
proof (relation "measure (\<lambda>x. case x of
    Inl b \<Rightarrow> 3 * length b + 2
  | Inr (Inl (doc, pos, out)) \<Rightarrow> 3 * (length doc - pos) + 1
  | Inr (Inr (t, b, pos)) \<Rightarrow> 3 * (length b - pos) + 3)", goal_cases)
qed (auto dest!: readCString_progress read_progress(3) simp: slice_def split: if_splits)

declare ReadBSONDocument.simps [simp del] read_elems.simps [simp del] readBSONValue.simps [simp del]

section \<open>The decoder never panics and stays within the document\<close>

lemma read_parts_not_Panic:
  "read_fixed errf n f b pos \<noteq> Panic" "read_binary b pos \<noteq> Panic" "readBSONString b pos \<noteq> Panic"
  by (simp_all add: read_fixed_def read_binary_def readBSONString_def Let_def idx_def slice_def) linarith

lemma read_scalar_not_Panic: "read_scalar t b pos \<noteq> Panic"
  by (simp add: read_scalar_def read_parts_not_Panic bindR_eq_Panic_iff split_beta)

lemma readCString_not_Panic: "readCString b pos \<noteq> Panic"
  by (auto simp: readCString_def slice_def dest: index_from_SomeD split: option.split)

lemma read_not_Panic:
  shows "ReadBSONDocument b \<noteq> Panic" and "read_elems doc pos out \<noteq> Panic"
    and "pos' \<le> length b' \<Longrightarrow> readBSONValue t b' pos' \<noteq> Panic"
proof (induction b and doc pos out and t b' pos' rule: ReadBSONDocument_read_elems_readBSONValue.induct)
  case (1 b)
  then show ?case by (auto simp: ReadBSONDocument.simps [of b] Let_def)
next
  case (2 doc pos out)
  have np: "readCString doc (pos + 1) = Ok (k, np) \<Longrightarrow> np \<le> length doc" for k np
    by (simp add: readCString_progress)
  from 2 np show ?case
    by (auto simp: read_elems.simps [of doc pos out] bindR_eq_Panic_iff readCString_not_Panic)
next
  case (3 t b pos)
  then show ?case
    by (auto simp: readBSONValue.simps [of t b pos] bindR_eq_Panic_iff slice_def read_scalar_not_Panic)
qed

lemma read_elems_length:
  fixes b b' :: bytes and t :: byte and pos' :: nat
  shows True and "read_elems doc pos out = Ok (d, n) \<Longrightarrow> n = length doc" and True
proof (induction b and doc pos out and t b' pos' rule: ReadBSONDocument_read_elems_readBSONValue.induct)
  case (2 doc pos out)
  then show ?case by (auto simp: read_elems.simps [of doc pos out] bindR_eq_Ok_iff split: if_splits)
qed simp_all

lemma ReadBSONDocument_Ok_length:
  assumes "ReadBSONDocument b = Ok (d, n)"
  shows "5 \<le> n \<and> n \<le> length b \<and> int n = sint (le_uint32 (take 4 b)) \<and> read_elems (take n b) 4 [] = Ok (d, n)"
proof -
  let ?len = "sint (le_uint32 (take 4 b))"
  from assms have len: "5 \<le> ?len" "?len \<le> int (length b)" "read_elems (take (nat ?len) b) 4 [] = Ok (d, n)"
    by (auto simp: ReadBSONDocument.simps [of b] Let_def split: if_splits)
  with read_elems_length(2) [OF len(3)] have "n = nat ?len" by simp
  with len show ?thesis by auto
qed

text \<open>C21. The BSON decoder is total and safe on every input: it never panics (a document that is cut
  short, over-long or malformed is an error), what it accepts lies within the slice and has exactly the
  length it declares, and the bytes behind that length make no difference.\<close>

theorem bson_read_safe:
  "ReadBSONDocument b \<noteq> Panic
   \<and> (ReadBSONDocument b = Ok (d, n) \<longrightarrow>
        5 \<le> n \<and> n \<le> length b \<and> int n = sint (le_uint32 (take 4 b))
        \<and> ReadBSONDocument (take n b @ rest) = Ok (d, n))"
proof -
  have "ReadBSONDocument (take n b @ rest) = Ok (d, n)" if ok: "ReadBSONDocument b = Ok (d, n)"
  proof -
    note n = ReadBSONDocument_Ok_length [OF ok]
    let ?b = "take n b @ rest"
    have "take 4 ?b = take 4 b" "take n ?b = take n b" "\<not> length ?b < 5" using n by (auto simp: min_def)
    moreover have "nat (sint (le_uint32 (take 4 b))) = n" using n by (metis nat_int)
    ultimately show ?thesis using n by (auto simp: ReadBSONDocument.simps [of ?b] Let_def)
  qed
  then show ?thesis using read_not_Panic(1) [of b] ReadBSONDocument_Ok_length [of b d n] by blast
qed

section \<open>The encoder as a compositional function\<close>

definition tag_of :: "bval \<Rightarrow> byte" where
  "tag_of v =
     (case v of VDouble _ \<Rightarrow> bsonDouble | VString _ \<Rightarrow> bsonString | VDoc _ \<Rightarrow> bsonDocument
      | VArray _ \<Rightarrow> bsonArray | VBinary _ _ \<Rightarrow> bsonBinary | VObjectID _ \<Rightarrow> bsonObjectID
      | VBool _ \<Rightarrow> bsonBool | VDateTime _ \<Rightarrow> bsonDateTime | VNull \<Rightarrow> bsonNull | VInt32 _ \<Rightarrow> bsonInt32
      | VInt _ \<Rightarrow> bsonInt32 | VTimestamp _ _ \<Rightarrow> bsonTimestamp | VInt64 _ \<Rightarrow> bsonInt64)"

definition doc_frame :: "bytes \<Rightarrow> bytes" where
  "doc_frame body = put_le32 (word_of_nat (length body + 5)) @ body @ [NUL]"

text \<open>The elements of an array are stored under their positions.\<close>

definition index_keys :: "nat \<Rightarrow> 'a list \<Rightarrow> (string \<times> 'a) list" where
  "index_keys i vs = zip (map (\<lambda>j. Itoa (int j)) [i..<i + length vs]) vs"

lemma index_keys_simps [simp]:
  "index_keys i [] = []" "index_keys i (v # vs) = (Itoa (int i), v) # index_keys (i + 1) vs"
proof -
  have "[i..<i + length (v # vs)] = i # [i + 1..<(i + 1) + length vs]" by (simp add: upt_rec)
  then show "index_keys i (v # vs) = (Itoa (int i), v) # index_keys (i + 1) vs"
    unfolding index_keys_def by (simp only: list.map zip_Cons_Cons)
qed (simp add: index_keys_def)

fun val_bytes :: "bval \<Rightarrow> bytes" and elems_bytes :: "BSON \<Rightarrow> bytes" and array_bytes :: "nat \<Rightarrow> bval list \<Rightarrow> bytes" where
  "val_bytes (VDouble f) = put_le64 f"
| "val_bytes (VString s) = put_le32 (word_of_nat (length s + 1)) @ s @ [NUL]"
| "val_bytes (VDoc d) = doc_frame (elems_bytes d)"
| "val_bytes (VArray vs) = doc_frame (array_bytes 0 vs)"
| "val_bytes (VBinary subtype x) = put_le32 (word_of_nat (length x)) @ [subtype] @ x"
| "val_bytes (VObjectID oid) = oid"
| "val_bytes (VBool x) = [if x then CHR 0x01 else CHR 0x00]"
| "val_bytes (VDateTime t) = put_le64 t"
| "val_bytes VNull = []"
| "val_bytes (VInt32 i) = put_le32 i"
| "val_bytes (VInt i) = put_le32 (ucast i)"
| "val_bytes (VTimestamp t i) = put_le32 i @ put_le32 t"
| "val_bytes (VInt64 i) = put_le64 i"
| "elems_bytes [] = []"
| "elems_bytes ((k, v) # d) = (tag_of v # k @ [NUL] @ val_bytes v) @ elems_bytes d"
| "array_bytes i [] = []"
| "array_bytes i (v # vs) = (tag_of v # Itoa (int i) @ [NUL] @ val_bytes v) @ array_bytes (i + 1) vs"

lemma array_bytes_elems: "array_bytes i vs = elems_bytes (index_keys i vs)"
  by (induction vs arbitrary: i) simp_all

lemma patch32_frame:
  "patch32 (b @ replicate 4 NUL @ body @ [NUL]) (length b)
     (word_of_nat (length (b @ replicate 4 NUL @ body @ [NUL]) - length b)) = b @ doc_frame body"
  by (simp add: patch32_def doc_frame_def add.commute)

lemma append_eq:
  shows "appendBSONElement b k v = b @ tag_of v # k @ [NUL] @ val_bytes v"
    and "append_elems b d = b @ elems_bytes d" and "append_array b i vs = b @ array_bytes i vs"
proof (induction b k v and b d and b i vs rule: appendBSONElement_append_elems_append_array.induct)
  case (3 b k d)
  then show ?case
    using patch32_frame [of "appendCString (b @ [bsonDocument]) k" "elems_bytes d"]
    by (simp add: Let_def appendCString_def tag_of_def)
next
  case (4 b k vs)
  then show ?case
    using patch32_frame [of "appendCString (b @ [bsonArray]) k" "array_bytes 0 vs"]
    by (simp add: Let_def appendCString_def tag_of_def)
qed (simp_all add: appendCString_def appendBSONString_def tag_of_def)

lemma AppendBSON_eq: "AppendBSON b d = b @ doc_frame (elems_bytes d)"
  using patch32_frame [of b "elems_bytes d"] by (simp add: AppendBSON_def Let_def append_eq)

text \<open>Nested documents and arrays are encoded by \<open>AppendBSON\<close>, arrays under their positions as keys.\<close>

lemma appendBSONElement_nested:
  "appendBSONElement b k (VDoc d) = AppendBSON (appendCString (b @ [bsonDocument]) k) d"
  "appendBSONElement b k (VArray vs) = AppendBSON (appendCString (b @ [bsonArray]) k) (index_keys 0 vs)"
  by (simp_all add: append_eq AppendBSON_eq appendCString_def tag_of_def array_bytes_elems)

section \<open>What the encoder writes, the decoder reads\<close>

text \<open>A Go \<open>int\<close> is written as an \<open>int32\<close> and read back as one.\<close>

fun norm_val :: "bval \<Rightarrow> bval" where
  "norm_val (VDoc d) = VDoc (map (\<lambda>(k, v). (k, norm_val v)) d)"
| "norm_val (VArray vs) = VArray (map norm_val vs)"
| "norm_val (VInt i) = VInt32 (ucast i)"
| "norm_val v = v"

abbreviation norm_doc :: "BSON \<Rightarrow> BSON" where
  "norm_doc d \<equiv> map (\<lambda>(k, v). (k, norm_val v)) d"

text \<open>Keys hold no NUL and object ids have twelve bytes (their Go type guarantees it).\<close>

fun val_ok :: "bval \<Rightarrow> bool" where
  "val_ok (VDoc d) \<longleftrightarrow> list_all (\<lambda>(k, v). NUL \<notin> set k \<and> val_ok v) d"
| "val_ok (VArray vs) \<longleftrightarrow> list_all val_ok vs"
| "val_ok (VObjectID oid) \<longleftrightarrow> length oid = 12"
| "val_ok v \<longleftrightarrow> True"

abbreviation doc_ok :: "BSON \<Rightarrow> bool" where
  "doc_ok d \<equiv> list_all (\<lambda>(k, v). NUL \<notin> set k \<and> val_ok v) d"

lemma readCString_append:
  "NUL \<notin> set s \<Longrightarrow> readCString (p @ (s @ [NUL]) @ q) (length p) = Ok (s, length p + length (s @ [NUL]))"
  by (simp add: readCString_def index_from_append slice_append)

interpretation cstring: codec "\<lambda>s. s @ [NUL]" readCString "\<lambda>s. NUL \<notin> set s"
  by unfold_locales (rule readCString_append)

lemma sint_word_small: "n < 2 ^ 31 \<Longrightarrow> sint (word_of_nat n :: u32) = int n"
  using int_word_sint [where 'a = 32, of "int n"] mod_pos_pos_trivial [of "int n + 2 ^ 31" "2 ^ 32"] by simp

lemma read_fixed_at:
  "rest_at b i (m @ q) \<Longrightarrow> length m = n \<Longrightarrow> read_fixed errf n f b i = Ok (f m, i + n)"
  using rest_at_le [of b i m q n] rest_at_slice [of b i m q n] by (simp add: read_fixed_def)

lemma readBSONString_at:
  assumes at: "rest_at b i ((put_le32 (word_of_nat (length s + 1)) @ s @ [NUL]) @ q)" and len: "length s + 1 < 2 ^ 31"
  shows "readBSONString b i = Ok (s, i + length (put_le32 (word_of_nat (length s + 1)) @ s @ [NUL]))"
proof -
  define w where "w = (word_of_nat (length s + 1) :: u32)"
  have at1: "rest_at b i (put_le32 w @ s @ NUL # q)" using at by (simp add: w_def)
  have at2: "rest_at b (i + 4) (s @ NUL # q)" using rest_at_next [OF at1, of 4] by simp
  have at3: "rest_at b (i + 4 + length s) (NUL # q)" using rest_at_next [OF at2] by simp
  have n: "sint w = int (length s + 1)" unfolding w_def by (rule sint_word_small [OF len])
  show ?thesis
    using rest_at_slice [OF at1, of 4] rest_at_slice [OF at2, of "length s"] rest_at_Cons [OF at3] rest_at_le [OF at1, of 4]
    by (simp add: readBSONString_def Let_def n idx_def nat_add_distrib ac_simps)
qed

interpretation bson_string: codec "appendBSONString []" readBSONString "\<lambda>s. length s + 1 < 2 ^ 31"
proof
  fix s p q :: bytes
  assume len: "length s + 1 < 2 ^ 31"
  have "rest_at (p @ appendBSONString [] s @ q) (length p)
      ((put_le32 (word_of_nat (length s + 1)) @ s @ [NUL]) @ q)" by (simp add: rest_at_def appendBSONString_def)
  from readBSONString_at [OF this len]
  show "readBSONString (p @ appendBSONString [] s @ q) (length p) = Ok (s, length p + length (appendBSONString [] s))"
    by (simp add: appendBSONString_def)
qed

lemma read_binary_at:
  assumes at: "rest_at b i ((put_le32 (word_of_nat (length x)) @ [subtype] @ x) @ q)" and len: "length x < 2 ^ 31"
  shows "read_binary b i = Ok (VBinary subtype x, i + length (put_le32 (word_of_nat (length x)) @ [subtype] @ x))"
proof -
  define w where "w = (word_of_nat (length x) :: u32)"
  have at1: "rest_at b i (put_le32 w @ subtype # x @ q)" using at by (simp add: w_def)
  have at2: "rest_at b (i + 4) (subtype # x @ q)" using rest_at_next [OF at1, of 4] by simp
  have at3: "rest_at b (i + 5) (x @ q)" using rest_at_Cons [OF at2] by (simp add: add.commute)
  have n: "sint w = int (length x)" unfolding w_def by (rule sint_word_small [OF len])
  show ?thesis
    using rest_at_slice [OF at1, of 4] rest_at_Cons [OF at2] rest_at_slice [OF at3, of "length x"] rest_at_le [OF at3, of "length x"]
    by (simp add: read_binary_def Let_def n idx_def ac_simps)
qed

lemma doc_frame_length [simp]: "length (doc_frame body) = length body + 5"
  by (simp add: doc_frame_def)

lemma ReadBSONDocument_frame:
  assumes "length body + 5 < 2 ^ 31" and "read_elems (doc_frame body) 4 [] = Ok (d, n)"
  shows "ReadBSONDocument (doc_frame body @ q) = Ok (d, length body + 5)"
proof -
  let ?b = "doc_frame body @ q"
  define w where "w = (word_of_nat (length body + 5) :: u32)"
  have "take 4 ?b = put_le32 w" by (simp add: doc_frame_def w_def)
  moreover have "sint w = int (length body + 5)" unfolding w_def by (rule sint_word_small [OF assms(1)])
  moreover have "take (length body + 5) ?b = doc_frame body" by simp
  moreover have "n = length body + 5" using read_elems_length(2) [OF assms(2)] by simp
  ultimately show ?thesis
    using assms(2) by (simp add: ReadBSONDocument.simps [of ?b] nat_add_distrib)
qed

lemma readBSONValue_scalar:
  "t \<noteq> bsonDocument \<Longrightarrow> t \<noteq> bsonArray \<Longrightarrow> readBSONValue t b i = read_scalar t b i"
  by (simp add: readBSONValue.simps)

lemma readBSONValue_nested:
  assumes "rest_at b i (doc_frame body @ q)" and "length body + 5 < 2 ^ 31"
    and "read_elems (doc_frame body) 4 [] = Ok (d, n)"
  shows "readBSONValue bsonDocument b i = Ok (VDoc d, i + length (doc_frame body))"
    and "readBSONValue bsonArray b i = Ok (VArray (map snd d), i + length (doc_frame body))"
proof -
  have "slice b i (length b) = Ok (doc_frame body @ q)" 
    using rest_at_slice [of b i "doc_frame body @ q" "[]"] rest_at_length [OF assms(1)] assms(1) by simp
  then show "readBSONValue bsonDocument b i = Ok (VDoc d, i + length (doc_frame body))"
    and "readBSONValue bsonArray b i = Ok (VArray (map snd d), i + length (doc_frame body))"
    using ReadBSONDocument_frame [OF assms(2,3), of q] by (simp_all add: readBSONValue.simps bson_tags)
qed

lemma read_elems_step:
  assumes at: "rest_at doc i ((t # k @ [NUL] @ vb) @ q)" and t: "t \<noteq> NUL" and k: "NUL \<notin> set k"
    and val: "\<And>j. rest_at doc j (vb @ q) \<Longrightarrow> readBSONValue t doc j = Ok (v, j + length vb)"
  shows "\<exists>j. rest_at doc j q \<and> read_elems doc i out = read_elems doc j (out @ [(k, v)])"
proof -
  have h: "i < length doc" "doc ! i = t" and at1: "rest_at doc (i + 1) ((k @ [NUL]) @ vb @ q)"
    using rest_at_Cons [of doc i t "k @ [NUL] @ vb @ q"] at by simp_all
  note c = cstring.dec_at [OF k at1]
  let ?j = "i + 1 + length (k @ [NUL])"
  have "readBSONValue t doc ?j = Ok (v, ?j + length vb)" using c by (intro val) blast
  moreover have "rest_at doc (?j + length vb) q" using rest_at_next [OF conjunct2 [OF c]] by simp
  ultimately show ?thesis
    using h t c by (intro exI [of _ "?j + length vb"]) (simp add: read_elems.simps [of doc i out])
qed

lemma read_elems_end: "rest_at doc i [NUL] \<Longrightarrow> read_elems doc i out = Ok (out, length doc)"
  using rest_at_Cons [of doc i NUL "[]"] rest_at_length [of doc i "[NUL]"] by (simp add: read_elems.simps)

lemma tag_of_not_NUL: "tag_of v \<noteq> NUL"
  by (cases v) (simp_all add: tag_of_def bson_tags)

lemma rest_at_frame: "rest_at (doc_frame body) 4 (body @ [NUL])"
  by (simp add: rest_at_def doc_frame_def)

lemma read_scalar_at:
  assumes "rest_at b i (val_bytes v @ q)" and "length (val_bytes v) < 2 ^ 31" and "val_ok v"
    and "tag_of v \<noteq> bsonDocument" and "tag_of v \<noteq> bsonArray"
  shows "read_scalar (tag_of v) b i = Ok (norm_val v, i + length (val_bytes v))"
proof (cases v)
  case (VString s)
  then show ?thesis using readBSONString_at [of b i s q] assms by (simp add: read_scalar_def tag_of_def bson_tags)
next
  case (VBinary st x)
  then show ?thesis using read_binary_at [of b i x st q] assms by (simp add: read_scalar_def tag_of_def bson_tags)
next
  case (VTimestamp t k)
  have "read_fixed ''bson: truncated timestamp'' 8 (\<lambda>x. VTimestamp (le_uint32 (drop 4 x)) (le_uint32 (take 4 x))) b i
      = Ok (VTimestamp t k, i + 8)"
    using read_fixed_at [of b i "put_le32 k @ put_le32 t" q 8] assms VTimestamp by simp
  then show ?thesis using VTimestamp by (simp add: read_scalar_def tag_of_def bson_tags)
next
  case (VBool x)
  then show ?thesis using assms read_fixed_at [of b i "val_bytes v" q 1] by (simp add: read_scalar_def tag_of_def bson_tags)
qed (use assms read_fixed_at [OF assms(1) refl] in \<open>auto simp: read_scalar_def tag_of_def bson_tags\<close>)


lemma readBSONValue_scalar_at:
  assumes "val_ok v" and "rest_at b i (val_bytes v @ q)" and "length (val_bytes v) < 2 ^ 31"
    and "case v of VDoc _ \<Rightarrow> False | VArray _ \<Rightarrow> False | _ \<Rightarrow> True"
  shows "readBSONValue (tag_of v) b i = Ok (norm_val v, i + length (val_bytes v))"
proof -
  have "tag_of v \<noteq> bsonDocument" "tag_of v \<noteq> bsonArray" using assms(4) by (cases v; simp add: tag_of_def bson_tags)+
  with assms show ?thesis by (simp add: readBSONValue_scalar read_scalar_at)
qed

lemma read_val_bytes:
  shows "val_ok v \<Longrightarrow> rest_at b i (val_bytes v @ q) \<Longrightarrow> length (val_bytes v) < 2 ^ 31 \<Longrightarrow>
      readBSONValue (tag_of v) b i = Ok (norm_val v, i + length (val_bytes v))"
    and "doc_ok d \<Longrightarrow> rest_at doc j (elems_bytes d @ [NUL]) \<Longrightarrow> length (elems_bytes d) < 2 ^ 31 \<Longrightarrow>
      read_elems doc j out = Ok (out @ norm_doc d, length doc)"
    and "list_all val_ok vs \<Longrightarrow> rest_at doc j (array_bytes k vs @ [NUL]) \<Longrightarrow> length (array_bytes k vs) < 2 ^ 31 \<Longrightarrow>
      read_elems doc j out = Ok (out @ index_keys k (map norm_val vs), length doc)"
proof (induction v and d and k vs arbitrary: b i q and doc j out and doc j out rule: val_bytes_elems_bytes_array_bytes.induct)
  case (3 d)
  have "read_elems (doc_frame (elems_bytes d)) 4 [] = Ok (norm_doc d, length (doc_frame (elems_bytes d)))"
    using "3.prems" by (subst "3.IH") (simp_all add: rest_at_frame)
  with "3.prems" readBSONValue_nested(1) [of b i "elems_bytes d" q] show ?case by (simp add: tag_of_def)
next
  case (4 vs)
  have "map snd (index_keys k xs) = xs" for k and xs :: "bval list" by (simp add: index_keys_def)
  moreover have "read_elems (doc_frame (array_bytes 0 vs)) 4 [] =
      Ok (index_keys 0 (map norm_val vs), length (doc_frame (array_bytes 0 vs)))"
    using "4.prems" by (subst "4.IH") (simp_all add: rest_at_frame)
  ultimately show ?case
    using "4.prems" readBSONValue_nested(2) [of b i "array_bytes 0 vs" q] by (simp add: tag_of_def)
next
  case (15 k v d)
  have "\<exists>j'. rest_at doc j' (elems_bytes d @ [NUL]) \<and> read_elems doc j out = read_elems doc j' (out @ [(k, norm_val v)])"
    using "15.prems" by (intro read_elems_step [where vb = "val_bytes v" and t = "tag_of v"] "15.IH"(1)) (auto simp: tag_of_not_NUL)
  then obtain j' where j': "rest_at doc j' (elems_bytes d @ [NUL])"
    "read_elems doc j out = read_elems doc j' (out @ [(k, norm_val v)])" by blast
  with "15.prems" "15.IH"(2) [OF _ j'(1)] show ?case by simp
next
  case (17 k v vs)
  have "\<exists>j'. rest_at doc j' (array_bytes (k + 1) vs @ [NUL])
      \<and> read_elems doc j out = read_elems doc j' (out @ [(Itoa (int k), norm_val v)])"
    using "17.prems" by (intro read_elems_step [where vb = "val_bytes v" and t = "tag_of v"] "17.IH"(1)) (auto simp: tag_of_not_NUL Itoa_no_NUL)
  then obtain j' where j': "rest_at doc j' (array_bytes (k + 1) vs @ [NUL])"
    "read_elems doc j out = read_elems doc j' (out @ [(Itoa (int k), norm_val v)])" by blast
  with "17.prems" "17.IH"(2) [OF _ j'(1)] show ?case by simp
next
  case 14
  then show ?case by (simp add: read_elems_end)
next
  case 16
  then show ?case by (simp add: read_elems_end)
qed (rule readBSONValue_scalar_at, assumption+, simp)+

lemma MarshalBSON_eq: "MarshalBSON d = doc_frame (elems_bytes d)"
  by (simp add: MarshalBSON_def AppendBSON_eq)

lemma ReadBSONDocument_MarshalBSON:
  assumes "doc_ok d" and "length (MarshalBSON d) < 2 ^ 31"
  shows "ReadBSONDocument (MarshalBSON d @ q) = Ok (norm_doc d, length (MarshalBSON d))"
proof -
  have "read_elems (doc_frame (elems_bytes d)) 4 [] = Ok (norm_doc d, length (doc_frame (elems_bytes d)))"
    using read_val_bytes(2) [OF assms(1) rest_at_frame] assms(2) by (simp add: MarshalBSON_eq)
  from ReadBSONDocument_frame [OF _ this] assms(2) show ?thesis by (simp add: MarshalBSON_eq)
qed

text \<open>C20. What the encoder writes, the decoder reads: any document with NUL-free keys that fits into 31
  bits comes back whole, in order, nested documents and arrays included, and the decoder reports exactly
  the bytes the encoder wrote. A Go \<open>int\<close> comes back as the \<open>int32\<close> it was written as.\<close>

theorem bson_roundtrip:
  assumes "doc_ok d" and "length (MarshalBSON d) < 2 ^ 31"
  shows "ReadBSONDocument (MarshalBSON d @ q) = Ok (norm_doc d, length (MarshalBSON d))"
  using assms by (rule ReadBSONDocument_MarshalBSON)

definition sample_doc :: BSON where
  "sample_doc =
     [(''hello'', VInt 1), (''client'', VDoc [(''driver'', VString ''test''), (''tags'', VArray [VBool True, VNull])]),
      (''at'', VTimestamp 7 1), (''payload'', VBinary BinarySubtypeGeneric ''n,,n=u'')]"

theorem bson_roundtrip_witness:
  "ReadBSONDocument (MarshalBSON sample_doc @ ''tail'') = Ok (norm_doc sample_doc, length (MarshalBSON sample_doc))
   \<and> norm_doc sample_doc \<noteq> sample_doc"
  by (rule conjI, rule bson_roundtrip)
    (simp_all add: sample_doc_def MarshalBSON_eq Itoa_def nat_itoa.simps)

lemma sample_doc_reads:
  "ReadBSONDocument (MarshalBSON sample_doc @ q) = Ok (norm_doc sample_doc, length (MarshalBSON sample_doc))"
  by (rule ReadBSONDocument_MarshalBSON) (simp_all add: sample_doc_def MarshalBSON_eq Itoa_def nat_itoa.simps)

theorem bson_read_safe_witness:
  "ReadBSONDocument (MarshalBSON sample_doc @ ''x'') = Ok (norm_doc sample_doc, length (MarshalBSON sample_doc))
   \<and> ReadBSONDocument (take (length (MarshalBSON sample_doc)) (MarshalBSON sample_doc @ ''x'') @ ''y'') =
       Ok (norm_doc sample_doc, length (MarshalBSON sample_doc))"
  using bson_read_safe [of "MarshalBSON sample_doc @ ''x''" "norm_doc sample_doc" "length (MarshalBSON sample_doc)" "''y''"]
    sample_doc_reads [of "''x''"] by blast

end
