(* ===== verification/MongoWire.thy ===== *)
theory MongoWire
  imports GoIO Bson
begin

text \<open>
  \<open>internal/proxy/mongowire.go\<close>: the MongoDB message header, \<open>OP_MSG\<close>, \<open>OP_QUERY\<close> and \<open>OP_REPLY\<close>.
  \<open>int32\<close> fields are 32-bit words, compared as signed numbers. Messages are read back as they were
  written, and the parsers never panic.
\<close>

definition OpReply :: u32 where "OpReply = 1"
definition OpQuery :: u32 where "OpQuery = 2004"
definition OpMsg :: u32 where "OpMsg = 2013"
definition msgHeaderLen :: nat where "msgHeaderLen = 16"
definition MaxMessageSize :: nat where "MaxMessageSize = 64 * 1024 * 1024"
definition OpMsgFlagChecksumPresent :: u32 where "OpMsgFlagChecksumPresent = 1"
definition OpMsgFlagMoreToCome :: u32 where "OpMsgFlagMoreToCome = 2"
definition OpMsgFlagExhaustAllowed :: u32 where "OpMsgFlagExhaustAllowed = 65536"

record MsgHeader =
  mh_MessageLength :: u32
  mh_RequestID :: u32
  mh_ResponseTo :: u32
  mh_OpCode :: u32

definition parse_header :: "bytes \<Rightarrow> MsgHeader" where
  "parse_header hdr =
     \<lparr>mh_MessageLength = le_uint32 (take 4 hdr), mh_RequestID = le_uint32 (take 4 (drop 4 hdr)),
      mh_ResponseTo = le_uint32 (take 4 (drop 8 hdr)), mh_OpCode = le_uint32 (take 4 (drop 12 hdr))\<rparr>"

definition ReadMongoMessage :: "(conn, MsgHeader \<times> bytes) io" where
  "ReadMongoMessage =
     bindIO (ReadFull msgHeaderLen) (\<lambda>hdr.
       let h = parse_header hdr; len = sint (mh_MessageLength h) in
       if len < int msgHeaderLen \<or> len > int MaxMessageSize
       then errIO (Errorf ''mongo message length out of range: %d'' [AInt len])
       else bindIO (ReadFull (nat len - msgHeaderLen)) (\<lambda>body. retIO (h, body)))"

definition mongo_header :: "u32 \<Rightarrow> u32 \<Rightarrow> u32 \<Rightarrow> nat \<Rightarrow> bytes" where
  "mongo_header requestID responseTo opCode n =
     put_le32 (word_of_nat (msgHeaderLen + n)) @ put_le32 requestID @ put_le32 responseTo @ put_le32 opCode"

definition WriteMongoMessage :: "u32 \<Rightarrow> u32 \<Rightarrow> u32 \<Rightarrow> bytes \<Rightarrow> (conn, unit) io" where
  "WriteMongoMessage requestID responseTo opCode body =
     bindIO (Write (mongo_header requestID responseTo opCode (length body))) (\<lambda>_. Write body)"

section \<open>OP_MSG\<close>

definition EncodeOpMsgBody :: "u32 \<Rightarrow> BSON \<Rightarrow> bytes" where
  "EncodeOpMsgBody flags doc = AppendBSON (put_le32 flags @ [CHR 0x00]) doc"

text \<open>The loop over the sections; \<open>doc\<close> holds the body section once it is found.\<close>

function parse_sections :: "bytes \<Rightarrow> BSON option \<Rightarrow> BSON option res" where
  "parse_sections sections doc =
     (if sections = [] then Ok doc
      else
        let kind = sections ! 0; sections = drop 1 sections in
        if kind = CHR 0x00 then
          bindR (wrapR (\<lambda>e. Errorf ''op_msg: body section: %w'' [AWrap e]) (ReadBSONDocument sections)) (\<lambda>(d, n).
            if doc \<noteq> None then Err (Errorf ''op_msg: more than one body section'' [])
            else bindR (slice sections n (length sections)) (\<lambda>sections. parse_sections sections (Some d)))
        else if kind = CHR 0x01 then
          (if length sections < 4 then Err (Errorf ''op_msg: truncated document-sequence size'' [])
           else
             let size = sint (le_uint32 (take 4 sections)) in
             if size < 4 \<or> size > int (length sections)
             then Err (Errorf ''op_msg: document-sequence size %d out of range'' [AInt size])
             else parse_sections (drop (nat size) sections) doc)
        else Err (Errorf ''op_msg: unknown section kind %d'' [AByte kind]))"
  by pat_completeness auto

termination parse_sections
  by (relation "measure (length \<circ> fst)") (auto simp: slice_eq_Ok_iff)

declare parse_sections.simps [simp del]

definition ParseOpMsg :: "bytes \<Rightarrow> (u32 \<times> BSON) res" where
  "ParseOpMsg body =
     (if length body < 5 then Err (Errorf ''op_msg: body too short (%d bytes)'' [AInt (int (length body))])
      else
        let flags = le_uint32 (take 4 body); sections = drop 4 body in
        if flags AND OpMsgFlagChecksumPresent \<noteq> 0 \<and> length sections < 4
        then Err (Errorf ''op_msg: checksum flag set but body too short'' [])
        else
          let sections = (if flags AND OpMsgFlagChecksumPresent \<noteq> 0
                          then take (length sections - 4) sections else sections) in
          bindR (parse_sections sections None) (\<lambda>found.
            case found of
              None \<Rightarrow> Err (Errorf ''op_msg: no body section'' [])
            | Some doc \<Rightarrow> Ok (flags, doc)))"

section \<open>OP_QUERY and OP_REPLY\<close>

definition ParseOpQuery :: "bytes \<Rightarrow> (u32 \<times> string \<times> u32 \<times> u32 \<times> BSON) res" where
  "ParseOpQuery body =
     (if length body < 4 then Err (Errorf ''op_query: body too short'' [])
      else
        bindR (wrapR (\<lambda>e. Errorf ''op_query: collection: %w'' [AWrap e]) (readCString body 4)) (\<lambda>(fullCollection, pos).
        if pos + 8 > length body then Err (Errorf ''op_query: truncated skip/return'' [])
        else
          bindR (slice body pos (pos + 4)) (\<lambda>skip.
          bindR (slice body (pos + 4) (pos + 8)) (\<lambda>ret.
          bindR (slice body (pos + 8) (length body)) (\<lambda>rest.
          bindR (wrapR (\<lambda>e. Errorf ''op_query: query document: %w'' [AWrap e]) (ReadBSONDocument rest)) (\<lambda>(query, _).
            Ok (le_uint32 (take 4 body), fullCollection, le_uint32 skip, le_uint32 ret, query)))))))"

definition EncodeOpReplyBody :: "u32 \<Rightarrow> u64 \<Rightarrow> u32 \<Rightarrow> BSON list \<Rightarrow> bytes" where
  "EncodeOpReplyBody responseFlags cursorID startingFrom docs =
     foldl AppendBSON
       (put_le32 responseFlags @ put_le64 cursorID @ put_le32 startingFrom @ put_le32 (word_of_nat (length docs))) docs"

section \<open>Framing\<close>

definition mongo_frame :: "MsgHeader \<times> bytes \<Rightarrow> bytes" where
  "mongo_frame m =
     mongo_header (mh_RequestID (fst m)) (mh_ResponseTo (fst m)) (mh_OpCode (fst m)) (length (snd m)) @ snd m"

definition mongo_valid :: "MsgHeader \<times> bytes \<Rightarrow> bool" where
  "mongo_valid m \<longleftrightarrow>
     mh_MessageLength (fst m) = word_of_nat (msgHeaderLen + length (snd m)) \<and> msgHeaderLen + length (snd m) \<le> MaxMessageSize"

lemma length_mongo_header [simp]: "length (mongo_header r t p n) = msgHeaderLen"
  by (simp add: mongo_header_def msgHeaderLen_def)

lemma parse_mongo_header:
  "parse_header (mongo_header r t p n) =
     \<lparr>mh_MessageLength = word_of_nat (msgHeaderLen + n), mh_RequestID = r, mh_ResponseTo = t, mh_OpCode = p\<rparr>"
  by (simp add: parse_header_def mongo_header_def)

interpretation mongo: framing mongo_frame ReadMongoMessage mongo_valid
proof
  fix m :: "MsgHeader \<times> bytes" and c :: conn and rest
  assume valid: "mongo_valid m" and c: "\<not> cclosed c" and cin: "cin c = mongo_frame m @ rest"
  obtain h body where m: "m = (h, body)" by (cases m)
  let ?hdr = "mongo_header (mh_RequestID h) (mh_ResponseTo h) (mh_OpCode h) (length body)"
  have h: "parse_header ?hdr = h" using valid by (simp add: parse_mongo_header m mongo_valid_def)
  have bound: "msgHeaderLen + length body \<le> MaxMessageSize" using valid by (simp add: m mongo_valid_def)
  then have len: "sint (mh_MessageLength h) = int (msgHeaderLen + length body)"
    using valid by (simp add: m mongo_valid_def sint_word_small MaxMessageSize_def del: of_nat_add)
  have r1: "ReadFull msgHeaderLen c = (Ok ?hdr, c\<lparr>cin := body @ rest\<rparr>)"
    using c cin by (intro ReadFull_append) (simp_all add: m mongo_frame_def)
  have r2: "ReadFull (length body) (c\<lparr>cin := body @ rest\<rparr>) = (Ok body, c\<lparr>cin := rest\<rparr>)"
    using c by (subst ReadFull_append) simp_all
  show "ReadMongoMessage c = (Ok m, c\<lparr>cin := rest\<rparr>)"
    using r1 r2 bound by (simp add: ReadMongoMessage_def h len m nat_add_distrib)
next
  fix m :: "MsgHeader \<times> bytes"
  show "mongo_frame m \<noteq> []"
    by (simp add: mongo_frame_def mongo_header_def) (metis length_put(2) list.size(3) zero_neq_numeral)
qed

lemma WriteMongoMessage_Ok_iff:
  "WriteMongoMessage r t p body c = (Ok (), c') \<longleftrightarrow>
     can_write (msgHeaderLen + length body) c
     \<and> c' = wrote (mongo_header r t p (length body) @ body) c"
  using can_write_append [of "mongo_header r t p (length body)" body c]
  by (auto simp: WriteMongoMessage_def bindIO_eq_Ok_iff Write_Ok_iff)

lemma ReadMongoMessage_OkD:
  assumes "ReadMongoMessage c = (Ok m, c')"
  shows "length (cin c') < length (cin c)" and "\<exists>i. c' = c\<lparr>cin := i\<rparr>"
    and "ReadMongoMessage (fresh_conn (cin c)) = (Ok m, fresh_conn (cin c'))"
proof -
  from assms obtain hdr c1 body n where h: "ReadFull msgHeaderLen c = (Ok hdr, c1)" and b: "ReadFull n c1 = (Ok body, c')"
    and m: "m = (parse_header hdr, body)" and len: "\<not> sint (mh_MessageLength (parse_header hdr)) < int msgHeaderLen"
      "\<not> sint (mh_MessageLength (parse_header hdr)) > int MaxMessageSize"
    and n: "n = nat (sint (mh_MessageLength (parse_header hdr))) - msgHeaderLen"
    by (auto simp: ReadMongoMessage_def bindIO_eq_Ok_iff Let_def split: if_splits)
  note f1 = ReadFull_fresh [OF h] and f2 = ReadFull_fresh [OF b]
  have "cin c = (hdr @ body) @ cin c'" "length hdr = 16" using f1 f2 by (simp_all add: msgHeaderLen_def)
  then show "length (cin c') < length (cin c)" by simp
  from f1 f2 show "\<exists>i. c' = c\<lparr>cin := i\<rparr>" by auto
  have "ReadFull msgHeaderLen (fresh_conn (cin c)) = (Ok hdr, fresh_conn (cin c1))"
    "ReadFull n (fresh_conn (cin c1)) = (Ok body, fresh_conn (cin c'))" using f1 f2 by blast+
  then show "ReadMongoMessage (fresh_conn (cin c)) = (Ok m, fresh_conn (cin c'))"
    using len by (simp add: ReadMongoMessage_def m n [symmetric])
qed

section \<open>The parsers never panic\<close>

lemma parse_sections_not_Panic: "parse_sections s doc \<noteq> Panic"
proof (induction s doc rule: parse_sections.induct)
  case (1 s doc)
  have n: "ReadBSONDocument (drop (Suc 0) s) = Ok (d, n) \<Longrightarrow> n \<le> length s - Suc 0" for d n
    using ReadBSONDocument_Ok_length [of "drop (Suc 0) s" d n] by simp
  from 1 show ?case
    by (subst parse_sections.simps)
      (auto simp: Let_def bindR_eq_Panic_iff read_not_Panic slice_def dest: n)
qed

lemma ParseOpMsg_not_Panic: "ParseOpMsg body \<noteq> Panic"
  by (auto simp: ParseOpMsg_def Let_def bindR_eq_Panic_iff parse_sections_not_Panic split: option.splits)

lemma ParseOpQuery_not_Panic: "ParseOpQuery body \<noteq> Panic"
  by (auto simp: ParseOpQuery_def bindR_eq_Panic_iff readCString_not_Panic read_not_Panic slice_def)

section \<open>OP_MSG is read back\<close>

text \<open>A document sequence section: its size counts itself.\<close>

definition seq_section :: "bytes \<Rightarrow> bytes" where
  "seq_section x = CHR 0x01 # put_le32 (word_of_nat (length x + 4)) @ x"

lemma parse_seq_section:
  assumes "length x + 4 < 2 ^ 31"
  shows "parse_sections (seq_section x @ q) doc = parse_sections q doc"
proof -
  define w where "w = (word_of_nat (length x + 4) :: u32)"
  have w: "sint w = int (length x + 4)" unfolding w_def by (rule sint_word_small [OF assms])
  define t where "t = seq_section x @ q"
  have "drop 1 t = put_le32 w @ x @ q" "t ! 0 = CHR 0x01" "t \<noteq> []"
    by (simp_all add: t_def seq_section_def w_def)
  then have "parse_sections t doc = parse_sections q doc"
    by (simp add: parse_sections.simps [of t] w nat_add_distrib)
  then show ?thesis by (simp add: t_def)
qed

lemma parse_seq_sections:
  "list_all (\<lambda>x. length x + 4 < 2 ^ 31) xs \<Longrightarrow>
   parse_sections (concat (map seq_section xs) @ q) doc = parse_sections q doc"
  by (induction xs) (simp_all add: parse_seq_section)

lemma parse_body_section:
  assumes "doc_ok d" and "length (MarshalBSON d) < 2 ^ 31"
  shows "parse_sections (CHR 0x00 # MarshalBSON d @ q) None = parse_sections q (Some (norm_doc d))"
  using ReadBSONDocument_MarshalBSON [OF assms, of q]
  by (subst parse_sections.simps) (simp add: slice_def)

lemma EncodeOpMsgBody_eq: "EncodeOpMsgBody flags doc = put_le32 flags @ CHR 0x00 # MarshalBSON doc"
  by (simp add: EncodeOpMsgBody_def AppendBSON_eq MarshalBSON_eq)

lemma ParseOpMsg_split:
  assumes "parse_sections s None = Ok (Some d)" and "s \<noteq> []"
    and "length crc = (if flags AND OpMsgFlagChecksumPresent \<noteq> 0 then 4 else 0)"
  shows "ParseOpMsg (put_le32 flags @ s @ crc) = Ok (flags, d)"
  using assms by (cases "flags AND OpMsgFlagChecksumPresent = 0") (auto simp: ParseOpMsg_def neq_Nil_conv)

lemma ParseOpMsg_sections:
  assumes doc: "doc_ok d" "length (MarshalBSON d) < 2 ^ 31"
    and seqs: "list_all (\<lambda>x. length x + 4 < 2 ^ 31) xs" "list_all (\<lambda>x. length x + 4 < 2 ^ 31) ys"
    and crc: "length crc = (if flags AND OpMsgFlagChecksumPresent \<noteq> 0 then 4 else 0)"
  shows "ParseOpMsg (put_le32 flags @ concat (map seq_section xs) @ (CHR 0x00 # MarshalBSON d)
           @ concat (map seq_section ys) @ crc) = Ok (flags, norm_doc d)"
proof -
  let ?s = "concat (map seq_section xs) @ (CHR 0x00 # MarshalBSON d) @ concat (map seq_section ys)"
  have "parse_sections ?s None = Ok (Some (norm_doc d))"
    using parse_seq_sections [OF seqs(1)] parse_seq_sections [OF seqs(2), of "[]"] parse_body_section [OF doc]
    by (simp add: parse_sections.simps [of "[]"])
  from ParseOpMsg_split [OF this _ crc] show ?thesis by simp
qed

lemma ParseOpMsg_EncodeOpMsgBody:
  assumes "doc_ok d" and "length (MarshalBSON d) < 2 ^ 31" and "flags AND OpMsgFlagChecksumPresent = 0"
  shows "ParseOpMsg (EncodeOpMsgBody flags d) = Ok (flags, norm_doc d)"
  using ParseOpMsg_sections [OF assms(1,2), of "[]" "[]" "[]" flags] assms(3) by (simp add: EncodeOpMsgBody_eq)

text \<open>The \<open>OP_MSG\<close> parser finds the command document whatever surrounds it: document sequences before
  and behind it are skipped, the checksum is cut off exactly when the flag announces one, and the
  document is returned as it was encoded. On any bytes at all neither parser panics.\<close>

theorem op_msg_command_found:
  assumes "doc_ok d" and "length (MarshalBSON d) < 2 ^ 31"
    and "list_all (\<lambda>x. length x + 4 < 2 ^ 31) xs" and "list_all (\<lambda>x. length x + 4 < 2 ^ 31) ys"
    and "length crc = (if flags AND OpMsgFlagChecksumPresent \<noteq> 0 then 4 else 0)"
  shows "ParseOpMsg (put_le32 flags @ concat (map seq_section xs) @ (CHR 0x00 # MarshalBSON d)
           @ concat (map seq_section ys) @ crc) = Ok (flags, norm_doc d)
     \<and> ParseOpMsg b \<noteq> Panic \<and> ParseOpQuery b \<noteq> Panic"
  using ParseOpMsg_sections [OF assms] ParseOpMsg_not_Panic ParseOpQuery_not_Panic by blast

theorem op_msg_command_found_witness:
  "ParseOpMsg (put_le32 1 @ concat (map seq_section [''abc'']) @ (CHR 0x00 # MarshalBSON [(''ping'', VInt32 1)])
     @ concat (map seq_section []) @ ''CRC!'') = Ok (1, [(''ping'', VInt32 1)])"
  using op_msg_command_found [of "[(''ping'', VInt32 1)]" "[''abc'']" "[]" "''CRC!''" 1 "[]"]
  by (simp add: OpMsgFlagChecksumPresent_def MarshalBSON_eq)

text \<open>Message framing is lossless: any sequence of MongoDB messages within the size limit is read back
  as the same sequence, headers and bodies, whatever follows on the stream.\<close>

theorem mongo_stream_roundtrip:
  assumes "list_all mongo_valid ms" and "\<not> cclosed c" and "cin c = concat (map mongo_frame ms) @ rest"
  shows "read_n ReadMongoMessage (length ms) c = (Ok ms, c\<lparr>cin := rest\<rparr>)"
  using assms by (rule mongo.read_stream)

definition sample_msg :: "MsgHeader \<times> bytes" where
  "sample_msg = (\<lparr>mh_MessageLength = 19, mh_RequestID = 5, mh_ResponseTo = 0, mh_OpCode = OpMsg\<rparr>, ''abc'')"

theorem mongo_stream_roundtrip_witness:
  "read_n ReadMongoMessage 2 (fresh_conn (mongo_frame sample_msg @ mongo_frame sample_msg)) =
     (Ok [sample_msg, sample_msg], (fresh_conn (mongo_frame sample_msg @ mongo_frame sample_msg))\<lparr>cin := []\<rparr>)"
  using mongo_stream_roundtrip [of "[sample_msg, sample_msg]" "fresh_conn (mongo_frame sample_msg @ mongo_frame sample_msg)" "[]"]
  by (simp add: fresh_conn_def mongo_valid_def sample_msg_def msgHeaderLen_def MaxMessageSize_def numeral_2_eq_2)

end
