(* ===== verification/MongoCommands.thy ===== *)
theory MongoCommands
  imports MongoWire
begin

text \<open>
  \<open>internal/proxy/mongohandshake.go\<close> and \<open>internal/proxy/mongoadmin.go\<close>: decoding a client's command,
  the replies that the proxy gives itself before a connection is routed, and writing them.
\<close>

section \<open>The handshake\<close>

definition mongoMaxBSONObjectSize :: u32 where "mongoMaxBSONObjectSize = 16 * 1024 * 1024"
definition mongoMaxMessageSizeBytes :: u32 where "mongoMaxMessageSizeBytes = 48 * 1000 * 1000"
definition mongoMaxWriteBatchSize :: u32 where "mongoMaxWriteBatchSize = 100000"
definition mongoLogicalSessionTTLMin :: u32 where "mongoLogicalSessionTTLMin = 30"
definition mongoMinWireVersion :: u32 where "mongoMinWireVersion = 0"
definition mongoMaxWireVersion :: u32 where "mongoMaxWireVersion = 17"

text \<open>The \<open>float64\<close> constants \<open>1.0\<close> and \<open>0.0\<close>.\<close>

definition float_one :: u64 where "float_one = 0x3FF0000000000000"
definition float_zero :: u64 where "float_zero = 0"

definition IsHelloCommand :: "'c env \<Rightarrow> BSON \<Rightarrow> bool" where
  "IsHelloCommand env doc \<longleftrightarrow>
     (case doc of [] \<Rightarrow> False
      | (k, _) # _ \<Rightarrow> let n = ToLower (env_toLower env) k in n = ''hello'' \<or> n = ''ismaster'')"

definition BuildHelloReply :: "u32 \<Rightarrow> u64 \<Rightarrow> BSON" where
  "BuildHelloReply connectionID now =
     [(''isWritablePrimary'', VBool True),
      (''ismaster'', VBool True),
      (''helloOk'', VBool True),
      (''maxBsonObjectSize'', VInt32 mongoMaxBSONObjectSize),
      (''maxMessageSizeBytes'', VInt32 mongoMaxMessageSizeBytes),
      (''maxWriteBatchSize'', VInt32 mongoMaxWriteBatchSize),
      (''localTime'', VDateTime now),
      (''logicalSessionTimeoutMinutes'', VInt32 mongoLogicalSessionTTLMin),
      (''connectionId'', VInt32 connectionID),
      (''minWireVersion'', VInt32 mongoMinWireVersion),
      (''maxWireVersion'', VInt32 mongoMaxWireVersion),
      (''readOnly'', VBool False),
      (''ok'', VDouble float_one)]"

record MongoCommand =
  mc_Doc :: BSON
  mc_DB :: string
  mc_OpCode :: u32
  mc_RequestID :: u32

definition CommandName :: "MongoCommand \<Rightarrow> string" where
  "CommandName c = (case mc_Doc c of [] \<Rightarrow> [] | (k, _) # _ \<Rightarrow> k)"

definition lookupBSONString :: "BSON \<Rightarrow> string \<Rightarrow> string \<times> bool" where
  "lookupBSONString doc key =
     (case Lookup doc key of Some (VString s) \<Rightarrow> (s, True) | _ \<Rightarrow> ([], False))"

definition decodeMongoCommand :: "MsgHeader \<Rightarrow> bytes \<Rightarrow> MongoCommand res" where
  "decodeMongoCommand hdr body =
     (if mh_OpCode hdr = OpMsg then
        bindR (ParseOpMsg body) (\<lambda>(_, doc).
          Ok \<lparr>mc_Doc = doc, mc_DB = fst (lookupBSONString doc ''$db''), mc_OpCode = OpMsg,
              mc_RequestID = mh_RequestID hdr\<rparr>)
      else if mh_OpCode hdr = OpQuery then
        bindR (ParseOpQuery body) (\<lambda>(_, fullCollection, _, _, query).
          Ok \<lparr>mc_Doc = query, mc_DB = takeWhile (\<lambda>c. c \<noteq> CHR ''.'') fullCollection, mc_OpCode = OpQuery,
              mc_RequestID = mh_RequestID hdr\<rparr>)
      else Err (Errorf ''mongo: unexpected opcode %d during handshake'' [AInt (sint (mh_OpCode hdr))]))"

definition ReadMongoCommand :: "(conn, MongoCommand) io" where
  "ReadMongoCommand = bindIO ReadMongoMessage (\<lambda>(hdr, body). liftIO (decodeMongoCommand hdr body))"

definition WriteMongoReply :: "u32 \<Rightarrow> u32 \<Rightarrow> BSON \<Rightarrow> (conn, unit) io" where
  "WriteMongoReply reqOpCode responseTo doc =
     (if reqOpCode = OpMsg then WriteMongoMessage 0 responseTo OpMsg (EncodeOpMsgBody 0 doc)
      else if reqOpCode = OpQuery
      then WriteMongoMessage 0 responseTo OpReply (EncodeOpReplyBody 0 0 0 [doc])
      else errIO (Errorf ''mongo: cannot reply to opcode %d'' [AInt (sint reqOpCode)]))"

section \<open>Administrative commands\<close>

definition mongoFakeVersion :: string where "mongoFakeVersion = ''6.0.0''"
definition mongoFakeFCV :: string where "mongoFakeFCV = ''6.0''"

definition mongoBuildInfoReply :: BSON where
  "mongoBuildInfoReply =
     [(''version'', VString mongoFakeVersion),
      (''versionArray'', VArray [VInt32 6, VInt32 0, VInt32 0, VInt32 0]),
      (''gitVersion'', VString []),
      (''maxBsonObjectSize'', VInt32 mongoMaxBSONObjectSize),
      (''bits'', VInt32 64),
      (''debug'', VBool False),
      (''ok'', VDouble float_one)]"

definition mongoGetParameterReply :: "BSON \<Rightarrow> BSON" where
  "mongoGetParameterReply doc =
     (let wantAll = (Lookup doc ''getParameter'' = Some (VString ''*'')) in
      (if Lookup doc ''featureCompatibilityVersion'' \<noteq> None \<or> wantAll
       then [(''featureCompatibilityVersion'', VDoc [(''version'', VString mongoFakeFCV)])] else [])
      @ [(''ok'', VDouble float_one)])"

definition BuildAdminCommandReply :: "'c env \<Rightarrow> MongoCommand \<Rightarrow> string \<Rightarrow> BSON option" where
  "BuildAdminCommandReply env cmd clientAddr =
     (let name = ToLower (env_toLower env) (CommandName cmd) in
      if name = ''ping'' then Some [(''ok'', VDouble float_one)]
      else if name = ''buildinfo'' then Some mongoBuildInfoReply
      else if name = ''getparameter'' then Some (mongoGetParameterReply (mc_Doc cmd))
      else if name = ''getlog''
      then Some [(''totalLinesWritten'', VInt32 0), (''log'', VArray []), (''ok'', VDouble float_one)]
      else if name = ''whatsmyuri'' then Some [(''you'', VString clientAddr), (''ok'', VDouble float_one)]
      else if name = ''connectionstatus''
      then Some [(''authInfo'', VDoc [(''authenticatedUsers'', VArray []), (''authenticatedUserRoles'', VArray [])]),
                 (''ok'', VDouble float_one)]
      else if name = ''getcmdlineopts''
      then Some [(''argv'', VArray []), (''parsed'', VDoc []), (''ok'', VDouble float_one)]
      else if name = ''endsessions'' then Some [(''ok'', VDouble float_one)]
      else None)"

section \<open>Replies\<close>

lemma WriteMongoReply_not_Panic: "fst (WriteMongoReply p r doc c) \<noteq> Panic"
proof -
  have "fst (WriteMongoMessage a b p body c) \<noteq> Panic" for a b p body
  proof -
    obtain r c' where w: "Write (mongo_header a b p (length body)) c = (r, c')" by (cases "Write (mongo_header a b p (length body)) c")
    then have "r \<noteq> Panic" using Write_not_Panic by (metis fst_conv)
    with w show ?thesis by (cases r) (simp_all add: WriteMongoMessage_def bindIO_def)
  qed
  then show ?thesis by (simp add: WriteMongoReply_def)
qed

lemma decodeMongoCommand_not_Panic: "decodeMongoCommand hdr body \<noteq> Panic"
  by (auto simp: decodeMongoCommand_def bindR_eq_Panic_iff ParseOpMsg_not_Panic ParseOpQuery_not_Panic)

lemma decodeMongoCommand_OpCode:
  "decodeMongoCommand hdr body = Ok cmd \<Longrightarrow> mh_OpCode hdr = OpMsg \<or> mh_OpCode hdr = OpQuery"
  by (auto simp: decodeMongoCommand_def split: if_splits)

text \<open>The message of a reply.\<close>

definition reply_frame :: "u32 \<Rightarrow> u32 \<Rightarrow> BSON \<Rightarrow> bytes" where
  "reply_frame reqOpCode responseTo doc =
     (let body = (if reqOpCode = OpMsg then EncodeOpMsgBody 0 doc else EncodeOpReplyBody 0 0 0 [doc])
      in mongo_header 0 responseTo (if reqOpCode = OpMsg then OpMsg else OpReply) (length body) @ body)"

lemma WriteMongoReply_Ok:
  assumes "reqOpCode = OpMsg \<or> reqOpCode = OpQuery" and "\<not> cclosed c" and "ccap c = None"
  shows "WriteMongoReply reqOpCode responseTo doc c = (Ok (), wrote (reply_frame reqOpCode responseTo doc) c)"
  using assms WriteMongoMessage_Ok_iff [of 0 responseTo]
  by (auto simp: WriteMongoReply_def reply_frame_def Let_def can_write_def)

text \<open>A reply in \<open>OP_REPLY\<close> form carries the document behind twenty bytes of fixed fields.\<close>

lemma EncodeOpReplyBody_one:
  "EncodeOpReplyBody 0 0 0 [doc] = put_le32 0 @ put_le64 0 @ put_le32 0 @ put_le32 1 @ MarshalBSON doc"
  by (simp add: EncodeOpReplyBody_def AppendBSON_eq MarshalBSON_eq)

end
