(* ===== verification/MongoAuth.thy ===== *)
theory MongoAuth
  imports PgAuth MongoCommands
begin

text \<open>
  \<open>internal/proxy/mongoauth.go\<close>: the login on a MongoDB upstream, SCRAM-SHA-256 carried by the commands
  \<open>saslStart\<close> and \<open>saslContinue\<close>. A login that succeeds has verified the server's signature and has
  sent nothing but the commands of the exchange; the loop that finishes the conversation ends because
  every round reads a reply.
\<close>

definition mongoScramMechanism :: string where "mongoScramMechanism = ''SCRAM-SHA-256''"
definition mongoProxyDriverVersion :: string where "mongoProxyDriverVersion = ''1.0''"

section \<open>Replies\<close>

definition mongoToInt32 :: "'c env \<Rightarrow> bval \<Rightarrow> u32" where
  "mongoToInt32 env v =
     (case v of VInt32 n \<Rightarrow> n | VInt64 n \<Rightarrow> ucast n | VInt n \<Rightarrow> ucast n | VDouble f \<Rightarrow> env_f2i env f | _ \<Rightarrow> 0)"

definition mongoReplyOK :: "BSON \<Rightarrow> bool" where
  "mongoReplyOK doc =
     (case Lookup doc ''ok'' of
        Some (VDouble f) \<Rightarrow> f = float_one
      | Some (VInt32 n) \<Rightarrow> n = 1
      | Some (VInt64 n) \<Rightarrow> n = 1
      | Some (VInt n) \<Rightarrow> n = 1
      | _ \<Rightarrow> False)"

definition mongoReplyError :: "'c env \<Rightarrow> BSON \<Rightarrow> go_err" where
  "mongoReplyError env doc =
     (let (s, ok) = lookupBSONString doc ''errmsg'';
          msg = (if ok \<and> s \<noteq> [] then s else ''command failed'') in
      case Lookup doc ''code'' of
        Some v \<Rightarrow>
          if mongoToInt32 env v \<noteq> 0
          then Errorf ''%s (code %d)'' [AStr msg, AInt (sint (mongoToInt32 env v))]
          else Errorf ''%s'' [AStr msg]
      | None \<Rightarrow> Errorf ''%s'' [AStr msg])"

text \<open>The name that \<open>%T\<close> prints.\<close>

definition go_type :: "bval \<Rightarrow> string" where
  "go_type v =
     (case v of VDouble _ \<Rightarrow> ''float64'' | VString _ \<Rightarrow> ''string'' | VDoc _ \<Rightarrow> ''proxy.BSON''
      | VArray _ \<Rightarrow> ''[]interface {}'' | VBinary _ _ \<Rightarrow> ''proxy.BSONBinary'' | VObjectID _ \<Rightarrow> ''proxy.BSONObjectID''
      | VBool _ \<Rightarrow> ''bool'' | VDateTime _ \<Rightarrow> ''proxy.BSONDateTime'' | VNull \<Rightarrow> ''<nil>'' | VInt32 _ \<Rightarrow> ''int32''
      | VInt _ \<Rightarrow> ''int'' | VTimestamp _ _ \<Rightarrow> ''proxy.BSONTimestamp'' | VInt64 _ \<Rightarrow> ''int64'')"

definition parseMongoSaslReply :: "'c env \<Rightarrow> BSON \<Rightarrow> (u32 \<times> bytes \<times> bool) res" where
  "parseMongoSaslReply env doc =
     (if \<not> mongoReplyOK doc then Err (mongoReplyError env doc)
      else
        let convID = (case Lookup doc ''conversationId'' of Some v \<Rightarrow> mongoToInt32 env v | None \<Rightarrow> 0);
            fin = (case Lookup doc ''done'' of Some (VBool b) \<Rightarrow> b | _ \<Rightarrow> False) in
        (case Lookup doc ''payload'' of
           None \<Rightarrow> Ok (convID, [], fin)
         | Some (VBinary _ x) \<Rightarrow> Ok (convID, x, fin)
         | Some v \<Rightarrow> Err (Errorf ''sasl reply payload is %T, want binary'' [AStr (go_type v)])))"

section \<open>Commands\<close>

definition mongoCommandRoundTrip :: "BSON \<Rightarrow> (conn, BSON) io" where
  "mongoCommandRoundTrip cmd =
     bindIO (wrapIO ''write command: %w'' (WriteMongoMessage 0 0 OpMsg (EncodeOpMsgBody 0 cmd))) (\<lambda>_.
     bindIO (wrapIO ''read reply: %w'' ReadMongoMessage) (\<lambda>(hdr, body).
       if mh_OpCode hdr \<noteq> OpMsg
       then errIO (Errorf ''expected OP_MSG reply, got opcode %d'' [AInt (sint (mh_OpCode hdr))])
       else bindIO (wrapIO ''parse reply: %w'' (liftIO (ParseOpMsg body))) (\<lambda>(_, doc). retIO doc)))"

definition mongoUpstreamClientMetadata :: "'c env \<Rightarrow> BSON" where
  "mongoUpstreamClientMetadata env =
     [(''driver'', VDoc [(''name'', VString ''dbpivot''), (''version'', VString mongoProxyDriverVersion)]),
      (''os'', VDoc [(''type'', VString (env_goos env))])]"

definition hello_command :: "'c env \<Rightarrow> string \<Rightarrow> BSON" where
  "hello_command env db =
     [(''hello'', VInt32 1), (''client'', VDoc (mongoUpstreamClientMetadata env)), (''$db'', VString db)]"

definition mongoUpstreamHandshake :: "'c env \<Rightarrow> string \<Rightarrow> (conn, unit) io" where
  "mongoUpstreamHandshake env db =
     bindIO (mongoCommandRoundTrip (hello_command env db)) (\<lambda>reply.
       if \<not> mongoReplyOK reply then errIO (mongoReplyError env reply) else retIO ())"

definition sasl_start :: "string \<Rightarrow> string \<Rightarrow> BSON" where
  "sasl_start clientFirst authDB =
     [(''saslStart'', VInt32 1), (''mechanism'', VString mongoScramMechanism),
      (''payload'', VBinary BinarySubtypeGeneric clientFirst),
      (''options'', VDoc [(''skipEmptyExchange'', VBool True)]), (''$db'', VString authDB)]"

definition sasl_continue :: "u32 \<Rightarrow> bytes \<Rightarrow> string \<Rightarrow> BSON" where
  "sasl_continue convID payload authDB =
     [(''saslContinue'', VInt32 1), (''conversationId'', VInt32 convID),
      (''payload'', VBinary BinarySubtypeGeneric payload), (''$db'', VString authDB)]"

text \<open>One command of the exchange, with the reply parsed.\<close>

definition sasl_round :: "'c env \<Rightarrow> string \<Rightarrow> BSON \<Rightarrow> (conn, u32 \<times> bytes \<times> bool) io" where
  "sasl_round env errf cmd =
     bindIO (wrapIO errf (mongoCommandRoundTrip cmd)) (\<lambda>reply.
       wrapIO errf (liftIO (parseMongoSaslReply env reply)))"

lemma mongoCommandRoundTrip_cin:
  "mongoCommandRoundTrip cmd c = (Ok doc, c') \<Longrightarrow> length (cin c') < length (cin c)"
  by (auto simp: mongoCommandRoundTrip_def bindIO_eq_Ok_iff wrapIO_eq_Ok_iff WriteMongoMessage_Ok_iff
      dest!: ReadMongoMessage_OkD(1) split: if_splits)

lemma sasl_round_cin: "sasl_round env errf cmd c = (Ok x, c') \<Longrightarrow> length (cin c') < length (cin c)"
  by (auto simp: sasl_round_def bindIO_eq_Ok_iff wrapIO_eq_Ok_iff dest!: mongoCommandRoundTrip_cin)

text \<open>The loop \<open>for !done\<close>.\<close>

function finalize_loop :: "'c env \<Rightarrow> u32 \<Rightarrow> string \<Rightarrow> bool \<Rightarrow> (conn, unit) io" where
  "finalize_loop env convID authDB fin c =
     (if fin then (Ok (), c)
      else (case sasl_round env ''mongo saslContinue (finalize): %w'' (sasl_continue convID [] authDB) c of
              (Ok (_, _, fin'), c') \<Rightarrow> finalize_loop env convID authDB fin' c'
            | (Err e, c') \<Rightarrow> (Err e, c')
            | (Panic, c') \<Rightarrow> (Panic, c')))"
  by pat_completeness auto

termination finalize_loop
  by (relation "measure (\<lambda>(env, convID, authDB, fin, c). length (cin c))") (auto dest: sasl_round_cin [OF sym])

declare finalize_loop.simps [simp del]

definition AuthenticateUpstreamMongo :: "'c env \<Rightarrow> string \<Rightarrow> string \<Rightarrow> string \<Rightarrow> (conn, unit) io" where
  "AuthenticateUpstreamMongo env user password authDB =
     (let authDB = (if authDB = [] then ''admin'' else authDB) in
      bindIO (wrapIO ''mongo upstream handshake: %w'' (mongoUpstreamHandshake env authDB)) (\<lambda>_.
      bindIO (wrapIO ''mongo scram client: %w'' (liftIO (env_scram_new env user password))) (\<lambda>conv0.
      bindIO (scram_step env ''mongo scram client-first: %w'' conv0 []) (\<lambda>(clientFirst, conv1).
      bindIO (sasl_round env ''mongo saslStart: %w'' (sasl_start clientFirst authDB)) (\<lambda>(convID, serverFirst, _).
      bindIO (scram_step env ''mongo scram client-final: %w'' conv1 serverFirst) (\<lambda>(clientFinal, conv2).
      bindIO (sasl_round env ''mongo saslContinue: %w'' (sasl_continue convID clientFinal authDB)) (\<lambda>(_, serverFinal, fin).
      bindIO (scram_step env ''mongo scram verify server signature: %w'' conv2 serverFinal) (\<lambda>(_, conv3).
        if \<not> env_scram_valid env conv3
        then errIO (Errorf ''mongo scram conversation did not validate'' [])
        else finalize_loop env convID authDB fin))))))))"

section \<open>What a successful login has read and sent\<close>

definition command_frame :: "BSON \<Rightarrow> bytes" where
  "command_frame cmd = reply_frame OpMsg 0 cmd"

primrec replies_read :: "BSON list \<Rightarrow> bytes \<Rightarrow> bytes \<Rightarrow> bool" where
  "replies_read [] i i' \<longleftrightarrow> i = i'"
| "replies_read (r # rs) i i' \<longleftrightarrow>
     (\<exists>j h body flags. ReadMongoMessage (fresh_conn i) = (Ok (h, body), fresh_conn j) \<and> mh_OpCode h = OpMsg
        \<and> ParseOpMsg body = Ok (flags, r) \<and> replies_read rs j i')"

definition talk :: "conn \<Rightarrow> conn \<Rightarrow> BSON list \<Rightarrow> BSON list \<Rightarrow> bool" where
  "talk c c' cmds rs \<longleftrightarrow>
     length cmds = length rs \<and> cout c' = cout c @ concat (map command_frame cmds) \<and> replies_read rs (cin c) (cin c')"

lemma replies_read_append: "replies_read (rs @ ts) i k \<longleftrightarrow> (\<exists>j. replies_read rs i j \<and> replies_read ts j k)"
  by (induction rs arbitrary: i) (auto, blast+)

lemma talk_trans: "talk c c1 cmds rs \<Longrightarrow> talk c1 c2 cmds' rs' \<Longrightarrow> talk c c2 (cmds @ cmds') (rs @ rs')"
  by (auto simp: talk_def replies_read_append)

lemma mongoCommandRoundTrip_talk:
  assumes "mongoCommandRoundTrip cmd c = (Ok r, c')"
  shows "talk c c' [cmd] [r]"
proof -
  from assms obtain c1 h body flags where
    w: "WriteMongoMessage 0 0 OpMsg (EncodeOpMsgBody 0 cmd) c = (Ok (), c1)" and m: "ReadMongoMessage c1 = (Ok (h, body), c')"
    and h: "mh_OpCode h = OpMsg" "ParseOpMsg body = Ok (flags, r)"
    by (auto simp: mongoCommandRoundTrip_def bindIO_eq_Ok_iff wrapIO_eq_Ok_iff split: if_splits)
  have c1: "cin c1 = cin c" "cout c1 = cout c @ command_frame cmd"
    using w by (simp_all add: WriteMongoMessage_Ok_iff command_frame_def reply_frame_def Let_def)
  moreover have "cout c' = cout c1" using ReadMongoMessage_OkD(2) [OF m] by auto
  ultimately show ?thesis using ReadMongoMessage_OkD(3) [OF m] h by (auto simp: talk_def)
qed

lemma sasl_round_OkD:
  assumes "sasl_round env f cmd c = (Ok x, c')"
  shows "\<exists>r. talk c c' [cmd] [r] \<and> parseMongoSaslReply env r = Ok x"
  using assms by (auto simp: sasl_round_def bindIO_eq_Ok_iff wrapIO_eq_Ok_iff dest: mongoCommandRoundTrip_talk)

text \<open>The server has reported the conversation done, in the last of its replies.\<close>

definition reports_done :: "'c env \<Rightarrow> BSON \<Rightarrow> bool" where
  "reports_done env r \<longleftrightarrow> (\<exists>convID x. parseMongoSaslReply env r = Ok (convID, x, True))"

lemma finalize_loop_OkD:
  "finalize_loop env convID authDB fin c = (Ok (), c') \<Longrightarrow>
   \<exists>rs. talk c c' (replicate (length rs) (sasl_continue convID [] authDB)) rs
     \<and> (if rs = [] then fin else reports_done env (last rs))"
proof (induction env convID authDB fin c rule: finalize_loop.induct)
  case (1 env convID authDB fin c)
  show ?case
  proof (cases fin)
    case True
    with "1.prems" have "talk c c' (replicate (length []) (sasl_continue convID [] authDB)) []"
      by (subst (asm) finalize_loop.simps) (simp add: talk_def)
    with True show ?thesis by (intro exI [of _ "[]"]) simp
  next
    case False
    with "1.prems" obtain a b fin' c1 where
      r: "sasl_round env ''mongo saslContinue (finalize): %w'' (sasl_continue convID [] authDB) c = (Ok (a, b, fin'), c1)"
      and rec: "finalize_loop env convID authDB fin' c1 = (Ok (), c')"
      by (subst (asm) finalize_loop.simps) (auto split: prod.splits res.splits)
    from sasl_round_OkD [OF r] obtain t where t: "talk c c1 [sasl_continue convID [] authDB] [t]"
      "parseMongoSaslReply env t = Ok (a, b, fin')" by blast
    from "1.IH" [OF False r [symmetric] refl refl refl rec] obtain rs where
      rs: "talk c1 c' (replicate (length rs) (sasl_continue convID [] authDB)) rs"
        "if rs = [] then fin' else reports_done env (last rs)" by blast
    from talk_trans [OF t(1) rs(1)] t(2) rs(2) show ?thesis
      by (intro exI [of _ "t # rs"]) (auto simp: reports_done_def split: if_splits)
  qed
qed

lemma AuthenticateUpstreamMongo_OkD:
  assumes "AuthenticateUpstreamMongo env user password authDB c = (Ok (), c')" and "db = (if authDB = [] then ''admin'' else authDB)"
  shows "\<exists>cf sf cl sv convID rh r1 r2 rs fin1. scram_run env user password cf sf cl sv
     \<and> talk c c' ([hello_command env db, sasl_start cf db, sasl_continue convID cl db]
          @ replicate (length rs) (sasl_continue convID [] db)) ([rh, r1, r2] @ rs)
     \<and> mongoReplyOK rh \<and> parseMongoSaslReply env r1 = Ok (convID, sf, fin1)
     \<and> (\<exists>convID' fin2. parseMongoSaslReply env r2 = Ok (convID', sv, fin2))
     \<and> reports_done env (last (r2 # rs))"
proof -
  from assms(1) obtain rh c1 k0 cf k1 convID sf fin1 c2 cl k2 a sv fin2 c3 out k3 where
    h: "mongoCommandRoundTrip (hello_command env db) c = (Ok rh, c1)" "mongoReplyOK rh"
    and s: "env_scram_new env user password = Ok k0" "env_scram_step env k0 [] = (Ok cf, k1)"
      "env_scram_step env k1 sf = (Ok cl, k2)" "env_scram_step env k2 sv = (Ok out, k3)" "env_scram_valid env k3"
    and r1: "sasl_round env ''mongo saslStart: %w'' (sasl_start cf db) c1 = (Ok (convID, sf, fin1), c2)"
    and r2: "sasl_round env ''mongo saslContinue: %w'' (sasl_continue convID cl db) c2 = (Ok (a, sv, fin2), c3)"
    and f: "finalize_loop env convID db fin2 c3 = (Ok (), c')"
    unfolding AuthenticateUpstreamMongo_def Let_def assms(2) [symmetric]
    by (auto simp: mongoUpstreamHandshake_def bindIO_eq_Ok_iff wrapIO_eq_Ok_iff scram_step_Ok_iff split: if_splits)
  from sasl_round_OkD [OF r1] obtain t1 where t1: "talk c1 c2 [sasl_start cf db] [t1]" "parseMongoSaslReply env t1 = Ok (convID, sf, fin1)" by blast
  from sasl_round_OkD [OF r2] obtain t2 where t2: "talk c2 c3 [sasl_continue convID cl db] [t2]" "parseMongoSaslReply env t2 = Ok (a, sv, fin2)" by blast
  from finalize_loop_OkD [OF f] obtain rs where rs: "talk c3 c' (replicate (length rs) (sasl_continue convID [] db)) rs"
    "if rs = [] then fin2 else reports_done env (last rs)" by blast
  have "talk c c' ([hello_command env db] @ [sasl_start cf db] @ [sasl_continue convID cl db]
      @ replicate (length rs) (sasl_continue convID [] db)) ([rh] @ [t1] @ [t2] @ rs)"
    using mongoCommandRoundTrip_talk [OF h(1)] t1(1) t2(1) rs(1) by (blast intro: talk_trans)
  then have talk: "talk c c' ([hello_command env db, sasl_start cf db, sasl_continue convID cl db]
      @ replicate (length rs) (sasl_continue convID [] db)) ([rh, t1, t2] @ rs)" by simp
  have run: "scram_run env user password cf sf cl sv" using s unfolding scram_run_def by blast
  have fin: "reports_done env (last (t2 # rs))" using rs(2) t2(2) by (cases "rs = []") (auto simp: reports_done_def)
  have sv: "\<exists>convID' fin2. parseMongoSaslReply env t2 = Ok (convID', sv, fin2)" using t2(2) by blast
  show ?thesis
    by (intro exI [of _ cf] exI [of _ sf] exI [of _ cl] exI [of _ sv] exI [of _ convID] exI [of _ rh] exI [of _ t1] exI [of _ t2]
        exI [of _ rs] exI [of _ fin1] conjI run talk h(2) t1(2) sv fin)
qed


text \<open>C17. Success of the MongoDB login is justified: after a \<open>hello\<close> that the server answered with success,
  the SCRAM conversation ran to its end with the payloads of the server's replies and verified the
  server; what the proxy sent is exactly the \<open>hello\<close>, the two SCRAM commands and empty continuations,
  all against the authentication database (\<open>admin\<close> unless configured); and the server's last reply
  reports the conversation done.\<close>

theorem AuthenticateUpstreamMongo_sound:
  assumes "AuthenticateUpstreamMongo env user password authDB c = (Ok (), c')" and "db = (if authDB = [] then ''admin'' else authDB)"
  shows "\<exists>cf sf cl sv convID rh r1 r2 rs fin1. scram_run env user password cf sf cl sv
     \<and> talk c c' ([hello_command env db, sasl_start cf db, sasl_continue convID cl db]
          @ replicate (length rs) (sasl_continue convID [] db)) ([rh, r1, r2] @ rs)
     \<and> mongoReplyOK rh \<and> parseMongoSaslReply env r1 = Ok (convID, sf, fin1)
     \<and> (\<exists>convID' fin2. parseMongoSaslReply env r2 = Ok (convID', sv, fin2))
     \<and> reports_done env (last (r2 # rs))"
  using assms by (rule AuthenticateUpstreamMongo_OkD)

section \<open>A login against a server that follows the protocol\<close>

lemma reply_frame_OpMsg: "reply_frame OpMsg t doc = mongo_frame
   (\<lparr>mh_MessageLength = word_of_nat (msgHeaderLen + length (EncodeOpMsgBody 0 doc)), mh_RequestID = 0,
     mh_ResponseTo = t, mh_OpCode = OpMsg\<rparr>, EncodeOpMsgBody 0 doc)"
  by (simp add: reply_frame_def mongo_frame_def Let_def)

lemma mongoCommandRoundTrip_Ok:
  assumes c: "\<not> cclosed c" "ccap c = None" and cin: "cin c = reply_frame OpMsg t r @ rest"
    and r: "doc_ok r" "length (MarshalBSON r) + 21 \<le> MaxMessageSize"
  shows "mongoCommandRoundTrip cmd c = (Ok (norm_doc r), wrote (command_frame cmd) (c\<lparr>cin := rest\<rparr>))"
proof -
  let ?m = "(\<lparr>mh_MessageLength = word_of_nat (msgHeaderLen + length (EncodeOpMsgBody 0 r)), mh_RequestID = 0,
     mh_ResponseTo = t, mh_OpCode = OpMsg\<rparr>, EncodeOpMsgBody 0 r)"
  let ?c1 = "wrote (command_frame cmd) c"
  have w: "WriteMongoMessage 0 0 OpMsg (EncodeOpMsgBody 0 cmd) c = (Ok (), ?c1)"
    using c by (simp add: WriteMongoMessage_Ok_iff command_frame_def reply_frame_def Let_def can_write_def)
  have "mongo_valid ?m" using r(2) by (simp add: mongo_valid_def msgHeaderLen_def EncodeOpMsgBody_eq)
  then have m: "ReadMongoMessage ?c1 = (Ok ?m, ?c1\<lparr>cin := rest\<rparr>)"
    using c(1) cin by (intro mongo.read_enc) (simp_all add: reply_frame_OpMsg)
  have "ParseOpMsg (EncodeOpMsgBody 0 r) = Ok (0, norm_doc r)"
    using r by (intro ParseOpMsg_EncodeOpMsgBody) (simp_all add: MaxMessageSize_def)
  then show ?thesis using w m by (simp add: mongoCommandRoundTrip_def wrote_cin)
qed

definition sasl_reply :: "u32 \<Rightarrow> bytes \<Rightarrow> bool \<Rightarrow> BSON" where
  "sasl_reply convID payload fin =
     [(''conversationId'', VInt32 convID), (''done'', VBool fin),
      (''payload'', VBinary BinarySubtypeGeneric payload), (''ok'', VDouble float_one)]"

definition hello_ok :: BSON where
  "hello_ok = [(''ok'', VDouble float_one)]"

lemma sasl_reply_simps:
  "doc_ok (sasl_reply k p fin)" "norm_doc (sasl_reply k p fin) = sasl_reply k p fin"
  "parseMongoSaslReply env (sasl_reply k p fin) = Ok (k, p, fin)"
  "length (MarshalBSON (sasl_reply k p fin)) = length p + 58"
  by (simp_all add: sasl_reply_def parseMongoSaslReply_def mongoReplyOK_def mongoToInt32_def MarshalBSON_eq)

lemma hello_ok_simps:
  "doc_ok hello_ok" "norm_doc hello_ok = hello_ok" "mongoReplyOK hello_ok" "length (MarshalBSON hello_ok) = 17"
  by (simp_all add: hello_ok_def mongoReplyOK_def MarshalBSON_eq)

lemma AuthenticateUpstreamMongo_Ok:
  assumes run: "scram_run env user password cf sf cl sv" and c: "\<not> cclosed c" "ccap c = None"
    and db: "db = (if authDB = [] then ''admin'' else authDB)"
    and len: "length sf + 79 \<le> MaxMessageSize" "length sv + 79 \<le> MaxMessageSize"
    and cin: "cin c = reply_frame OpMsg 0 hello_ok @ reply_frame OpMsg 0 (sasl_reply k sf False)
        @ reply_frame OpMsg 0 (sasl_reply k sv True) @ rest"
  shows "AuthenticateUpstreamMongo env user password authDB c =
     (Ok (), wrote (concat (map command_frame [hello_command env db, sasl_start cf db, sasl_continue k cl db])) (c\<lparr>cin := rest\<rparr>))"
proof -
  from run obtain k0 k1 k2 k3 out where s: "env_scram_new env user password = Ok k0"
    "env_scram_step env k0 [] = (Ok cf, k1)" "env_scram_step env k1 sf = (Ok cl, k2)"
    "env_scram_step env k2 sv = (Ok out, k3)" "env_scram_valid env k3" by (auto simp: scram_run_def)
  let ?r2 = "reply_frame OpMsg 0 (sasl_reply k sv True) @ rest"
  let ?r1 = "reply_frame OpMsg 0 (sasl_reply k sf False) @ ?r2"
  let ?c1 = "wrote (command_frame (hello_command env db)) (c\<lparr>cin := ?r1\<rparr>)"
  let ?c2 = "wrote (command_frame (sasl_start cf db)) (?c1\<lparr>cin := ?r2\<rparr>)"
  let ?c3 = "wrote (command_frame (sasl_continue k cl db)) (?c2\<lparr>cin := rest\<rparr>)"
  have cap: "ccap (wrote b (c\<lparr>cin := i\<rparr>)) = None" for b i using c(2) by (simp add: wrote_def)
  have h: "mongoCommandRoundTrip (hello_command env db) c = (Ok hello_ok, ?c1)"
    using mongoCommandRoundTrip_Ok [OF c cin, of "hello_command env db"] by (simp add: hello_ok_simps MaxMessageSize_def)
  have t1: "mongoCommandRoundTrip (sasl_start cf db) ?c1 = (Ok (sasl_reply k sf False), ?c2)"
    using mongoCommandRoundTrip_Ok [of ?c1 0 "sasl_reply k sf False" ?r2 "sasl_start cf db"] c len cap
    by (simp add: sasl_reply_simps)
  have t2: "mongoCommandRoundTrip (sasl_continue k cl db) ?c2 = (Ok (sasl_reply k sv True), ?c3)"
    using mongoCommandRoundTrip_Ok [of ?c2 0 "sasl_reply k sv True" rest "sasl_continue k cl db"] c len cap
    by (simp add: sasl_reply_simps wrote_cin)
  have "scram_step env f k0 [] c' = (Ok (cf, k1), c')" "scram_step env f k1 sf c' = (Ok (cl, k2), c')"
    "scram_step env f k2 sv c' = (Ok (out, k3), c')" for f c'
    using s by (simp_all add: scram_step_Ok_iff)
  then have "AuthenticateUpstreamMongo env user password authDB c = (Ok (), ?c3)"
    unfolding AuthenticateUpstreamMongo_def Let_def db [symmetric]
    using h t1 t2 s(1,5)
    by (simp add: mongoUpstreamHandshake_def hello_ok_simps sasl_round_def sasl_reply_simps finalize_loop.simps)
  then show ?thesis by (simp add: wrote_cin)
qed

text \<open>Against a server that follows the protocol and a SCRAM conversation that accepts its messages, the
  login succeeds, having sent the \<open>hello\<close> and the two SCRAM commands, and leaves the stream right behind
  the server's last reply.\<close>

theorem AuthenticateUpstreamMongo_complete:
  assumes "scram_run env user password cf sf cl sv" and "\<not> cclosed c" and "ccap c = None"
    and "db = (if authDB = [] then ''admin'' else authDB)"
    and "length sf + 79 \<le> MaxMessageSize" and "length sv + 79 \<le> MaxMessageSize"
    and "cin c = reply_frame OpMsg 0 hello_ok @ reply_frame OpMsg 0 (sasl_reply k sf False)
        @ reply_frame OpMsg 0 (sasl_reply k sv True) @ rest"
  shows "AuthenticateUpstreamMongo env user password authDB c =
     (Ok (), wrote (concat (map command_frame [hello_command env db, sasl_start cf db, sasl_continue k cl db])) (c\<lparr>cin := rest\<rparr>))"
  using assms by (rule AuthenticateUpstreamMongo_Ok)

definition sample_mongo_upstream :: conn where
  "sample_mongo_upstream =
     fresh_conn (reply_frame OpMsg 0 hello_ok @ reply_frame OpMsg 0 (sasl_reply 3 ''r=nonce'' False)
       @ reply_frame OpMsg 0 (sasl_reply 3 ''v=sig'' True) @ ''Z'')"

lemma sample_mongo_login:
  shows "\<not> cclosed sample_mongo_upstream" and "ccap sample_mongo_upstream = None" and "''admin'' = (if [] = [] then ''admin'' else [])"
    and "length ''r=nonce'' + 79 \<le> MaxMessageSize" and "length ''v=sig'' + 79 \<le> MaxMessageSize"
    and "cin sample_mongo_upstream = reply_frame OpMsg 0 hello_ok @ reply_frame OpMsg 0 (sasl_reply 3 ''r=nonce'' False)
       @ reply_frame OpMsg 0 (sasl_reply 3 ''v=sig'' True) @ ''Z''"
  by (simp_all add: sample_mongo_upstream_def fresh_conn_def MaxMessageSize_def)

theorem AuthenticateUpstreamMongo_complete_witness:
  "\<exists>c'. AuthenticateUpstreamMongo sample_env ''u'' ''p'' [] sample_mongo_upstream = (Ok (), c') \<and> cin c' = ''Z''"
  using AuthenticateUpstreamMongo_complete [OF sample_scram_run sample_mongo_login, of "''u''" "''p''"] by simp

theorem AuthenticateUpstreamMongo_sound_witness:
  "\<exists>c' cf sf cl sv cmds rs. AuthenticateUpstreamMongo sample_env ''u'' ''p'' [] sample_mongo_upstream = (Ok (), c')
     \<and> scram_run sample_env ''u'' ''p'' cf sf cl sv \<and> talk sample_mongo_upstream c' cmds rs"
proof -
  obtain c' where ok: "AuthenticateUpstreamMongo sample_env ''u'' ''p'' [] sample_mongo_upstream = (Ok (), c')"
    using AuthenticateUpstreamMongo_Ok [OF sample_scram_run sample_mongo_login, of "''u''" "''p''"] by blast
  from AuthenticateUpstreamMongo_sound [OF ok refl] ok show ?thesis by blast
qed

end
