(* ===== verification/MongoServer.thy ===== *)
theory MongoServer
  imports Handler MongoAuth
begin

text \<open>
  \<open>internal/proxy/mongoserver.go\<close>: the MongoDB handler. Until a command names a configured database,
  every command is answered by the proxy; that command picks the upstream, is forwarded unchanged once
  the login has succeeded, and the connection is relayed from there.
\<close>

definition mongoErrInternalError :: u32 where "mongoErrInternalError = 1"
definition mongoErrHostUnreachable :: u32 where "mongoErrHostUnreachable = 6"
definition mongoErrInvalidNamespace :: u32 where "mongoErrInvalidNamespace = 73"

definition mongoErrorReply :: "string \<Rightarrow> u32 \<Rightarrow> BSON" where
  "mongoErrorReply errmsg code =
     [(''ok'', VDouble float_zero)] @ (if errmsg \<noteq> [] then [(''errmsg'', VString errmsg)] else [])
       @ (if code \<noteq> 0 then [(''code'', VInt32 code)] else [])"

definition reply_mongo :: "MsgHeader \<Rightarrow> BSON \<Rightarrow> (hstate, unit) io" where
  "reply_mongo hdr doc = on_client (WriteMongoReply (mh_OpCode hdr) (mh_RequestID hdr) doc)"

section \<open>Routing\<close>

text \<open>From a resolved target up to and including \<open>Register\<close>.\<close>

definition connect_mongo :: "'c env \<Rightarrow> MsgHeader \<Rightarrow> bytes \<Rightarrow> string \<Rightarrow> ResolvedTarget \<Rightarrow> (hstate, unit) io" where
  "connect_mongo env hdr body n rt =
     catchIO (dial_up env (upstream_addr rt))
       (\<lambda>e. bindIO (tryIO (reply_mongo hdr (mongoErrorReply
                      (Sprintf (env_isPrint env) ''upstream dial failed: %v'' [AErr e]) mongoErrHostUnreachable)))
              (\<lambda>_. errIO e))
       (\<lambda>_.
     catchIO (on_up (AuthenticateUpstreamMongo env (rt_User rt) (rt_Password rt) (rt_AuthSource rt)))
       (\<lambda>e. bindIO (tryIO (reply_mongo hdr (mongoErrorReply
                      (Sprintf (env_isPrint env) ''upstream auth failed: %v'' [AErr e]) mongoErrHostUnreachable)))
              (\<lambda>_. bindIO close_up (\<lambda>_. errIO e)))
       (\<lambda>_.
     catchIO (on_up (WriteMongoMessage (mh_RequestID hdr) (mh_ResponseTo hdr) (mh_OpCode hdr) body))
       (\<lambda>e. bindIO close_up (\<lambda>_. errIO (Errorf ''mongo forward first command: %w'' [AWrap e])))
       (\<lambda>_. attach n rt)))"

definition routeMongo :: "'c env \<Rightarrow> string \<Rightarrow> string \<Rightarrow> MsgHeader \<Rightarrow> bytes \<Rightarrow> (hstate, unit) io" where
  "routeMongo env n db hdr body s =
     (case Current n (srv_store (h_srv s)) of
        None \<Rightarrow> tryIO (reply_mongo hdr (mongoErrorReply
                  (Sprintf (env_isPrint env) ''database %q has no active target'' [AStr db]) mongoErrInternalError)) s
      | Some rt \<Rightarrow> bindIO (connect_mongo env hdr body n rt) (\<lambda>_. relay env) s)"

section \<open>dispatchMongo\<close>

text \<open>The proxy's own answer to a command, with the format of the error if it cannot be written.\<close>

definition local_reply :: "'c env \<Rightarrow> u32 \<Rightarrow> u64 \<Rightarrow> MongoCommand \<Rightarrow> BSON \<times> string" where
  "local_reply env connID now cmd =
     (if IsHelloCommand env (mc_Doc cmd)
      then (BuildHelloReply connID now, ''mongo write hello reply: %w'')
      else (case BuildAdminCommandReply env cmd (env_remote env) of
              Some reply \<Rightarrow> (reply, ''mongo write admin reply: %w'')
            | None \<Rightarrow> (mongoErrorReply
                 (Sprintf (env_isPrint env) ''dbpivot: database %q is not configured for mongodb'' [AStr (mc_DB cmd)])
                 mongoErrInvalidNamespace, ''mongo write error reply: %w'')))"

text \<open>One round of the loop: the database, its name in the command and the command itself if it can be
  routed, and nothing if it was answered.\<close>

definition mongo_step :: "'c env \<Rightarrow> u32 \<Rightarrow> (hstate, (string \<times> string \<times> MsgHeader \<times> bytes) option) io" where
  "mongo_step env connID =
     bindIO (wrapIO ''mongo read command: %w'' (on_client ReadMongoMessage)) (\<lambda>(hdr, body).
     bindIO (liftIO (decodeMongoCommand hdr body)) (\<lambda>cmd s.
       case lookupDatabase (h_srv s) AdapterMongo (mc_DB cmd) of
         Some n \<Rightarrow> (Ok (Some (n, mc_DB cmd, hdr, body)), s)
       | None \<Rightarrow>
           let (reply, f) = local_reply env connID (env_now env (length (cin (h_client s)))) cmd in
           bindIO (wrapIO f (reply_mongo hdr reply)) (\<lambda>_. retIO None) s))"

lemma WriteMongoReply_Ok_iff:
  "WriteMongoReply p r doc c = (Ok (), c') \<longleftrightarrow>
     (p = OpMsg \<or> p = OpQuery) \<and> can_write (length (reply_frame p r doc)) c \<and> c' = wrote (reply_frame p r doc) c"
  by (auto simp: WriteMongoReply_def reply_frame_def Let_def WriteMongoMessage_Ok_iff)

lemma reply_mongo_keeps [simp]: "keeps_srv (reply_mongo hdr doc)"
  by (simp add: reply_mongo_def)

lemma mongo_step_cin:
  assumes "mongo_step env connID s = (Ok r, s')"
  shows "length (cin (h_client s')) < length (cin (h_client s))"
proof -
  from assms obtain m s1 where r: "on_client ReadMongoMessage s = (Ok m, s1)"
    and s': "cin (h_client s') = cin (h_client s1)"
    by (force simp: mongo_step_def bindIO_eq_Ok_iff wrapIO_eq_Ok_iff reply_mongo_def on_client_Ok_iff
        WriteMongoReply_Ok_iff split: option.splits prod.splits)
  from r have "length (cin (h_client s1)) < length (cin (h_client s))"
    by (cases m) (auto simp: on_client_Ok_iff dest: ReadMongoMessage_OkD(1))
  with s' show ?thesis by simp
qed

text \<open>The loop ends because every round reads a message.\<close>

function mongo_loop :: "'c env \<Rightarrow> u32 \<Rightarrow> (hstate, unit) io" where
  "mongo_loop env connID s =
     (case mongo_step env connID s of
        (Ok None, s') \<Rightarrow> mongo_loop env connID s'
      | (Ok (Some (n, db, hdr, body)), s') \<Rightarrow> routeMongo env n db hdr body s'
      | (Err e, s') \<Rightarrow> (Err e, s')
      | (Panic, s') \<Rightarrow> (Panic, s'))"
  by pat_completeness auto

termination mongo_loop
  by (relation "measure (\<lambda>(env, connID, s). length (cin (h_client s)))") (auto dest: mongo_step_cin [OF sym])

declare mongo_loop.simps [simp del]

definition dispatchMongo :: "'c env \<Rightarrow> (hstate, unit) io" where
  "dispatchMongo env = bindIO next_connID (mongo_loop env)"

section \<open>Connecting fails closed\<close>

lemma connect_mongo_commits: "commits (connect_mongo env hdr body n rt)"
  unfolding connect_mongo_def
  by (intro commits_catchIO) (auto intro!: commits_catchIO intro: commits_keeps)

lemma connect_mongo_OkD:
  assumes "connect_mongo env hdr body n rt s = (Ok (), s')"
  shows "\<exists>u u1. env_dial env (upstream_addr rt) = Ok u
     \<and> AuthenticateUpstreamMongo env (rt_User rt) (rt_Password rt) (rt_AuthSource rt) u = (Ok (), u1)
     \<and> h_up s' = Some (wrote (mongo_frame (hdr, body)) u1) \<and> h_client s' = h_client s \<and> h_id s' = h_id s
     \<and> h_srv s' = (h_srv s)\<lparr>srv_store := Register n (h_id s)
         ((srv_store (h_srv s))\<lparr>st_conns := (st_conns (srv_store (h_srv s)))(h_id s \<mapsto> new_conn rt)\<rparr>)\<rparr>"
proof -
  from assms obtain u where u: "env_dial env (upstream_addr rt) = Ok u"
    by (auto simp: connect_mongo_def catchIO_eq_Ok_iff dial_up_def bindIO_eq_Ok_iff)
  with assms obtain s1 s2 where
    auth: "on_up (AuthenticateUpstreamMongo env (rt_User rt) (rt_Password rt) (rt_AuthSource rt)) (s\<lparr>h_up := Some u\<rparr>) = (Ok (), s1)"
    and fwd: "on_up (WriteMongoMessage (mh_RequestID hdr) (mh_ResponseTo hdr) (mh_OpCode hdr) body) s1 = (Ok (), s2)"
    and att: "attach n rt s2 = (Ok (), s')"
    by (auto simp: connect_mongo_def catchIO_eq_Ok_iff dial_up_def bindIO_eq_Ok_iff)
  from auth obtain u1 where u1: "AuthenticateUpstreamMongo env (rt_User rt) (rt_Password rt) (rt_AuthSource rt) u = (Ok (), u1)"
    and s1: "s1 = s\<lparr>h_up := Some u1\<rparr>" by (auto simp: on_up_Ok_iff)
  from fwd s1 have s2: "s2 = s\<lparr>h_up := Some (wrote (mongo_frame (hdr, body)) u1)\<rparr>"
    by (auto simp: on_up_Ok_iff WriteMongoMessage_Ok_iff mongo_frame_def)
  with u u1 att show ?thesis by (auto simp: attach_def Let_def)
qed

lemma reply_mongo_client_only [simp]: "client_only (reply_mongo hdr doc)"
  by (simp add: reply_mongo_def)

interpretation mongo_session: session "connect_mongo env hdr body n rt" n rt for env hdr body n rt
proof
  show "commits (connect_mongo env hdr body n rt)" by (rule connect_mongo_commits)
  show "up_closed s'" if "up_closed s" and "connect_mongo env hdr body n rt s = (Err e, s')" for s e s'
    using that unfolding connect_mongo_def by (rule dial_closes) auto
  fix s s'
  assume "connect_mongo env hdr body n rt s = (Ok (), s')"
  note ok = connect_mongo_OkD [OF this]
  from ok show "\<exists>u. h_up s' = Some u" by blast
  from ok show "h_id s' = h_id s \<and> h_srv s' = (h_srv s)\<lparr>srv_store := Register n (h_id s)
      ((srv_store (h_srv s))\<lparr>st_conns := (st_conns (srv_store (h_srv s)))(h_id s \<mapsto> new_conn rt)\<rparr>)\<rparr>" by blast
qed


lemma reply_mongo_Ok:
  assumes "mh_OpCode hdr = OpMsg \<or> mh_OpCode hdr = OpQuery" and "\<not> cclosed (h_client s)" and "ccap (h_client s) = None"
  shows "reply_mongo hdr doc s =
     (Ok (), s\<lparr>h_client := wrote (reply_frame (mh_OpCode hdr) (mh_RequestID hdr) doc) (h_client s)\<rparr>)"
  using WriteMongoReply_Ok [OF assms] by (simp add: reply_mongo_def)

definition auth_failed_reply :: "'c env \<Rightarrow> go_err \<Rightarrow> BSON" where
  "auth_failed_reply env e =
     mongoErrorReply (Sprintf (env_isPrint env) ''upstream auth failed: %v'' [AErr e]) mongoErrHostUnreachable"

lemma connect_mongo_auth_failed:
  assumes "env_dial env (upstream_addr rt) = Ok u"
    and "AuthenticateUpstreamMongo env (rt_User rt) (rt_Password rt) (rt_AuthSource rt) u = (Err e, u1)"
    and "mh_OpCode hdr = OpMsg \<or> mh_OpCode hdr = OpQuery" and "\<not> cclosed (h_client s)" and "ccap (h_client s) = None"
  shows "connect_mongo env hdr body n rt s = (Err e,
     s\<lparr>h_up := Some (close_sock u1),
       h_client := wrote (reply_frame (mh_OpCode hdr) (mh_RequestID hdr) (auth_failed_reply env e)) (h_client s)\<rparr>)"
  using assms(1,2) reply_mongo_Ok [OF assms(3), of "s\<lparr>h_up := Some u1\<rparr>"] assms(4,5)
  by (simp add: connect_mongo_def dial_up_def catchIO_def tryIO_def auth_failed_reply_def)

text \<open>C9. The MongoDB handler fails closed. If it connects, the upstream was logged in to with the target's
  credentials against its authentication database, and only then received the client's command, byte for
  byte, and the connection is registered for the target. If the upstream refuses the login, nothing of
  the client's command is sent: the upstream is closed and the client gets one failed-command reply to
  its request. Whatever the failure, the server is unchanged.\<close>

theorem connect_mongo_fail_closed:
  assumes "connect_mongo env hdr body n rt s = (r, s')"
  shows "(r = Ok () \<longrightarrow>
       (\<exists>u u1. env_dial env (upstream_addr rt) = Ok u
          \<and> AuthenticateUpstreamMongo env (rt_User rt) (rt_Password rt) (rt_AuthSource rt) u = (Ok (), u1)
          \<and> h_up s' = Some (wrote (mongo_frame (hdr, body)) u1) \<and> h_client s' = h_client s
          \<and> h_srv s' = (h_srv s)\<lparr>srv_store := Register n (h_id s)
              ((srv_store (h_srv s))\<lparr>st_conns := (st_conns (srv_store (h_srv s)))(h_id s \<mapsto> new_conn rt)\<rparr>)\<rparr>))
     \<and> (\<forall>u e u1. env_dial env (upstream_addr rt) = Ok u
          \<and> AuthenticateUpstreamMongo env (rt_User rt) (rt_Password rt) (rt_AuthSource rt) u = (Err e, u1)
          \<and> (mh_OpCode hdr = OpMsg \<or> mh_OpCode hdr = OpQuery) \<and> \<not> cclosed (h_client s) \<and> ccap (h_client s) = None
          \<longrightarrow> r = Err e \<and> h_up s' = Some (close_sock u1)
            \<and> h_client s' = wrote (reply_frame (mh_OpCode hdr) (mh_RequestID hdr) (auth_failed_reply env e)) (h_client s))
     \<and> (r \<noteq> Ok () \<longrightarrow> h_srv s' = h_srv s)"
proof -
  have "h_srv s' = h_srv s" if "r \<noteq> Ok ()"
    using connect_mongo_commits [of env hdr body n rt] assms that unfolding commits_def
    by (metis fst_conv old.unit.exhaust snd_conv)
  moreover have "r = Ok () \<Longrightarrow> connect_mongo env hdr body n rt s = (Ok (), s')" using assms by simp
  moreover have "r = Err e \<and> h_up s' = Some (close_sock u1)
      \<and> h_client s' = wrote (reply_frame (mh_OpCode hdr) (mh_RequestID hdr) (auth_failed_reply env e)) (h_client s)"
    if "env_dial env (upstream_addr rt) = Ok u"
      "AuthenticateUpstreamMongo env (rt_User rt) (rt_Password rt) (rt_AuthSource rt) u = (Err e, u1)"
      "mh_OpCode hdr = OpMsg \<or> mh_OpCode hdr = OpQuery" "\<not> cclosed (h_client s)" "ccap (h_client s) = None" for u e u1
    using connect_mongo_auth_failed [OF that, of body n] assms by auto
  ultimately show ?thesis using connect_mongo_OkD [of env hdr body n rt s s'] by blast
qed

section \<open>A session\<close>

text \<open>A message that the proxy answers itself, and the answer.\<close>

definition unroutable :: "Server \<Rightarrow> MsgHeader \<times> bytes \<Rightarrow> bool" where
  "unroutable srv m \<longleftrightarrow> mongo_valid m
     \<and> (case decodeMongoCommand (fst m) (snd m) of
          Ok cmd \<Rightarrow> lookupDatabase srv AdapterMongo (mc_DB cmd) = None | _ \<Rightarrow> False)"

definition answers :: "'c env \<Rightarrow> u32 \<Rightarrow> MsgHeader \<times> bytes \<Rightarrow> bytes \<Rightarrow> bool" where
  "answers env connID m b \<longleftrightarrow>
     (\<exists>cmd now. decodeMongoCommand (fst m) (snd m) = Ok cmd
        \<and> b = reply_frame (mh_OpCode (fst m)) (mh_RequestID (fst m)) (fst (local_reply env connID now cmd)))"

lemma mongo_step_reads:
  assumes "mongo_valid m" and "\<not> cclosed (h_client s)" and "cin (h_client s) = mongo_frame m @ rest"
    and "decodeMongoCommand (fst m) (snd m) = Ok cmd" and "s1 = s\<lparr>h_client := (h_client s)\<lparr>cin := rest\<rparr>\<rparr>"
  shows "mongo_step env connID s =
     (case lookupDatabase (h_srv s) AdapterMongo (mc_DB cmd) of
        Some n \<Rightarrow> (Ok (Some (n, mc_DB cmd, fst m, snd m)), s1)
      | None \<Rightarrow> bindIO (wrapIO (snd (local_reply env connID (env_now env (length rest)) cmd))
            (reply_mongo (fst m) (fst (local_reply env connID (env_now env (length rest)) cmd)))) (\<lambda>_. retIO None) s1)"
proof -
  have "on_client ReadMongoMessage s = (Ok (fst m, snd m), s1)"
    using mongo.read_enc [OF assms(1-3)] assms(5) by simp
  then show ?thesis using assms(4,5)
    by (simp add: mongo_step_def wrapIO_def split_beta split: option.split)
qed

lemma mongo_step_answers:
  assumes m: "unroutable (h_srv s) m" and c: "\<not> cclosed (h_client s)" "ccap (h_client s) = None"
    and cin: "cin (h_client s) = mongo_frame m @ rest"
  shows "\<exists>b. answers env connID m b
     \<and> mongo_step env connID s = (Ok None, s\<lparr>h_client := wrote b ((h_client s)\<lparr>cin := rest\<rparr>)\<rparr>)"
proof -
  from m obtain cmd where v: "mongo_valid m" and d: "decodeMongoCommand (fst m) (snd m) = Ok cmd"
    and l: "lookupDatabase (h_srv s) AdapterMongo (mc_DB cmd) = None"
    by (auto simp: unroutable_def split: res.splits)
  let ?r = "local_reply env connID (env_now env (length rest)) cmd" and ?s = "s\<lparr>h_client := (h_client s)\<lparr>cin := rest\<rparr>\<rparr>"
  have "reply_mongo (fst m) (fst ?r) ?s = (Ok (), ?s\<lparr>h_client :=
      wrote (reply_frame (mh_OpCode (fst m)) (mh_RequestID (fst m)) (fst ?r)) (h_client ?s)\<rparr>)"
    using decodeMongoCommand_OpCode [OF d] c by (intro reply_mongo_Ok) simp_all
  then have "mongo_step env connID s = (Ok None, s\<lparr>h_client :=
      wrote (reply_frame (mh_OpCode (fst m)) (mh_RequestID (fst m)) (fst ?r)) ((h_client s)\<lparr>cin := rest\<rparr>)\<rparr>)"
    unfolding mongo_step_reads [OF v c(1) cin d refl] l by (simp add: wrapIO_def bindIO_def)
  then show ?thesis using d unfolding answers_def by blast
qed

lemma mongo_loop_answers:
  assumes "list_all (unroutable (h_srv s)) ms" and "\<not> cclosed (h_client s)" and "ccap (h_client s) = None"
    and "cin (h_client s) = concat (map mongo_frame ms) @ rest"
  shows "\<exists>bs. list_all2 (answers env connID) ms bs
     \<and> mongo_loop env connID s = mongo_loop env connID (s\<lparr>h_client := wrote (concat bs) ((h_client s)\<lparr>cin := rest\<rparr>)\<rparr>)"
  using assms
proof (induction ms arbitrary: s)
  case Nil
  have "h_client s\<lparr>cin := rest\<rparr> = h_client s" using Nil.prems(4) by (cases "h_client s") simp
  then show ?case by simp
next
  case (Cons m ms)
  let ?t = "concat (map mongo_frame ms) @ rest"
  obtain b where b: "answers env connID m b"
    "mongo_step env connID s = (Ok None, s\<lparr>h_client := wrote b ((h_client s)\<lparr>cin := ?t\<rparr>)\<rparr>)" (is "_ = (_, ?s)")
    using mongo_step_answers [of s m ?t env connID] Cons.prems by auto
  have "ccap (h_client ?s) = None" using Cons.prems(3) by (simp add: wrote_def)
  then obtain bs where bs: "list_all2 (answers env connID) ms bs"
    "mongo_loop env connID ?s = mongo_loop env connID (?s\<lparr>h_client := wrote (concat bs) ((h_client ?s)\<lparr>cin := rest\<rparr>)\<rparr>)"
    using Cons.IH [of ?s] Cons.prems by auto
  have "mongo_loop env connID s = mongo_loop env connID ?s" by (subst mongo_loop.simps) (simp add: b(2))
  with b(1) bs show ?case by (intro exI [of _ "b # bs"]) (simp add: wrote_cin)
qed


definition numbered :: "hstate \<Rightarrow> hstate" where
  "numbered s = s\<lparr>h_srv := (h_srv s)\<lparr>srv_connSeq := srv_connSeq (h_srv s) + 1\<rparr>\<rparr>"

lemma lookupDatabase_connSeq [simp]: "lookupDatabase (srv\<lparr>srv_connSeq := k\<rparr>) = lookupDatabase srv"
  by (simp add: lookupDatabase_def fun_eq_iff)

lemma unroutable_connSeq [simp]: "unroutable (srv\<lparr>srv_connSeq := k\<rparr>) = unroutable srv"
  by (simp add: unroutable_def fun_eq_iff split: res.split)

lemma dispatchMongo_answers:
  assumes "list_all (unroutable (h_srv s)) ms" and "\<not> cclosed (h_client s)" and "ccap (h_client s) = None"
    and "cin (h_client s) = concat (map mongo_frame ms) @ rest"
  shows "\<exists>bs. list_all2 (answers env (srv_connSeq (h_srv s) + 1)) ms bs
     \<and> dispatchMongo env s = mongo_loop env (srv_connSeq (h_srv s) + 1)
          ((numbered s)\<lparr>h_client := wrote (concat bs) ((h_client s)\<lparr>cin := rest\<rparr>)\<rparr>)"
proof -
  have "dispatchMongo env s = mongo_loop env (srv_connSeq (h_srv s) + 1) (numbered s)"
    by (simp add: dispatchMongo_def next_connID_def numbered_def Let_def)
  then show ?thesis
    using mongo_loop_answers [of "numbered s" ms rest env "srv_connSeq (h_srv s) + 1"] assms
    by (simp add: numbered_def)
qed

lemma connect_mongo_Ok:
  assumes "env_dial env (upstream_addr rt) = Ok u"
    and "AuthenticateUpstreamMongo env (rt_User rt) (rt_Password rt) (rt_AuthSource rt) u = (Ok (), u1)"
    and "\<not> cclosed u1" and "ccap u1 = None"
  shows "\<exists>s'. connect_mongo env hdr body n rt s = (Ok (), s')"
proof -
  have "WriteMongoMessage (mh_RequestID hdr) (mh_ResponseTo hdr) (mh_OpCode hdr) body u1 =
      (Ok (), wrote (mongo_frame (hdr, body)) u1)"
    using assms(3,4) by (simp add: WriteMongoMessage_Ok_iff can_write_def mongo_frame_def)
  then show ?thesis using assms(1,2) by (simp add: connect_mongo_def dial_up_def attach_def Let_def)
qed


text \<open>C22. A MongoDB client that never names a configured database gets an answer to every command, in order,
  and the handler ends when the client does: no upstream is dialled, and the server is unchanged but for
  the counter of connections.\<close>

theorem mongo_unrouted_ends:
  assumes "\<not> cclosed (h_client s)" and "ccap (h_client s) = None" and "cend (h_client s) = EOF"
    and "list_all (unroutable (h_srv s)) ms" and "cin (h_client s) = concat (map mongo_frame ms)"
  shows "\<exists>bs. list_all2 (answers env (srv_connSeq (h_srv s) + 1)) ms bs
     \<and> dispatchMongo env s = (Err (Errorf ''mongo read command: %w'' [AWrap EOF]),
          s\<lparr>h_srv := (h_srv s)\<lparr>srv_connSeq := srv_connSeq (h_srv s) + 1\<rparr>,
            h_client := wrote (concat bs) ((h_client s)\<lparr>cin := []\<rparr>)\<rparr>)"
proof -
  let ?id = "srv_connSeq (h_srv s) + 1"
  obtain bs where bs: "list_all2 (answers env ?id) ms bs" and d: "dispatchMongo env s = mongo_loop env ?id
      ((numbered s)\<lparr>h_client := wrote (concat bs) ((h_client s)\<lparr>cin := []\<rparr>)\<rparr>)" (is "_ = mongo_loop _ _ ?s")
    using dispatchMongo_answers [OF assms(4,1,2), of "[]" env] assms(5) by auto
  have "ReadMongoMessage (h_client ?s) = (Err EOF, h_client ?s)"
    using assms(1,3) by (simp add: ReadMongoMessage_def ReadFull_def bindIO_def wrote_def msgHeaderLen_def)
  then have "mongo_step env ?id ?s = (Err (Errorf ''mongo read command: %w'' [AWrap EOF]), ?s)"
    by (simp add: mongo_step_def wrapIO_def on_client_def bindIO_def)
  then have "mongo_loop env ?id ?s = (Err (Errorf ''mongo read command: %w'' [AWrap EOF]), ?s)"
    by (subst mongo_loop.simps) simp
  then show ?thesis using bs d by (auto simp: numbered_def)
qed


section \<open>Examples\<close>

definition op_msg :: "u32 \<Rightarrow> BSON \<Rightarrow> MsgHeader \<times> bytes" where
  "op_msg rid doc =
     (\<lparr>mh_MessageLength = word_of_nat (msgHeaderLen + length (EncodeOpMsgBody 0 doc)), mh_RequestID = rid,
       mh_ResponseTo = 0, mh_OpCode = OpMsg\<rparr>, EncodeOpMsgBody 0 doc)"

lemma op_msg_decodes:
  assumes "doc_ok doc" and "length (MarshalBSON doc) + 21 \<le> MaxMessageSize"
  shows "mongo_valid (op_msg rid doc)"
    and "decodeMongoCommand (fst (op_msg rid doc)) (snd (op_msg rid doc)) =
       Ok \<lparr>mc_Doc = norm_doc doc, mc_DB = fst (lookupBSONString (norm_doc doc) ''$db''), mc_OpCode = OpMsg, mc_RequestID = rid\<rparr>"
proof -
  show "mongo_valid (op_msg rid doc)"
    using assms(2) by (simp add: op_msg_def mongo_valid_def msgHeaderLen_def EncodeOpMsgBody_eq)
  have "ParseOpMsg (EncodeOpMsgBody 0 doc) = Ok (0, norm_doc doc)"
    using assms by (intro ParseOpMsg_EncodeOpMsgBody) (simp_all add: MaxMessageSize_def)
  then show "decodeMongoCommand (fst (op_msg rid doc)) (snd (op_msg rid doc)) =
       Ok \<lparr>mc_Doc = norm_doc doc, mc_DB = fst (lookupBSONString (norm_doc doc) ''$db''), mc_OpCode = OpMsg, mc_RequestID = rid\<rparr>"
    by (simp add: op_msg_def decodeMongoCommand_def)
qed

definition docs_rt :: ResolvedTarget where
  "docs_rt = \<lparr>rt_Name = ''local'', rt_Host = ''127.0.0.1'', rt_Port = 27018, rt_User = ''u'',
     rt_Password = ''p'', rt_Database = [], rt_SSLMode = [], rt_AuthSource = []\<rparr>"

definition docs_env :: "nat env" where
  "docs_env = sample_env\<lparr>env_dial := (\<lambda>_. Ok sample_mongo_upstream)\<rparr>"

definition docs_state :: "bytes \<Rightarrow> hstate" where
  "docs_state b = \<lparr>h_client = fresh_conn b, h_up = None,
     h_srv = (new_server sample_config Map.empty Map.empty)\<lparr>srv_store :=
       \<lparr>st_dbs = [''docs'' \<mapsto> (NewDatabase \<lparr>d_Adapter = ''mongodb'', d_VirtualName = ''docs'', d_Targets = []\<rparr> [])
                    \<lparr>db_current := Some docs_rt\<rparr>], st_conns = Map.empty\<rparr>\<rparr>, h_id = 5\<rparr>"

definition hello_msg :: "MsgHeader \<times> bytes" where
  "hello_msg = op_msg 7 [(''hello'', VInt32 1), (''$db'', VString ''admin'')]"

definition find_msg :: "MsgHeader \<times> bytes" where
  "find_msg = op_msg 8 [(''find'', VString ''c''), (''$db'', VString ''docs'')]"

lemma docs_state_simps [simp]:
  "\<not> cclosed (h_client (docs_state b))" "ccap (h_client (docs_state b)) = None" "cin (h_client (docs_state b)) = b"
  "cend (h_client (docs_state b)) = EOF" "cout (h_client (docs_state b)) = []" "srv_connSeq (h_srv (docs_state b)) = 0"
  "lookupDatabase (h_srv (docs_state b)) AdapterMongo ''docs'' = Some ''docs''"
  "lookupDatabase (h_srv (docs_state b)) AdapterMongo ''admin'' = None"
  "Current ''docs'' (srv_store (h_srv (docs_state b))) = Some docs_rt"
  by (simp_all add: docs_state_def fresh_conn_def lookupDatabase_def AdapterMongo_def Current_def NewDatabase_def new_server_def)

lemma hello_msg_unroutable: "unroutable (h_srv (docs_state b)) hello_msg"
  using op_msg_decodes [of "[(''hello'', VInt32 1), (''$db'', VString ''admin'')]" 7]
  by (simp add: unroutable_def hello_msg_def MarshalBSON_eq MaxMessageSize_def lookupBSONString_def)

lemma find_msg_routable:
  "mongo_valid find_msg"
  "decodeMongoCommand (fst find_msg) (snd find_msg) =
     Ok \<lparr>mc_Doc = [(''find'', VString ''c''), (''$db'', VString ''docs'')], mc_DB = ''docs'', mc_OpCode = OpMsg, mc_RequestID = 8\<rparr>"
  using op_msg_decodes [of "[(''find'', VString ''c''), (''$db'', VString ''docs'')]" 8]
  by (simp_all add: find_msg_def MarshalBSON_eq MaxMessageSize_def lookupBSONString_def)

lemma docs_login:
  "\<exists>u1. AuthenticateUpstreamMongo docs_env (rt_User docs_rt) (rt_Password docs_rt) (rt_AuthSource docs_rt) sample_mongo_upstream
     = (Ok (), u1) \<and> \<not> cclosed u1 \<and> ccap u1 = None \<and> cin u1 = ''Z''"
proof -
  have run: "scram_run docs_env user password ''client'' ''r=nonce'' ''client'' ''v=sig''" for user password
    using sample_scram_run [of user password] by (simp add: scram_run_def docs_env_def)
  show ?thesis
    using AuthenticateUpstreamMongo_Ok [OF run sample_mongo_login(1-6), of "rt_User docs_rt" "rt_Password docs_rt"]
      sample_mongo_login(1,2) by (simp add: wrote_def docs_rt_def)
qed


theorem mongo_unrouted_ends_witness:
  "\<exists>b. answers docs_env 1 hello_msg b \<and> fst (dispatchMongo docs_env (docs_state (mongo_frame hello_msg)))
      = Err (Errorf ''mongo read command: %w'' [AWrap EOF])
    \<and> cout (h_client (snd (dispatchMongo docs_env (docs_state (mongo_frame hello_msg))))) = b"
  using mongo_unrouted_ends [of "docs_state (mongo_frame hello_msg)" "[hello_msg]" docs_env] hello_msg_unroutable
  by (fastforce simp: list_all2_Cons1)

theorem connect_mongo_fail_closed_witness:
  "\<exists>s' u1. connect_mongo docs_env (fst find_msg) (snd find_msg) ''docs'' docs_rt (docs_state []) = (Ok (), s')
     \<and> h_up s' = Some (wrote (mongo_frame find_msg) u1) \<and> 5 \<in> set (conns_of ''docs'' (srv_store (h_srv s')))"
proof -
  obtain u1 where u1: "AuthenticateUpstreamMongo docs_env (rt_User docs_rt) (rt_Password docs_rt) (rt_AuthSource docs_rt)
      sample_mongo_upstream = (Ok (), u1)" "\<not> cclosed u1" "ccap u1 = None" using docs_login by blast
  have dial: "env_dial docs_env (upstream_addr docs_rt) = Ok sample_mongo_upstream" by (simp add: docs_env_def)
  obtain s' where s': "connect_mongo docs_env (fst find_msg) (snd find_msg) ''docs'' docs_rt (docs_state []) = (Ok (), s')"
    using connect_mongo_Ok [OF dial u1] by blast
  from connect_mongo_fail_closed [OF s'] have "h_up s' = Some (wrote (mongo_frame find_msg) u1)"
    and "conns_of ''docs'' (srv_store (h_srv s')) = [5]"
    using dial u1 by (auto simp: docs_state_def Register_def conns_of_def NewDatabase_def add_new_def)
  with s' show ?thesis by auto
qed

end
