(* ===== verification/Serve.thy ===== *)
theory Serve
  imports PgServer MysqlServer MongoServer
begin

text \<open>
  \<open>handleConn\<close>, \<open>acceptLoop\<close> and \<open>Start\<close> of \<open>internal/proxy/server.go\<close>: one accepted connection, from the
  dispatch by adapter to the deferred \<open>client.Close()\<close>, and the loops that accept. Whatever the protocol
  and whatever the two peers send, a handler that returns leaves the server as it found it; \<open>Start\<close>
  returns once every listener has stopped. A listener is the list of what its \<open>Accept\<close> will return; logging
  is not modelled.
\<close>

definition handleConn :: "'c env \<Rightarrow> string \<Rightarrow> (hstate, unit) io" where
  "handleConn env adapter s =
     (let (r, s') = (if adapter = AdapterMySQL then dispatchMySQL env s
                     else if adapter = AdapterMongo then dispatchMongo env s
                     else dispatch env s)
      in (if r = Panic then Panic else Ok (), s'\<lparr>h_client := close_sock (h_client s')\<rparr>))"

section \<open>The accept loops\<close>

text \<open>What \<open>Accept\<close> returns, each with what \<open>IsClosed\<close> says at that time; at the end of the list \<open>Accept\<close> blocks.
  The result is the connections that got a handler and, if the loop has ended, what it returned.\<close>

type_synonym listener = "(conn res \<times> bool) list"

fun acceptLoop :: "listener \<Rightarrow> conn list \<times> unit res option" where
  "acceptLoop [] = ([], None)"
| "acceptLoop ((Ok c, closed) # ln) = (let (cs, r) = acceptLoop ln in (c # cs, r))"
| "acceptLoop ((Err e, closed) # ln) = ([], Some (if closed then Ok () else Err e))"
| "acceptLoop ((Panic, closed) # ln) = ([], Some Panic)"

text \<open>The loop over \<open>errCh\<close>: the first error in the order of arrival.\<close>

fun first_error :: "unit res list \<Rightarrow> unit res" where
  "first_error [] = Ok ()"
| "first_error (Ok _ # rs) = first_error rs"
| "first_error (r # rs) = r"

text \<open>\<open>Start\<close>: bind, then one loop per listener; \<open>finished\<close> is the order in which the loops end. The result is
  \<open>None\<close> as long as a loop still accepts.\<close>

definition Start ::
  "(string \<Rightarrow> string res) \<Rightarrow> (string \<times> string) list \<Rightarrow> (string \<Rightarrow> listener) \<Rightarrow> string list \<Rightarrow> Server
     \<Rightarrow> unit res option \<times> Server" where
  "Start listen order lns finished s =
     (case Start_bind listen order s of
        (Ok _, s') \<Rightarrow>
          if srv_closed s then (Some (Ok ()), s')
          else (let rs = map (\<lambda>adapter. snd (acceptLoop (lns adapter))) finished in
                (if None \<in> set rs then None else Some (first_error (map the rs)), s'))
      | (Err e, s') \<Rightarrow> (Some (Err e), s')
      | (Panic, s') \<Rightarrow> (Some Panic, s'))"

section \<open>Every handler is clean\<close>

lemma route_clean: "clean (route env params)"
proof (rule clean_choice)
  fix s
  let ?q = "startup_dbname params"
  show "\<exists>m'. clean m' \<and> route env params s = m' s"
  proof (cases "lookupDatabase (h_srv s) AdapterPostgres ?q")
    case None
    then show ?thesis
      by (intro exI [of _ "reject ''3D000'' (Sprintf (env_isPrint env) ''database %q not configured'' [AStr ?q])"])
        (simp add: route_def clean_client_only)
  next
    case (Some n)
    show ?thesis
    proof (cases "Current n (srv_store (h_srv s))")
      case None
      with Some show ?thesis
        by (intro exI [of _ "reject ''57P03'' (Sprintf (env_isPrint env) ''database %q has no active target'' [AStr ?q])"])
          (simp add: route_def clean_client_only)
    next
      case Current: (Some rt)
      with Some pg_session.session_clean [of env params n rt env] show ?thesis
        by (intro exI [of _ "bindIO (connect_upstream env params n rt) (\<lambda>_. relay env)"]) (simp add: route_def)
    qed
  qed
qed

lemma dispatch_clean: "clean (dispatch_loop env k)"
proof (induction k)
  case 0
  show ?case unfolding dispatch_loop.simps by (intro clean_client_only client_only_intros)
next
  case (Suc k)
  have h: "clean (handleStartup env n)" for n
    unfolding handleStartup_def by (intro clean_bindIO) (simp_all add: route_clean)
  show ?case
    unfolding dispatch_loop.simps
    by (intro clean_bindIO) (auto intro!: clean_bindIO simp: Suc h clean_client_only)
qed

lemma route_mysql_clean: "clean (route_mysql env login)"
proof (rule clean_choice)
  fix s
  let ?q = "login_dbname login"
  show "\<exists>m'. clean m' \<and> route_mysql env login s = m' s"
  proof (cases "lookupDatabase (h_srv s) AdapterMySQL ?q")
    case None
    then show ?thesis
      by (intro exI [of _ "reject_mysql login erBadDBError ''42000''
            (Sprintf (env_isPrint env) (''Unknown database '%s'' @ [CHR 0x27]) [AStr ?q])"])
        (simp add: route_mysql_def clean_client_only)
  next
    case (Some n)
    show ?thesis
    proof (cases "Current n (srv_store (h_srv s))")
      case None
      with Some show ?thesis
        by (intro exI [of _ "reject_mysql login erUnknownError ''HY000''
              (Sprintf (env_isPrint env) ''database %q has no active target'' [AStr ?q])"])
          (simp add: route_mysql_def clean_client_only)
    next
      case Current: (Some rt)
      with Some mysql_session.session_clean [of env login n rt env] show ?thesis
        by (intro exI [of _ "bindIO (connect_mysql env login n rt) (\<lambda>_. relay env)"]) (simp add: route_mysql_def)
    qed
  qed
qed

lemma routeMongo_clean: "clean (routeMongo env n db hdr body)"
proof (rule clean_choice)
  fix s
  show "\<exists>m'. clean m' \<and> routeMongo env n db hdr body s = m' s"
  proof (cases "Current n (srv_store (h_srv s))")
    case None
    then show ?thesis
      by (intro exI [of _ "tryIO (reply_mongo hdr (mongoErrorReply
            (Sprintf (env_isPrint env) ''database %q has no active target'' [AStr db]) mongoErrInternalError))"])
        (simp add: routeMongo_def clean_client_only)
  next
    case (Some rt)
    with mongo_session.session_clean [of env hdr body n rt env] show ?thesis
      by (intro exI [of _ "bindIO (connect_mongo env hdr body n rt) (\<lambda>_. relay env)"]) (simp add: routeMongo_def)
  qed
qed

lemma mongo_step_client_only: "client_only (mongo_step env connID)"
proof -
  have "client_only (\<lambda>s. case lookupDatabase (h_srv s) AdapterMongo (mc_DB cmd) of
         Some n \<Rightarrow> (Ok (Some (n, mc_DB cmd, hdr, body)), s)
       | None \<Rightarrow>
           let (reply, f) = local_reply env connID (env_now env (length (cin (h_client s)))) cmd in
           bindIO (wrapIO f (reply_mongo hdr reply)) (\<lambda>_. retIO None) s)" for cmd hdr body
  proof (rule client_onlyI)
    fix s r s'
    assume run: "(case lookupDatabase (h_srv s) AdapterMongo (mc_DB cmd) of
         Some n \<Rightarrow> (Ok (Some (n, mc_DB cmd, hdr, body)), s)
       | None \<Rightarrow>
           let (reply, f) = local_reply env connID (env_now env (length (cin (h_client s)))) cmd in
           bindIO (wrapIO f (reply_mongo hdr reply)) (\<lambda>_. retIO None) s) = (r, s')"
    have "client_only (bindIO (wrapIO f (reply_mongo hdr reply)) (\<lambda>_. retIO None))" for f reply
      by (intro client_only_bindIO client_only_wrapIO client_only_intros reply_mongo_client_only)
    note c = client_onlyD [OF this]
    obtain reply f where "local_reply env connID (env_now env (length (cin (h_client s)))) cmd = (reply, f)" by fastforce
    with run c [of f reply s r s'] show "h_srv s' = h_srv s \<and> h_id s' = h_id s \<and> h_up s' = h_up s"
      by (simp split: option.splits)
  qed
  then show ?thesis unfolding mongo_step_def by (auto intro!: client_only_bindIO)
qed

lemma mongo_loop_clean: "clean (mongo_loop env connID)"
proof -
  have "restored (h_srv s) (h_srv s') \<and> (r = Panic \<or> up_closed s')"
    if "ready s" and "mongo_loop env connID s = (r, s')" for s r s'
    using that
  proof (induction env connID s rule: mongo_loop.induct)
    case (1 env connID s)
    obtain r1 s1 where m: "mongo_step env connID s = (r1, s1)" by (cases "mongo_step env connID s")
    note c = client_onlyD [OF mongo_step_client_only m]
    then have rd: "ready s1" using 1(2) by (simp add: ready_def up_closed_def)
    consider "r1 = Ok None" | n db hdr body where "r1 = Ok (Some (n, db, hdr, body))" | e where "r1 = Err e" | "r1 = Panic"
      by (cases r1) (auto, metis not_None_eq prod_cases4)
    then show ?case
    proof cases
      case 1
      with m "1.prems"(2) have "mongo_loop env connID s1 = (r, s')" by (subst (asm) mongo_loop.simps) simp
      from "1.IH" [OF m [symmetric] 1 refl rd this] c show ?thesis by simp
    next
      case 2
      with m 1(3) have "routeMongo env n db hdr body s1 = (r, s')" by (subst (asm) mongo_loop.simps) simp
      from cleanD [OF routeMongo_clean rd this] c show ?thesis by simp
    qed (use m 1(2,3) c in \<open>auto simp: mongo_loop.simps [of env connID s] ready_def restored_refl up_closed_def\<close>)
  qed
  then show ?thesis unfolding clean_def by blast
qed

lemma clean_numbered:
  assumes "\<And>x. clean (k x)"
  shows "clean (bindIO next_connID k)"
  unfolding clean_def
proof (intro allI impI)
  fix s r s' assume a: "ready s \<and> bindIO next_connID k s = (r, s')"
  let ?s = "s\<lparr>h_srv := (h_srv s)\<lparr>srv_connSeq := srv_connSeq (h_srv s) + 1\<rparr>\<rparr>"
  have "ready ?s" and "k (srv_connSeq (h_srv s) + 1) ?s = (r, s')"
    using a by (simp_all add: next_connID_def ready_def up_closed_def Let_def)
  from cleanD [OF assms this] show "restored (h_srv s) (h_srv s') \<and> (r = Panic \<or> up_closed s')"
    by (simp add: restored_def CurrentTarget_def)
qed

lemma handler_clean: "clean (dispatch env)" "clean (dispatchMySQL env)" "clean (dispatchMongo env)"
  unfolding dispatch_def dispatchMySQL_def dispatchMongo_def
  by (auto intro!: clean_numbered clean_bindIO simp: dispatch_clean route_mysql_clean mongo_loop_clean)

lemma handleConn_restored:
  assumes "ready s" and "handleConn env adapter s = (r, s')"
  shows "restored (h_srv s) (h_srv s')" and "cclosed (h_client s')" and "r = Ok () \<Longrightarrow> up_closed s'"
proof -
  define m where "m = (if adapter = AdapterMySQL then dispatchMySQL env else if adapter = AdapterMongo then dispatchMongo env
    else dispatch env)"
  have m: "clean m" by (simp add: m_def handler_clean)
  have h: "handleConn env adapter s =
      (let (r, s') = m s in (if r = Panic then Panic else Ok (), s'\<lparr>h_client := close_sock (h_client s')\<rparr>))"
    by (simp add: handleConn_def m_def)
  obtain r1 s1 where m1: "m s = (r1, s1)" by (cases "m s")
  from cleanD [OF m assms(1) m1] assms(2) h m1
  show "restored (h_srv s) (h_srv s')" and "cclosed (h_client s')" and "r = Ok () \<Longrightarrow> up_closed s'"
    by (auto simp: close_sock_def up_closed_def split: if_splits)
qed

text \<open>C13. A handler cleans up after itself, on every path and for every protocol, whatever the client and
  the upstream send: when it returns, the client's connection is closed, an upstream that was dialled is
  closed, every database has the target and exactly the registered connections it had before, and the
  registry is consistent.\<close>

theorem handleConn_cleans_up:
  assumes "ready s" and "handleConn env adapter s = (r, s')"
  shows "cclosed (h_client s') \<and> (r = Ok () \<longrightarrow> up_closed s') \<and> wf_store (srv_store (h_srv s'))
     \<and> (\<forall>n. conns_of n (srv_store (h_srv s')) = conns_of n (srv_store (h_srv s))
            \<and> Current n (srv_store (h_srv s')) = Current n (srv_store (h_srv s)))
     \<and> CurrentTarget (h_srv s') = CurrentTarget (h_srv s)"
  using handleConn_restored [OF assms] by (auto simp: restored_def)

theorem handleConn_cleans_up_witness:
  "\<exists>r s'. handleConn docs_env AdapterMongo (docs_state (mongo_frame hello_msg @ mongo_frame find_msg)) = (r, s')
     \<and> cclosed (h_client s') \<and> conns_of ''docs'' (srv_store (h_srv s')) = []"
proof -
  let ?s = "docs_state (mongo_frame hello_msg @ mongo_frame find_msg)"
  obtain r s' where run: "handleConn docs_env AdapterMongo ?s = (r, s')" by fastforce
  have "ready ?s"
    by (simp add: ready_def docs_state_def up_closed_def wf_store_def conns_of_def NewDatabase_def)
  moreover have "conns_of ''docs'' (srv_store (h_srv ?s)) = []" by (simp add: docs_state_def conns_of_def NewDatabase_def)
  ultimately show ?thesis using handleConn_cleans_up [OF _ run] run by auto
qed


section \<open>When \<open>Start\<close> returns\<close>

definition accepted :: "conn res \<times> bool \<Rightarrow> bool" where
  "accepted a \<longleftrightarrow> (case fst a of Ok _ \<Rightarrow> True | _ \<Rightarrow> False)"

definition stopped :: "listener \<Rightarrow> bool" where
  "stopped ln \<longleftrightarrow> list_ex (\<lambda>a. \<not> accepted a) ln"

text \<open>The first failed \<open>Accept\<close> of a listener.\<close>

definition stop_of :: "listener \<Rightarrow> conn res \<times> bool" where
  "stop_of ln = hd (dropWhile accepted ln)"

lemma acceptLoop_conns: "map Ok (fst (acceptLoop ln)) = map fst (takeWhile accepted ln)"
  by (induction ln rule: acceptLoop.induct) (auto simp: accepted_def split: prod.splits)

lemma acceptLoop_result:
  "snd (acceptLoop ln) =
     (if stopped ln
      then Some (case stop_of ln of (Err e, closed) \<Rightarrow> if closed then Ok () else Err e | _ \<Rightarrow> Panic) else None)"
  by (induction ln rule: acceptLoop.induct) (auto simp: stopped_def stop_of_def accepted_def split: prod.splits)

lemma first_error_Ok: "first_error rs = Ok () \<longleftrightarrow> (\<forall>r \<in> set rs. r = Ok ())"
  by (induction rs rule: first_error.induct) auto

lemma first_error_mem: "first_error rs \<noteq> Ok () \<Longrightarrow> first_error rs \<in> set rs"
  by (induction rs rule: first_error.induct) auto

text \<open>C26. A server whose listeners could be bound serves until every listener has stopped: \<open>Start\<close> returns
  then and not before. It returns no error exactly if every listener stopped because the server had
  been shut down; otherwise it returns the error of a listener that failed before that.\<close>

theorem Start_returns:
  assumes "Start_bind listen order s = (Ok (), s1)" and "\<not> srv_closed s"
    and "\<forall>a \<in> set finished. stopped (lns a) \<longrightarrow> fst (stop_of (lns a)) \<noteq> Panic"
    and "Start listen order lns finished s = (r, s')"
  shows "s' = s1 \<and> (r = None \<longleftrightarrow> (\<exists>a \<in> set finished. \<not> stopped (lns a)))
     \<and> (r = Some (Ok ()) \<longleftrightarrow> (\<forall>a \<in> set finished. stopped (lns a) \<and> snd (stop_of (lns a))))
     \<and> (\<forall>q. r = Some q \<and> q \<noteq> Ok () \<longrightarrow>
          (\<exists>a \<in> set finished. \<exists>e. stop_of (lns a) = (Err e, False) \<and> q = Err e))"
proof -
  let ?rs = "map (\<lambda>a. snd (acceptLoop (lns a))) finished"
  have r: "r = (if None \<in> set ?rs then None else Some (first_error (map the ?rs)))" and s': "s' = s1"
    using assms(1,2,4) by (auto simp: Start_def Let_def)
  have none: "None \<in> set ?rs \<longleftrightarrow> (\<exists>a \<in> set finished. \<not> stopped (lns a))"
    by (auto simp: acceptLoop_result image_iff split: if_splits)
  have res: "(if snd (stop_of (lns a)) then the (snd (acceptLoop (lns a))) = Ok ()
      else \<exists>e. stop_of (lns a) = (Err e, False) \<and> the (snd (acceptLoop (lns a))) = Err e)"
    if "a \<in> set finished" "stopped (lns a)" for a
  proof -
    have "\<not> accepted (stop_of (lns a))" using that(2) hd_dropWhile [of accepted "lns a"]
      by (auto simp: stopped_def stop_of_def list_ex_iff dropWhile_eq_Nil_conv)
    with that assms(3) show ?thesis by (cases "stop_of (lns a)"; cases "fst (stop_of (lns a))") (auto simp: acceptLoop_result accepted_def)
  qed
  show ?thesis
  proof (cases "None \<in> set ?rs")
    case True
    with r s' none show ?thesis by auto
  next
    case False
    then have st: "\<forall>a \<in> set finished. stopped (lns a)" using none by blast
    have "first_error (map the ?rs) = Ok () \<longleftrightarrow> (\<forall>a \<in> set finished. snd (stop_of (lns a)))"
      using st res unfolding first_error_Ok by (fastforce split: if_splits)
    moreover have "\<exists>a \<in> set finished. \<exists>e. stop_of (lns a) = (Err e, False) \<and> first_error (map the ?rs) = Err e"
      if "first_error (map the ?rs) \<noteq> Ok ()"
      using first_error_mem [OF that] st res that by (fastforce split: if_splits)
    ultimately show ?thesis using False r s' st none by auto
  qed
qed


text \<open>One listener that accepts a connection and is then closed by a shutdown.\<close>

definition closing_listener :: listener where
  "closing_listener = [(Ok (fresh_conn []), False), (Err (SysErr ''use of closed network connection''), True)]"

theorem Start_returns_witness:
  "\<exists>s'. Start (\<lambda>a. Ok a) [(''postgres'', ''127.0.0.1:6432'')] (\<lambda>_. closing_listener) [''postgres'']
      (new_server sample_config Map.empty Map.empty) = (Some (Ok ()), s')"
proof -
  let ?s = "new_server sample_config Map.empty Map.empty"
  let ?order = "[(''postgres'', ''127.0.0.1:6432'')]"
  have open_srv: "\<not> srv_closed ?s" by (simp add: new_server_def)
  have bind: "Start_bind (\<lambda>a. Ok a) ?order ?s = (Ok (), ?s\<lparr>srv_listeners := [''postgres'' \<mapsto> (''127.0.0.1:6432'', True)]\<rparr>)"
    by (simp add: Start_bind_def new_server_def)
  have ln: "stopped closing_listener" "snd (stop_of closing_listener)" "fst (stop_of closing_listener) \<noteq> Panic"
    by (simp_all add: closing_listener_def stopped_def stop_of_def accepted_def)
  obtain r s' where run: "Start (\<lambda>a. Ok a) ?order (\<lambda>_. closing_listener) [''postgres''] ?s = (r, s')" by fastforce
  have "\<forall>a \<in> set [''postgres'']. stopped closing_listener \<longrightarrow> fst (stop_of closing_listener) \<noteq> Panic" using ln(3) by simp
  from Start_returns [OF bind open_srv this run] ln run show ?thesis by simp
qed

end
