(* ===== verification/Probe.thy ===== *)
theory Probe
  imports Serve
begin

text \<open>
  \<open>internal/proxy/probe.go\<close>: the health probes after a switch, a login and one \<open>select 1\<close> against the
  active target of every database. A probe that succeeds has logged in and got an answer; a MongoDB
  target is probed with the PostgreSQL protocol. Deadlines are not modelled.
\<close>

definition comQuery :: byte where "comQuery = CHR 0x03"

record ProbeResult =
  pr_VirtualName :: string
  pr_Target :: string
  pr_Database :: string
  pr_Addr :: string
  pr_OK :: bool
  pr_Err :: string

section \<open>PostgreSQL\<close>

function pgWaitReady :: "(conn, unit) io" where
  "pgWaitReady c =
     (case ReadMessage c of
        (Err e, c') \<Rightarrow> (Err (Errorf ''read: %w'' [AWrap e]), c')
      | (Panic, c') \<Rightarrow> (Panic, c')
      | (Ok (ty, body), c') \<Rightarrow>
          if ty = CHR ''E''
          then bindIO (liftIO (ParseErrorResponse body)) (\<lambda>msg. errIO (Errorf ''%s'' [AStr msg])) c'
          else if ty = CHR ''Z'' then (Ok (), c')
          else pgWaitReady c')"
  by pat_completeness auto

lemma ReadMessage_shorter: "ReadMessage c = (Ok m, c') \<Longrightarrow> length (cin c') < length (cin c)"
  using ReadMessage_OkD [of c "fst m" "snd m" c'] by (simp add: pg_frame_def msg_header_def)

termination pgWaitReady
  by (relation "measure (length \<circ> cin)") (auto dest!: sym [of _ "ReadMessage _"] dest: ReadMessage_shorter)

declare pgWaitReady.simps [simp del]

definition probe_params :: "ResolvedTarget \<Rightarrow> KV list" where
  "probe_params rt =
     \<lparr>kv_K = ''user'', kv_V = rt_User rt\<rparr>
       # (if rt_Database rt \<noteq> [] then [\<lparr>kv_K = ''database'', kv_V = rt_Database rt\<rparr>] else [])"

definition select_1 :: bytes where "select_1 = ''select 1''"

text \<open>What a probe does on its connection.\<close>

definition probe_pg :: "'c env \<Rightarrow> ResolvedTarget \<Rightarrow> (conn, unit) io" where
  "probe_pg env rt =
     bindIO (if rt_SSLMode rt = SSLModeRequire
             then bindIO (wrapIO ''tls: %w'' (NegotiateUpstreamTLS env (rt_Host rt))) use_conn
             else retIO ()) (\<lambda>_.
     bindIO (wrapIO ''write startup: %w'' (Write (EncodeStartup (probe_params rt)))) (\<lambda>_.
     bindIO (wrapIO ''auth: %w'' (AuthenticateUpstream env (rt_User rt) (rt_Password rt))) (\<lambda>_.
     bindIO (wrapIO ''post-auth: %w'' pgWaitReady) (\<lambda>_.
     bindIO (wrapIO ''write query: %w'' (WriteMessage (CHR ''Q'') (select_1 @ [NUL]))) (\<lambda>_.
       wrapIO ''query: %w'' pgWaitReady)))))"

text \<open>\<open>net.DialTimeout\<close> and \<open>defer conn.Close()\<close> around it; the result carries the connection as the
  probe leaves it.\<close>

definition with_conn :: "'c env \<Rightarrow> ResolvedTarget \<Rightarrow> (conn, unit) io \<Rightarrow> unit res \<times> conn option" where
  "with_conn env rt m =
     (case env_dial env (upstream_addr rt) of
        Ok c \<Rightarrow> (let (r, c') = m c in (r, Some (close_sock c')))
      | Err e \<Rightarrow> (Err (Errorf ''dial: %w'' [AWrap e]), None)
      | Panic \<Rightarrow> (Panic, None))"

definition probePostgres :: "'c env \<Rightarrow> ResolvedTarget \<Rightarrow> unit res \<times> conn option" where
  "probePostgres env rt = with_conn env rt (probe_pg env rt)"

section \<open>MySQL\<close>

definition probe_mysql :: "'c env \<Rightarrow> ResolvedTarget \<Rightarrow> (conn, unit) io" where
  "probe_mysql env rt =
     bindIO (wrapIO ''auth: %w'' (AuthenticateUpstreamMySQL env (rt_User rt) (rt_Password rt) (rt_Database rt)
                                    False (tls_config rt))) (\<lambda>_.
     bindIO (wrapIO ''write query: %w'' (WritePacket 0 (comQuery # select_1))) (\<lambda>_.
     bindIO (wrapIO ''read: %w'' ReadPacket) (\<lambda>(_, resp).
       if IsErrPacket resp
       then bindIO (liftIO (ParseERRPacket resp)) (\<lambda>msg. errIO (Errorf ''%s'' [AStr msg]))
       else retIO ())))"

definition probeMySQL :: "'c env \<Rightarrow> ResolvedTarget \<Rightarrow> unit res \<times> conn option" where
  "probeMySQL env rt = with_conn env rt (probe_mysql env rt)"

definition probeTarget :: "'c env \<Rightarrow> string \<Rightarrow> ResolvedTarget \<Rightarrow> unit res \<times> conn option" where
  "probeTarget env adapter rt =
     (if adapter = AdapterMySQL then probeMySQL env rt else probePostgres env rt)"

section \<open>All active targets\<close>

definition probe_job :: "'c env \<Rightarrow> string \<Rightarrow> string \<Rightarrow> ResolvedTarget \<Rightarrow> ProbeResult res" where
  "probe_job env name adapter rt =
     (let r = \<lparr>pr_VirtualName = name, pr_Target = rt_Name rt, pr_Database = rt_Database rt,
               pr_Addr = JoinHostPort (rt_Host rt) (Itoa (rt_Port rt)), pr_OK = False, pr_Err = []\<rparr> in
      case fst (probeTarget env adapter rt) of
        Err e \<Rightarrow> Ok (r\<lparr>pr_Err := err_text (env_isPrint env) e\<rparr>)
      | Ok _ \<Rightarrow> Ok (r\<lparr>pr_OK := True\<rparr>)
      | Panic \<Rightarrow> Panic)"

text \<open>The loop over the map of databases runs in any order, given as an argument. The probes run
  concurrently and share nothing; one that panics ends the program.\<close>

fun ProbeActive :: "'c env \<Rightarrow> string list \<Rightarrow> Server \<Rightarrow> ProbeResult list res" where
  "ProbeActive env [] s = Ok []"
| "ProbeActive env (name # names) s =
     (case st_dbs (srv_store s) name of
        None \<Rightarrow> ProbeActive env names s
      | Some d \<Rightarrow>
          (case db_current d of
             None \<Rightarrow> ProbeActive env names s
           | Some rt \<Rightarrow> bindR (probe_job env name (db_adapter d) rt) (\<lambda>r.
               bindR (ProbeActive env names s) (\<lambda>rs. Ok (r # rs)))))"

text \<open>The lines that are logged: level, message, attributes.\<close>

datatype level = LevelDebug | LevelInfo | LevelWarn | LevelError

definition LogProbeResults :: "ProbeResult list \<Rightarrow> (level \<times> string \<times> (string \<times> string) list) list" where
  "LogProbeResults results =
     map (\<lambda>r. let attrs = [(''virtual_name'', pr_VirtualName r), (''target'', pr_Target r), (''addr'', pr_Addr r)] in
            if pr_OK r then (LevelInfo, ''upstream probe ok'', attrs)
            else (LevelWarn, ''upstream probe failed'', attrs @ [(''err'', pr_Err r)])) results"

section \<open>What a successful probe has seen\<close>

lemma pgWaitReady_OkD:
  assumes "pgWaitReady c = (Ok (), c')"
  shows "\<exists>ms b i. cin c = concat (map pg_frame ms) @ pg_frame (CHR ''Z'', b) @ cin c'
     \<and> c' = c\<lparr>cin := i\<rparr> \<and> list_all (\<lambda>m. fst m \<noteq> CHR ''E'' \<and> fst m \<noteq> CHR ''Z'') ms"
  using assms
proof (induction c rule: pgWaitReady.induct)
  case (1 c)
  obtain r c1 where r: "ReadMessage c = (r, c1)" by (cases "ReadMessage c")
  obtain ty body where m: "ReadMessage c = (Ok (ty, body), c1)"
    using 1(2) r by (cases r) (auto simp: pgWaitReady.simps [of c])
  from ReadMessage_OkD [OF m] obtain i where cin: "cin c = pg_frame (ty, body) @ cin c1" and c1: "c1 = c\<lparr>cin := i\<rparr>" by blast
  have E: "ty \<noteq> CHR ''E''"
    using 1(2) m ParseErrorResponse_total [of body] by (auto simp: pgWaitReady.simps [of c] bindIO_def)
  show ?case
  proof (cases "ty = CHR ''Z''")
    case True
    with 1(2) m have "c' = c1" by (simp add: pgWaitReady.simps [of c])
    with cin c1 True show ?thesis by (intro exI [of _ "[] :: (byte \<times> bytes) list"] exI [of _ body] exI [of _ i]) simp
  next
    case False
    with 1(2) m E have run: "pgWaitReady c1 = (Ok (), c')" by (simp add: pgWaitReady.simps [of c])
    from 1(1) [OF m [symmetric] refl refl E False run] obtain ms b j where
      "cin c1 = concat (map pg_frame ms) @ pg_frame (CHR ''Z'', b) @ cin c'" "c' = c1\<lparr>cin := j\<rparr>"
      "list_all (\<lambda>m. fst m \<noteq> CHR ''E'' \<and> fst m \<noteq> CHR ''Z'') ms" by blast
    with cin c1 E False show ?thesis by (intro exI [of _ "(ty, body) # ms"] exI [of _ b] exI [of _ j]) simp
  qed
qed


lemma with_conn_OkD:
  assumes "with_conn env rt m = (Ok (), co)"
  shows "\<exists>u c. env_dial env (upstream_addr rt) = Ok u \<and> m u = (Ok (), c) \<and> co = Some (close_sock c)"
  using assms by (auto simp: with_conn_def split: res.splits prod.splits)

definition harmless :: "byte \<times> bytes \<Rightarrow> bool" where
  "harmless m \<longleftrightarrow> fst m \<noteq> CHR ''E'' \<and> fst m \<noteq> CHR ''Z''"

lemma probe_pg_OkD:
  assumes run: "probe_pg env rt raw = (Ok (), c)" and dial: "env_dial env (upstream_addr rt) = Ok raw"
  shows "\<exists>u0 u1 ms1 b1 ms2 b2. upstream_link env rt u0
     \<and> AuthenticateUpstream env (rt_User rt) (rt_Password rt) (wrote (EncodeStartup (probe_params rt)) u0) = (Ok (), u1)
     \<and> cin u1 = concat (map pg_frame ms1) @ pg_frame (CHR ''Z'', b1)
                  @ concat (map pg_frame ms2) @ pg_frame (CHR ''Z'', b2) @ cin c
     \<and> list_all harmless (ms1 @ ms2) \<and> cout c = cout u1 @ pg_frame (CHR ''Q'', select_1 @ [NUL])"
proof -
  from run obtain u0 c2 u1 c3 c4 where
    tls: "(if rt_SSLMode rt = SSLModeRequire
        then bindIO (wrapIO ''tls: %w'' (NegotiateUpstreamTLS env (rt_Host rt))) use_conn else retIO ()) raw = (Ok (), u0)"
    and w: "Write (EncodeStartup (probe_params rt)) u0 = (Ok (), c2)"
    and auth: "AuthenticateUpstream env (rt_User rt) (rt_Password rt) c2 = (Ok (), u1)"
    and r1: "pgWaitReady u1 = (Ok (), c3)"
    and q: "WriteMessage (CHR ''Q'') (select_1 @ [NUL]) c3 = (Ok (), c4)" and r2: "pgWaitReady c4 = (Ok (), c)"
    unfolding probe_pg_def bindIO_eq_Ok_iff wrapIO_eq_Ok_iff by (auto split del: if_split)
  have link: "upstream_link env rt u0"
  proof (cases "rt_SSLMode rt = SSLModeRequire")
    case True
    with tls obtain raw' where "NegotiateUpstreamTLS env (rt_Host rt) raw = (Ok u0, raw')"
      by (auto simp: bindIO_eq_Ok_iff wrapIO_eq_Ok_iff use_conn_def)
    from NegotiateUpstreamTLS_OkD [OF this] True dial show ?thesis by (auto simp: upstream_link_def)
  qed (use tls dial in \<open>simp add: upstream_link_def\<close>)
  have c2: "c2 = wrote (EncodeStartup (probe_params rt)) u0" using w by (simp add: Write_Ok_iff)
  from pgWaitReady_OkD [OF r1] obtain ms1 b1 i1 where m1: "cin u1 = concat (map pg_frame ms1) @ pg_frame (CHR ''Z'', b1) @ cin c3"
    "c3 = u1\<lparr>cin := i1\<rparr>" "list_all harmless ms1" unfolding harmless_def by blast
  from pgWaitReady_OkD [OF r2] obtain ms2 b2 i2 where m2: "cin c4 = concat (map pg_frame ms2) @ pg_frame (CHR ''Z'', b2) @ cin c"
    "c = c4\<lparr>cin := i2\<rparr>" "list_all harmless ms2" unfolding harmless_def by blast
  have c4: "c4 = wrote (pg_frame (CHR ''Q'', select_1 @ [NUL])) c3" using q by (simp add: WriteMessage_Ok_iff)
  show ?thesis
    using link auth c2 m1 m2 c4
    by (intro exI [of _ u0] exI [of _ u1] exI [of _ ms1] exI [of _ b1] exI [of _ ms2] exI [of _ b2]) simp
qed

lemma probe_mysql_OkD:
  assumes "probe_mysql env rt u = (Ok (), c)"
  shows "\<exists>hs caps u1 m. AuthenticateUpstreamMySQL env (rt_User rt) (rt_Password rt) (rt_Database rt) False (tls_config rt) u
         = (Ok (hs, caps), u1)
     \<and> ReadPacket (wrote (packet_bytes 0 (comQuery # select_1)) u1) = (Ok m, c) \<and> \<not> IsErrPacket (snd m)"
  using assms unfolding probe_mysql_def bindIO_eq_Ok_iff wrapIO_eq_Ok_iff
  by (auto simp: WritePacket_Ok_iff bindIO_eq_Ok_iff split: if_splits)

text \<open>C23. A healthy report means what it says. A PostgreSQL probe that succeeds has logged in to the
  target (over TLS where required), seen the server ready, sent \<open>select 1\<close> and nothing else, and seen the
  server ready again with no error in between; a MySQL probe has logged in, sent the query and got an
  answer that is not an error. The connection is closed.\<close>

theorem probe_ok_sound:
  assumes "probeTarget env adapter rt = (Ok (), co)"
  shows "\<exists>c. co = Some (close_sock c) \<and>
     (if adapter = AdapterMySQL
      then \<exists>u hs caps u1 m. env_dial env (upstream_addr rt) = Ok u
         \<and> AuthenticateUpstreamMySQL env (rt_User rt) (rt_Password rt) (rt_Database rt) False (tls_config rt) u
             = (Ok (hs, caps), u1)
         \<and> ReadPacket (wrote (packet_bytes 0 (comQuery # select_1)) u1) = (Ok m, c) \<and> \<not> IsErrPacket (snd m)
      else \<exists>u0 u1 ms1 b1 ms2 b2. upstream_link env rt u0
         \<and> AuthenticateUpstream env (rt_User rt) (rt_Password rt) (wrote (EncodeStartup (probe_params rt)) u0) = (Ok (), u1)
         \<and> cin u1 = concat (map pg_frame ms1) @ pg_frame (CHR ''Z'', b1)
                      @ concat (map pg_frame ms2) @ pg_frame (CHR ''Z'', b2) @ cin c
         \<and> list_all harmless (ms1 @ ms2) \<and> cout c = cout u1 @ pg_frame (CHR ''Q'', select_1 @ [NUL]))"
proof (cases "adapter = AdapterMySQL")
  case True
  with assms obtain u c where d: "env_dial env (upstream_addr rt) = Ok u" "probe_mysql env rt u = (Ok (), c)" "co = Some (close_sock c)"
    using with_conn_OkD [of env rt "probe_mysql env rt" co] by (auto simp: probeTarget_def probeMySQL_def)
  from probe_mysql_OkD [OF d(2)] d(1,3) True show ?thesis by auto
next
  case False
  with assms obtain u c where d: "env_dial env (upstream_addr rt) = Ok u" "probe_pg env rt u = (Ok (), c)" "co = Some (close_sock c)"
    using with_conn_OkD [of env rt "probe_pg env rt" co] by (auto simp: probeTarget_def probePostgres_def)
  show ?thesis using d(3) probe_pg_OkD [OF d(2,1)] False by (intro exI [of _ c] conjI) (simp_all only: if_False)
qed

section \<open>The report\<close>

definition active :: "Server \<Rightarrow> string \<Rightarrow> bool" where
  "active s name \<longleftrightarrow> Current name (srv_store s) \<noteq> None"

text \<open>The probe after a switch reports every active database exactly once, in the order of the loop, and no
  inactive one; a result is OK exactly when the probe of that database's current target succeeded, and
  carries the error otherwise.\<close>

lemma ProbeActive_report:
  assumes "ProbeActive env order s = Ok rs"
  shows "map pr_VirtualName rs = filter (active s) order
     \<and> (\<forall>r \<in> set rs. \<exists>d rt. st_dbs (srv_store s) (pr_VirtualName r) = Some d \<and> db_current d = Some rt
          \<and> pr_Target r = rt_Name rt \<and> pr_Addr r = upstream_addr rt
          \<and> pr_OK r = (fst (probeTarget env (db_adapter d) rt) = Ok ())
          \<and> pr_Err r = (case fst (probeTarget env (db_adapter d) rt) of Err e \<Rightarrow> err_text (env_isPrint env) e | _ \<Rightarrow> []))"
  using assms
proof (induction order arbitrary: rs)
  case (Cons name order)
  show ?case
  proof (cases "Current name (srv_store s)")
    case None
    with Cons show ?thesis by (auto simp: Current_def active_def split: option.splits)
  next
    case (Some rt)
    then obtain d where d: "st_dbs (srv_store s) name = Some d" "db_current d = Some rt"
      by (auto simp: Current_def split: option.splits)
    with Cons.prems obtain r rs' where r: "probe_job env name (db_adapter d) rt = Ok r"
      and rs': "ProbeActive env order s = Ok rs'" and rs: "rs = r # rs'" by (auto simp: bindR_eq_Ok_iff)
    from r have "pr_VirtualName r = name \<and> pr_Target r = rt_Name rt \<and> pr_Addr r = upstream_addr rt
        \<and> pr_OK r = (fst (probeTarget env (db_adapter d) rt) = Ok ())
        \<and> pr_Err r = (case fst (probeTarget env (db_adapter d) rt) of Err e \<Rightarrow> err_text (env_isPrint env) e | _ \<Rightarrow> [])"
      by (auto simp: probe_job_def Let_def upstream_addr_def split: res.splits)
    with Cons.IH [OF rs'] d Some rs show ?thesis by (auto simp: active_def)
  qed
qed simp


section \<open>Examples\<close>

definition ready_upstream :: conn where
  "ready_upstream = fresh_conn (auth_msg AuthSASL (''SCRAM-SHA-256'' @ [NUL, NUL]) @ auth_msg AuthSASLContinue ''r=nonce''
     @ auth_msg AuthSASLFinal ''v=sig'' @ auth_msg AuthOk [] @ pg_frame (CHR ''Z'', ''I'') @ pg_frame (CHR ''Z'', ''I''))"

definition ready_env :: "nat env" where
  "ready_env = sample_env\<lparr>env_dial := (\<lambda>_. Ok ready_upstream)\<rparr>"

lemma pgWaitReady_Z:
  assumes "\<not> cclosed c" and "cin c = pg_frame (CHR ''Z'', b) @ rest" and "pg_valid (CHR ''Z'', b)"
  shows "pgWaitReady c = (Ok (), c\<lparr>cin := rest\<rparr>)"
  using ReadMessage_frame [OF assms(3,1,2)] by (simp add: pgWaitReady.simps [of c])

lemma ready_probe: "\<exists>co. probeTarget ready_env AdapterPostgres sample_rt = (Ok (), co)"
proof -
  let ?c = "wrote (EncodeStartup (probe_params sample_rt)) ready_upstream"
  let ?Z = "pg_frame (CHR ''Z'', ''I'')" and ?mechs = "''SCRAM-SHA-256'' @ [NUL, NUL]"
  have run: "scram_run ready_env u p ''client'' ''r=nonce'' ''client'' ''v=sig''" for u p
    using sample_scram_run [of u p] by (simp add: scram_run_def ready_env_def)
  have "\<not> cclosed ?c" "ccap ?c = None" by (simp_all add: ready_upstream_def fresh_conn_def wrote_def)
  moreover have "cin ?c = auth_msg AuthSASL ?mechs @ auth_msg AuthSASLContinue ''r=nonce''
     @ auth_msg AuthSASLFinal ''v=sig'' @ auth_msg AuthOk [] @ ?Z @ ?Z" by (simp add: ready_upstream_def fresh_conn_def)
  ultimately have "AuthenticateUpstream ready_env (rt_User sample_rt) (rt_Password sample_rt) ?c =
      (Ok (), ?c\<lparr>cin := ?Z @ ?Z, cout := cout ?c @ sasl_initial ''client'' @ sasl_response ''client''\<rparr>)" (is "_ = (_, ?c1)")
    using AuthenticateUpstream_Ok [OF run sample_upstream_login(1), of ?c "?Z @ ?Z" "rt_User sample_rt" "rt_Password sample_rt"]
    by (simp add: MaxStartupLen_def)
  moreover have v: "pg_valid (CHR ''Z'', ''I'')" by (simp add: pg_valid_def MaxStartupLen_def)
  moreover have "pgWaitReady ?c1 = (Ok (), ?c1\<lparr>cin := ?Z\<rparr>)"
    by (rule pgWaitReady_Z [OF _ _ v]) (simp_all add: ready_upstream_def fresh_conn_def)
  moreover have "WriteMessage (CHR ''Q'') (select_1 @ [NUL]) (?c1\<lparr>cin := ?Z\<rparr>) =
      (Ok (), wrote (pg_frame (CHR ''Q'', select_1 @ [NUL])) (?c1\<lparr>cin := ?Z\<rparr>))" (is "_ = (_, ?c2)")
    by (simp add: WriteMessage_Ok_iff can_write_def ready_upstream_def fresh_conn_def wrote_def select_1_def MaxStartupLen_def)
  moreover have "pgWaitReady ?c2 = (Ok (), ?c2\<lparr>cin := []\<rparr>)"
    by (rule pgWaitReady_Z [OF _ _ v]) (simp_all add: ready_upstream_def fresh_conn_def)
  moreover have "Write (EncodeStartup (probe_params sample_rt)) ready_upstream = (Ok (), ?c)"
    by (simp add: Write_Ok_iff can_write_def ready_upstream_def fresh_conn_def)
  ultimately have "probe_pg ready_env sample_rt ready_upstream = (Ok (), ?c2\<lparr>cin := []\<rparr>)"
    unfolding probe_pg_def by (simp add: sample_rt_def SSLModeRequire_def wrapIO_def)
  then show ?thesis
    by (simp add: probeTarget_def probePostgres_def with_conn_def ready_env_def AdapterPostgres_def AdapterMySQL_def)
qed


theorem probe_ok_sound_witness:
  "\<exists>c (u1 :: conn). snd (probeTarget ready_env AdapterPostgres sample_rt) = Some (close_sock c)
     \<and> cout c = cout u1 @ pg_frame (CHR ''Q'', select_1 @ [NUL])"
proof -
  obtain co where run: "probeTarget ready_env AdapterPostgres sample_rt = (Ok (), co)" using ready_probe by blast
  have pg: "AdapterPostgres \<noteq> AdapterMySQL" by (simp add: AdapterPostgres_def AdapterMySQL_def)
  from probe_ok_sound [OF run] obtain c and u1 :: conn where "co = Some (close_sock c)"
    "cout c = cout u1 @ pg_frame (CHR ''Q'', select_1 @ [NUL])" unfolding if_not_P [OF pg] by blast
  with run show ?thesis by (intro exI [of _ c] exI [of _ u1]) simp
qed

definition probe_srv :: Server where
  "probe_srv = (new_server sample_config Map.empty Map.empty)\<lparr>srv_store :=
     \<lparr>st_dbs = [''appdb'' \<mapsto> (NewDatabase (c_Databases sample_config ! 0) (c_ForwardTargets sample_config))
                  \<lparr>db_current := Some sample_rt\<rparr>], st_conns = Map.empty\<rparr>\<rparr>"

lemma probe_srv_simps:
  "st_dbs (srv_store probe_srv) ''appdb'' = Some ((NewDatabase (c_Databases sample_config ! 0) (c_ForwardTargets sample_config))
     \<lparr>db_current := Some sample_rt\<rparr>)"
  "d_Adapter (c_Databases sample_config ! 0) = AdapterPostgres"
  by (simp_all add: probe_srv_def NewDatabase_def sample_config_def AdapterPostgres_def)

lemma ProbeActive_report_example:
  "\<exists>r. ProbeActive ready_env [''appdb'', ''other''] probe_srv = Ok [r] \<and> pr_VirtualName r = ''appdb'' \<and> pr_OK r"
proof -
  obtain co where ok: "probeTarget ready_env AdapterPostgres sample_rt = (Ok (), co)" using ready_probe by blast
  have none: "st_dbs (srv_store probe_srv) ''other'' = None" by (simp add: probe_srv_def)
  have "\<exists>r. ProbeActive ready_env [''appdb'', ''other''] probe_srv = Ok [r]"
    by (simp add: probe_srv_simps none probe_job_def ok)
  then obtain r where r: "ProbeActive ready_env [''appdb'', ''other''] probe_srv = Ok [r]" ..
  from ProbeActive_report [OF r] have "pr_OK r = (fst (probeTarget ready_env AdapterPostgres sample_rt) = Ok ())"
    and "[pr_VirtualName r] = filter (active probe_srv) [''appdb'', ''other'']"
    by (auto simp: probe_srv_simps active_def Current_def none split: if_splits)
  then show ?thesis using r ok by (simp add: active_def Current_def probe_srv_simps none)
qed


end
