(* ===== verification/Json.thy ===== *)
theory Json
  imports GoFmt
begin

text \<open>
  \<open>encoding/json\<close>, as the control protocol uses it: \<open>json.Marshal\<close> and \<open>json.Unmarshal\<close> for Go values
  built from strings, booleans, integers, slices, string-keyed maps and structs. A text is parsed into
  a tree \<open>jval\<close> whose strings are unquoted, and the tree is decoded into a value of a Go type \<open>gty\<close>.
  A Go map is the list of its entries in the order of the keys, which is the order in which they are
  printed; a nil slice or map is the empty one, since every field of such a type is \<open>omitempty\<close>.
\<close>

section \<open>Strings\<close>

abbreviation backslash :: char where "backslash \<equiv> CHR 0x5C"
abbreviation quote :: char where "quote \<equiv> CHR 0x22"

text \<open>A rune below \<open>0x80\<close>. The bytes \<open><\<close>, \<open>>\<close> and \<open>&\<close> are escaped for HTML.\<close>

definition html_safe :: "nat \<Rightarrow> bool" where
  "html_safe r \<longleftrightarrow> 0x20 \<le> r \<and> r < 0x80 \<and> r \<notin> {0x22, 0x26, 0x3C, 0x3E, 0x5C}"

definition esc_ascii :: "nat \<Rightarrow> bytes" where
  "esc_ascii r =
     (if html_safe r then [char_of r]
      else if r = 0x22 \<or> r = 0x5C then [backslash, char_of r]
      else if r = 8 then [backslash, CHR ''b'']
      else if r = 12 then [backslash, CHR ''f'']
      else if r = 10 then [backslash, CHR ''n'']
      else if r = 13 then [backslash, CHR ''r'']
      else if r = 9 then [backslash, CHR ''t'']
      else [backslash, CHR ''u''] @ hex_pad 4 r)"

definition esc_rune :: "nat \<Rightarrow> bytes" where
  "esc_rune r =
     (if r < 0x80 then esc_ascii r
      else if r = 0x2028 \<or> r = 0x2029 then [backslash, CHR ''u''] @ hex_pad 4 r
      else EncodeRune r)"

function esc_body :: "string \<Rightarrow> bytes" where
  "esc_body s =
     (if s = [] then []
      else (case DecodeRune s of
              None \<Rightarrow> [backslash, CHR ''u''] @ ''fffd'' @ esc_body (drop 1 s)
            | Some (r, w) \<Rightarrow> esc_rune r @ esc_body (drop w s)))"
  by pat_completeness auto

termination esc_body
  by (relation "measure length") (auto dest: DecodeRune_width)

declare esc_body.simps [simp del]

definition appendString :: "string \<Rightarrow> bytes" where
  "appendString s = quote # esc_body s @ [quote]"

text \<open>Reading a string, from behind its opening quote: its value and what follows the closing quote.\<close>

definition hex_val :: "char \<Rightarrow> nat option" where
  "hex_val c =
     (let n = of_char c :: nat in
      if 48 \<le> n \<and> n \<le> 57 then Some (n - 48)
      else if 97 \<le> n \<and> n \<le> 102 then Some (n - 87)
      else if 65 \<le> n \<and> n \<le> 70 then Some (n - 55)
      else None)"

definition getu4 :: "bytes \<Rightarrow> nat option" where
  "getu4 s =
     (case s of
        a # b # c # d # _ \<Rightarrow>
          (case (hex_val a, hex_val b, hex_val c, hex_val d) of
             (Some a, Some b, Some c, Some d) \<Rightarrow> Some (((a * 16 + b) * 16 + c) * 16 + d)
           | _ \<Rightarrow> None)
      | _ \<Rightarrow> None)"

definition surrogate :: "nat \<Rightarrow> bool" where
  "surrogate r \<longleftrightarrow> 0xD800 \<le> r \<and> r < 0xE000"

text \<open>\<open>utf16.DecodeRune\<close> on a high surrogate and the escape that follows it.\<close>

definition low_surrogate :: "nat \<Rightarrow> bytes \<Rightarrow> nat option" where
  "low_surrogate hi s =
     (case s of
        b # u # s' \<Rightarrow>
          if b = backslash \<and> u = CHR ''u'' \<and> hi < 0xDC00 then
            (case getu4 s' of
               Some lo \<Rightarrow> if 0xDC00 \<le> lo \<and> lo < 0xE000
                          then Some ((hi - 0xD800) * 1024 + (lo - 0xDC00) + 0x10000) else None
             | None \<Rightarrow> None)
          else None
      | _ \<Rightarrow> None)"

definition simple_escape :: "char \<Rightarrow> char option" where
  "simple_escape c =
     (if c = quote \<or> c = backslash \<or> c = CHR ''/'' then Some c
      else if c = CHR ''b'' then Some (CHR 0x08)
      else if c = CHR ''f'' then Some (CHR 0x0C)
      else if c = CHR ''n'' then Some (CHR 0x0A)
      else if c = CHR ''r'' then Some (CHR 0x0D)
      else if c = CHR ''t'' then Some (CHR 0x09)
      else None)"

text \<open>One unit of a string: the bytes it stands for and its width.\<close>

definition str_unit :: "bytes \<Rightarrow> (bytes \<times> nat) option" where
  "str_unit s =
     (case s of
        [] \<Rightarrow> None
      | c # s' \<Rightarrow>
          if c = backslash then
            (case s' of
               [] \<Rightarrow> None
             | e # s'' \<Rightarrow>
                 if e = CHR ''u'' then
                   (case getu4 s'' of
                      None \<Rightarrow> None
                    | Some r \<Rightarrow>
                        if \<not> surrogate r then Some (EncodeRune r, 6)
                        else (case low_surrogate r (drop 4 s'') of
                                Some r' \<Rightarrow> Some (EncodeRune r', 12)
                              | None \<Rightarrow> Some (EncodeRune 0xFFFD, 6)))
                 else map_option (\<lambda>x. ([x], 2)) (simple_escape e))
          else if of_char c < (0x20 :: nat) \<or> c = quote then None
          else (case DecodeRune s of
                  None \<Rightarrow> Some (EncodeRune 0xFFFD, 1)
                | Some (r, w) \<Rightarrow> Some (EncodeRune r, w)))"

lemma str_unit_width: "str_unit s = Some (x, w) \<Longrightarrow> 0 < w"
  by (auto simp: str_unit_def dest: DecodeRune_width split: list.splits if_splits option.splits)

function str_body :: "bytes \<Rightarrow> (string \<times> bytes) option" where
  "str_body s =
     (if s \<noteq> [] \<and> hd s = quote then Some ([], tl s)
      else if s = [] then None
      else (case str_unit s of
              None \<Rightarrow> None
            | Some (x, w) \<Rightarrow> (case str_body (drop w s) of None \<Rightarrow> None | Some (y, r) \<Rightarrow> Some (x @ y, r))))"
  by pat_completeness auto

termination str_body
  by (relation "measure length") (auto dest: str_unit_width)

declare str_body.simps [simp del]

lemma str_body_shorter: "str_body s = Some (x, r) \<Longrightarrow> length r < length s"
proof (induction s arbitrary: x r rule: str_body.induct)
  case (1 s)
  show ?case
  proof (cases "s \<noteq> [] \<and> hd s = quote")
    case True
    then have "str_body s = Some ([], tl s)" by (subst str_body.simps) simp
    with "1.prems" True show ?thesis by (cases s) auto
  next
    case False
    with "1.prems" obtain u w y where u: "str_unit s = Some (u, w)" and y: "str_body (drop w s) = Some (y, r)" and s: "s \<noteq> []"
      by (auto simp: str_body.simps [of s] split: if_splits option.splits)
    from "1.IH" [OF False s u refl y] str_unit_width [OF u] show ?thesis by simp
  qed
qed


section \<open>Strings come back\<close>

lemma hex_val_hex_digit: "d < 16 \<Longrightarrow> hex_val (hex_digit d) = Some d"
  by (auto simp: hex_val_def hex_digit_def Let_def)

lemma getu4_hex_pad:
  assumes "r < 0x10000"
  shows "getu4 (hex_pad 4 r @ t) = Some r"
proof -
  have four: "(4 :: nat) = Suc (Suc (Suc (Suc 0)))" by simp
  have "hex_pad 4 r = [hex_digit (r div 16 div 16 div 16 mod 16), hex_digit (r div 16 div 16 mod 16),
      hex_digit (r div 16 mod 16), hex_digit (r mod 16)]" unfolding four by simp
  moreover have "r div 16 div 16 div 16 < 16" using assms by (simp flip: div_mult2_eq)
  then have "((r div 16 div 16 div 16 mod 16 * 16 + r div 16 div 16 mod 16) * 16 + r div 16 mod 16) * 16 + r mod 16 = r"
    by simp
  ultimately show ?thesis by (simp add: getu4_def hex_val_hex_digit)
qed

lemma str_body_quote: "str_body (quote # t) = Some ([], t)"
  by (subst str_body.simps) simp

lemma str_body_unit:
  assumes "u \<noteq> []" and "hd u \<noteq> quote" and "str_unit (u @ t) = Some (x, length u)" and "str_body t = Some (y, r)"
  shows "str_body (u @ t) = Some (x @ y, r)"
  using assms by (subst str_body.simps) simp

lemma str_unit_u:
  assumes "r < 0x10000" and "\<not> surrogate r"
  shows "str_unit (([backslash, CHR ''u''] @ hex_pad 4 r) @ t) = Some (EncodeRune r, length ([backslash, CHR ''u''] @ hex_pad 4 r))"
proof -
  have "length (hex_pad k n) = k" for k n by (induction k arbitrary: n) simp_all
  then show ?thesis using getu4_hex_pad [OF assms(1)] assms(2) by (simp add: str_unit_def)
qed

lemma EncodeRune_hd:
  assumes "valid_rune r" and "0x80 \<le> r"
  shows "0xC0 \<le> (of_char (hd (EncodeRune r)) :: nat)"
proof -
  consider "r < 0x800" | "0x800 \<le> r" "r < 0x10000" | "0x10000 \<le> r" by linarith
  then show ?thesis
  proof cases
    case 1
    then have "r div 64 < 32" by simp
    with 1 assms(2) show ?thesis by (simp add: EncodeRune_def)
  next
    case 2
    then have "r div 4096 < 16" by simp
    with 2 show ?thesis by (simp add: EncodeRune_def)
  next
    case 3
    have "r div 262144 < 5" using assms(1) by (auto simp: valid_rune_def)
    with 3 show ?thesis by (simp add: EncodeRune_def)
  qed
qed

lemma EncodeRune_nonempty [simp]: "EncodeRune r \<noteq> []"
  by (simp add: EncodeRune_def)

lemma str_unit_EncodeRune:
  assumes "valid_rune r" and "0x20 \<le> r" and "r \<noteq> 0x22" and "r \<noteq> 0x5C"
  shows "str_unit (EncodeRune r @ t) = Some (EncodeRune r, length (EncodeRune r))" and "hd (EncodeRune r) \<noteq> quote"
proof -
  obtain c u where c: "EncodeRune r = c # u" by (cases "EncodeRune r") simp_all
  have n: "0x20 \<le> (of_char c :: nat) \<and> of_char c \<noteq> (0x22 :: nat) \<and> of_char c \<noteq> (0x5C :: nat)"
  proof (cases "r < 0x80")
    case True
    then have "c = char_of r" using c by (simp add: EncodeRune_def)
    with True assms(2-4) show ?thesis by simp
  next
    case False
    then have "0xC0 \<le> (of_char c :: nat)" using EncodeRune_hd [OF assms(1)] c by simp
    then show ?thesis by simp
  qed
  then have "c \<noteq> quote" "c \<noteq> backslash" by auto
  with n DecodeRune_EncodeRune [OF assms(1), of t] c show "str_unit (EncodeRune r @ t) = Some (EncodeRune r, length (EncodeRune r))"
    and "hd (EncodeRune r) \<noteq> quote" by (simp_all add: str_unit_def)
qed

lemma str_unit_simple:
  assumes "simple_escape e = Some x"
  shows "str_unit ([backslash, e] @ t) = Some ([x], 2)"
  using assms by (auto simp: str_unit_def simple_escape_def)

lemma control_chars:
  "char_of (0x22 :: nat) = quote" "char_of (0x5C :: nat) = backslash" "char_of (8 :: nat) = CHR 0x08" "char_of (9 :: nat) = CHR 0x09"
  "char_of (10 :: nat) = CHR 0x0A" "char_of (12 :: nat) = CHR 0x0C" "char_of (13 :: nat) = CHR 0x0D"
  by code_simp+

lemma str_unit_esc_rune:
  assumes "valid_rune r"
  shows "str_unit (esc_rune r @ t) = Some (EncodeRune r, length (esc_rune r)) \<and> hd (esc_rune r) \<noteq> quote \<and> esc_rune r \<noteq> []"
proof -
  have u: ?thesis if "esc_rune r = [backslash, CHR ''u''] @ hex_pad 4 r" "r < 0x10000"
  proof -
    have "\<not> surrogate r" using assms by (auto simp: valid_rune_def surrogate_def)
    from str_unit_u [OF that(2) this, of t] that(1) show ?thesis by simp
  qed
  have e: ?thesis if "esc_rune r = EncodeRune r" "0x20 \<le> r" "r \<noteq> 0x22" "r \<noteq> 0x5C"
    using str_unit_EncodeRune(1) [OF assms that(2-4), of t] str_unit_EncodeRune(2) [OF assms that(2-4)] that(1) by simp
  have s: ?thesis if "esc_rune r = [backslash, c]" "simple_escape c = Some x" "r < 0x80" "x = char_of r" for c x
    using str_unit_simple [OF that(2), of t] that by (simp add: EncodeRune_def)
  consider "0x80 \<le> r" "r \<noteq> 0x2028" "r \<noteq> 0x2029" | "r = 0x2028 \<or> r = 0x2029" | "html_safe r" | "r = 0x22" | "r = 0x5C"
    | "r = 8" | "r = 12" | "r = 10" | "r = 13" | "r = 9"
    | "r < 0x80" "\<not> html_safe r" "r \<notin> {0x22, 0x5C, 8, 12, 10, 13, 9}"
    by (cases "r < 0x80"; cases "html_safe r"; simp) blast+
  then show ?thesis
  proof cases
    case 1 then show ?thesis by (intro e) (simp_all add: esc_rune_def)
  next
    case 2 then show ?thesis by (intro u) (auto simp: esc_rune_def)
  next
    case 3 then show ?thesis by (intro e) (auto simp: html_safe_def esc_rune_def esc_ascii_def EncodeRune_def)
  next
    case 4 then show ?thesis by (intro s [of "quote"]) (simp_all add: esc_rune_def esc_ascii_def html_safe_def simple_escape_def control_chars)
  next
    case 5 then show ?thesis by (intro s [of "backslash"]) (simp_all add: esc_rune_def esc_ascii_def html_safe_def simple_escape_def control_chars)
  next
    case 6 then show ?thesis by (intro s [of "CHR ''b''"]) (simp_all add: esc_rune_def esc_ascii_def html_safe_def simple_escape_def control_chars)
  next
    case 7 then show ?thesis by (intro s [of "CHR ''f''"]) (simp_all add: esc_rune_def esc_ascii_def html_safe_def simple_escape_def control_chars)
  next
    case 8 then show ?thesis by (intro s [of "CHR ''n''"]) (simp_all add: esc_rune_def esc_ascii_def html_safe_def simple_escape_def control_chars)
  next
    case 9 then show ?thesis by (intro s [of "CHR ''r''"]) (simp_all add: esc_rune_def esc_ascii_def html_safe_def simple_escape_def control_chars)
  next
    case 10 then show ?thesis by (intro s [of "CHR ''t''"]) (simp_all add: esc_rune_def esc_ascii_def html_safe_def simple_escape_def control_chars)
  next
    case 11 then show ?thesis by (intro u) (auto simp: esc_rune_def esc_ascii_def)
  qed
qed

lemma str_body_esc: "str_body (esc_body s @ quote # rest) = Some (to_valid s, rest)"
proof (induction s rule: esc_body.induct)
  case (1 s)
  show ?case
  proof (cases "s = []")
    case True
    then show ?thesis by (simp add: esc_body.simps to_valid.simps str_body_quote)
  next
    case False
    show ?thesis
    proof (cases "DecodeRune s")
      case None
      have u: "str_unit (([backslash, CHR ''u''] @ ''fffd'') @ esc_body (drop 1 s) @ quote # rest)
          = Some (EncodeRune 0xFFFD, length ([backslash, CHR ''u''] @ ''fffd''))"
        by (simp add: str_unit_def getu4_def hex_val_def surrogate_def)
      from str_body_unit [OF _ _ u "1.IH"(1) [OF False None]] None False show ?thesis
        by (simp add: esc_body.simps [of s] to_valid.simps [of s])
    next
      case (Some rw)
      then obtain r w where rw: "DecodeRune s = Some (r, w)" by (cases rw) simp
      have v: "valid_rune r" using DecodeRune_SomeD(1) [OF rw False] .
      note u = str_unit_esc_rune [OF v, of "esc_body (drop w s) @ quote # rest"]
      from str_body_unit [OF _ _ _ "1.IH"(2) [OF False rw refl], of "esc_rune r" "EncodeRune r"] u rw False show ?thesis
        by (simp add: esc_body.simps [of s] to_valid.simps [of s])
    qed
  qed
qed


section \<open>Numbers\<close>

definition is_digit :: "char \<Rightarrow> bool" where
  "is_digit c \<longleftrightarrow> CHR ''0'' \<le> c \<and> c \<le> CHR ''9''"

definition int_part :: "bytes \<Rightarrow> (bytes \<times> bytes) option" where
  "int_part s =
     (case s of
        [] \<Rightarrow> None
      | c # t \<Rightarrow>
          if c = CHR ''0'' then Some ([c], t)
          else if is_digit c then Some (takeWhile is_digit s, dropWhile is_digit s)
          else None)"

definition digits1 :: "bytes \<Rightarrow> (bytes \<times> bytes) option" where
  "digits1 s = (case takeWhile is_digit s of [] \<Rightarrow> None | ds \<Rightarrow> Some (ds, dropWhile is_digit s))"

definition frac_part :: "bytes \<Rightarrow> (bytes \<times> bytes) option" where
  "frac_part s =
     (case s of
        [] \<Rightarrow> Some ([], s)
      | c # t \<Rightarrow> if c = CHR ''.'' then map_option (\<lambda>(ds, r). (c # ds, r)) (digits1 t) else Some ([], s))"

definition exp_part :: "bytes \<Rightarrow> (bytes \<times> bytes) option" where
  "exp_part s =
     (case s of
        [] \<Rightarrow> Some ([], s)
      | c # t \<Rightarrow>
          if c = CHR ''e'' \<or> c = CHR ''E'' then
            (case t of
               [] \<Rightarrow> None
             | g # t' \<Rightarrow>
                 if g = CHR ''+'' \<or> g = CHR ''-'' then map_option (\<lambda>(ds, r). (c # g # ds, r)) (digits1 t')
                 else map_option (\<lambda>(ds, r). (c # ds, r)) (digits1 t))
          else Some ([], s))"

text \<open>A number literal at the start of a text, and what follows it.\<close>

definition number :: "bytes \<Rightarrow> (string \<times> bytes) option" where
  "number s =
     (let (sg, s0) = (if s \<noteq> [] \<and> hd s = CHR ''-'' then ([hd s], tl s) else ([], s)) in
      case int_part s0 of
        None \<Rightarrow> None
      | Some (i, s1) \<Rightarrow>
          (case frac_part s1 of
             None \<Rightarrow> None
           | Some (f, s2) \<Rightarrow>
               (case exp_part s2 of None \<Rightarrow> None | Some (e, s3) \<Rightarrow> Some (sg @ i @ f @ e, s3))))"

text \<open>\<open>strconv.ParseInt(s, 10, 64)\<close>.\<close>

definition digits_val :: "bytes \<Rightarrow> nat" where
  "digits_val ds = foldl (\<lambda>a c. a * 10 + (of_char c - 48)) 0 ds"

definition ParseInt :: "string \<Rightarrow> int option" where
  "ParseInt s =
     (let neg = (s \<noteq> [] \<and> hd s = CHR ''-''); ds = (if neg then tl s else s);
          i = (if neg then - int (digits_val ds) else int (digits_val ds)) in
      if ds = [] \<or> \<not> list_all is_digit ds \<or> i < - (2 ^ 63) \<or> 2 ^ 63 \<le> i then None else Some i)"

lemma digits1_rest: "digits1 s = Some (ds, r) \<Longrightarrow> length r \<le> length s"
  by (auto simp: digits1_def length_dropWhile_le split: list.splits)

lemma number_shorter: "number s = Some (l, r) \<Longrightarrow> length r < length s"
proof -
  have i: "length r < length s" if "int_part s = Some (x, r)" for s x r
    using that length_dropWhile_le [of is_digit "tl s"] by (auto simp: int_part_def split: list.splits if_splits)
  have f: "length r \<le> length s" if "frac_part s = Some (x, r)" for s x r
    using that by (auto simp: frac_part_def dest!: digits1_rest split: list.splits if_splits)
  have e: "length r \<le> length s" if "exp_part s = Some (x, r)" for s x r
    using that by (auto simp: exp_part_def dest!: digits1_rest split: list.splits if_splits)
  assume "number s = Some (l, r)"
  then show ?thesis
    by (cases s) (auto simp: number_def dest!: i f e split: if_splits option.splits prod.splits)
qed

section \<open>Parsing\<close>

datatype jval =
    JNull
  | JBool bool
  | JNum string
  | JStr string
  | JArr "jval list"
  | JObj "(string \<times> jval) list"

definition skip_ws :: "bytes \<Rightarrow> bytes" where
  "skip_ws s = dropWhile (\<lambda>c. c \<in> set [CHR 0x20, CHR 0x09, CHR 0x0D, CHR 0x0A]) s"

definition literal :: "string \<Rightarrow> jval \<Rightarrow> bytes \<Rightarrow> (jval \<times> bytes) option" where
  "literal w v s = (if take (length w) s = w then Some (v, drop (length w) s) else None)"

definition maxNestingDepth :: nat where "maxNestingDepth = 10000"

text \<open>A value that is not nested.\<close>

definition p_scalar :: "bytes \<Rightarrow> (jval \<times> bytes) option" where
  "p_scalar s =
     (case s of
        [] \<Rightarrow> None
      | c # t \<Rightarrow>
          if c = quote then map_option (\<lambda>(x, r). (JStr x, r)) (str_body t)
          else if c = CHR ''t'' then literal ''true'' (JBool True) s
          else if c = CHR ''f'' then literal ''false'' (JBool False) s
          else if c = CHR ''n'' then literal ''null'' JNull s
          else map_option (\<lambda>(x, r). (JNum x, r)) (number s))"

function p_value :: "nat \<Rightarrow> bytes \<Rightarrow> (jval \<times> bytes) option"
and p_elems :: "nat \<Rightarrow> bytes \<Rightarrow> jval list \<Rightarrow> (jval \<times> bytes) option"
and p_members :: "nat \<Rightarrow> bytes \<Rightarrow> (string \<times> jval) list \<Rightarrow> (jval \<times> bytes) option"
where
  "p_value d s =
     (case skip_ws s of
        [] \<Rightarrow> None
      | c # t \<Rightarrow>
          if c = CHR ''{'' then
            if d \<ge> maxNestingDepth then None
            else (case skip_ws t of
                    [] \<Rightarrow> None
                  | c' # r \<Rightarrow> if c' = CHR ''}'' then Some (JObj [], r) else p_members (d + 1) t [])
          else if c = CHR ''['' then
            if d \<ge> maxNestingDepth then None
            else (case skip_ws t of
                    [] \<Rightarrow> None
                  | c' # r \<Rightarrow> if c' = CHR '']'' then Some (JArr [], r) else p_elems (d + 1) t [])
          else p_scalar (c # t))"
| "p_elems d s acc =
     (case p_value d s of
        None \<Rightarrow> None
      | Some (v, t) \<Rightarrow>
          (case skip_ws t of
             [] \<Rightarrow> None
           | c # r \<Rightarrow>
               if c = CHR '','' then p_elems d r (acc @ [v])
               else if c = CHR '']'' then Some (JArr (acc @ [v]), r)
               else None))"
| "p_members d s acc =
     (case skip_ws s of
        [] \<Rightarrow> None
      | q # s1 \<Rightarrow>
          if q \<noteq> quote then None
          else (case str_body s1 of
                  None \<Rightarrow> None
                | Some (k, s2) \<Rightarrow>
                    (case skip_ws s2 of
                       [] \<Rightarrow> None
                     | c # s3 \<Rightarrow>
                         if c \<noteq> CHR '':'' then None
                         else (case p_value d s3 of
                                 None \<Rightarrow> None
                               | Some (v, t) \<Rightarrow>
                                   (case skip_ws t of
                                      [] \<Rightarrow> None
                                    | c # r \<Rightarrow>
                                        if c = CHR '','' then p_members d r (acc @ [(k, v)])
                                        else if c = CHR ''}'' then Some (JObj (acc @ [(k, v)]), r)
                                        else None)))))"
  by pat_completeness auto

lemma skip_ws_length: "skip_ws s = c # t \<Longrightarrow> length t < length s"
  using length_dropWhile_le [of _ s] by (metis Suc_le_eq length_Cons skip_ws_def)

lemma p_scalar_shorter: "p_scalar s = Some (v, r) \<Longrightarrow> length r < length s"
  by (auto simp: p_scalar_def literal_def dest: str_body_shorter number_shorter split: list.splits if_splits)

text \<open>What is left after a value is shorter; this is what the termination proof needs.\<close>

lemma p_shorter:
  shows "p_value_p_elems_p_members_dom (Inl (d, s)) \<Longrightarrow> p_value d s = Some (v, r) \<Longrightarrow> length r < length s"
    and "p_value_p_elems_p_members_dom (Inr (Inl (d', s', acc'))) \<Longrightarrow> p_elems d' s' acc' = Some (v, r) \<Longrightarrow> length r < length s'"
    and "p_value_p_elems_p_members_dom (Inr (Inr (d'', s'', acc''))) \<Longrightarrow> p_members d'' s'' acc'' = Some (v, r) \<Longrightarrow> length r < length s''"
proof (induction d s and d' s' acc' and d'' s'' acc'' arbitrary: v r and v r and v r rule: p_value_p_elems_p_members.pinduct)
  case (1 d s)
  then show ?case
    by (fastforce simp: p_value.psimps dest: p_scalar_shorter skip_ws_length split: list.splits if_splits)
next
  case (2 d s acc)
  then show ?case
    by (fastforce simp: p_elems.psimps dest: skip_ws_length split: list.splits if_splits option.splits)
next
  case (3 d s acc)
  then show ?case
    by (fastforce simp: p_members.psimps dest: skip_ws_length str_body_shorter split: list.splits if_splits option.splits)
qed


termination p_value
proof (relation "measure (\<lambda>x. case x of
    Inl (d, s) \<Rightarrow> 2 * length s
  | Inr (Inl (d, s, acc)) \<Rightarrow> 2 * length s + 1
  | Inr (Inr (d, s, acc)) \<Rightarrow> 2 * length s + 1)", goal_cases)
qed (auto dest!: skip_ws_length str_body_shorter p_shorter(1))

declare p_value.simps [simp del] p_elems.simps [simp del] p_members.simps [simp del]

text \<open>The whole input has to be one value.\<close>

definition parse_json :: "bytes \<Rightarrow> jval option" where
  "parse_json s = (case p_value 0 s of Some (v, r) \<Rightarrow> if skip_ws r = [] then Some v else None | None \<Rightarrow> None)"

section \<open>Printing\<close>

text \<open>A printer is given what it writes before an element at a depth and after a colon: nothing for
  \<open>json.Marshal\<close>, a line break and a space for the indented output of an \<open>Encoder\<close>.\<close>

fun print_with :: "(nat \<Rightarrow> bytes) \<Rightarrow> bytes \<Rightarrow> nat \<Rightarrow> jval \<Rightarrow> bytes"
and print_elems :: "(nat \<Rightarrow> bytes) \<Rightarrow> bytes \<Rightarrow> nat \<Rightarrow> jval list \<Rightarrow> bytes"
and print_members :: "(nat \<Rightarrow> bytes) \<Rightarrow> bytes \<Rightarrow> nat \<Rightarrow> (string \<times> jval) list \<Rightarrow> bytes"
where
  "print_with nl sp d JNull = ''null''"
| "print_with nl sp d (JBool b) = (if b then ''true'' else ''false'')"
| "print_with nl sp d (JNum l) = l"
| "print_with nl sp d (JStr s) = appendString s"
| "print_with nl sp d (JArr vs) =
     CHR ''['' # (if vs = [] then [] else nl (d + 1) @ print_elems nl sp (d + 1) vs @ nl d) @ '']''"
| "print_with nl sp d (JObj kvs) =
     CHR ''{'' # (if kvs = [] then [] else nl (d + 1) @ print_members nl sp (d + 1) kvs @ nl d) @ ''}''"
| "print_elems nl sp d [] = []"
| "print_elems nl sp d (v # vs) =
     print_with nl sp d v @ (if vs = [] then [] else CHR '','' # nl d @ print_elems nl sp d vs)"
| "print_members nl sp d [] = []"
| "print_members nl sp d ((k, v) # kvs) =
     appendString k @ CHR '':'' # sp @ print_with nl sp d v
       @ (if kvs = [] then [] else CHR '','' # nl d @ print_members nl sp d kvs)"

definition print_json :: "jval \<Rightarrow> bytes" where
  "print_json v = print_with (\<lambda>_. []) [] 0 v"

text \<open>What \<open>parse_json\<close> returns for it: every string made valid UTF-8.\<close>

fun clean_json :: "jval \<Rightarrow> jval" and clean_elems :: "jval list \<Rightarrow> jval list" and clean_members :: "(string \<times> jval) list \<Rightarrow> (string \<times> jval) list" where
  "clean_json (JStr s) = JStr (to_valid s)"
| "clean_json (JArr vs) = JArr (clean_elems vs)"
| "clean_json (JObj kvs) = JObj (clean_members kvs)"
| "clean_json v = v"
| "clean_elems [] = []"
| "clean_elems (v # vs) = clean_json v # clean_elems vs"
| "clean_members [] = []"
| "clean_members ((k, v) # kvs) = (to_valid k, clean_json v) # clean_members kvs"

text \<open>A tree whose numbers are the integers that \<open>json.Marshal\<close> writes and whose nesting stays within a
  depth.\<close>

fun printable :: "nat \<Rightarrow> jval \<Rightarrow> bool" and printable_elems :: "nat \<Rightarrow> jval list \<Rightarrow> bool" and printable_members :: "nat \<Rightarrow> (string \<times> jval) list \<Rightarrow> bool" where
  "printable d (JNum l) \<longleftrightarrow> (\<exists>i. l = Itoa i)"
| "printable d (JArr vs) \<longleftrightarrow> 0 < d \<and> printable_elems (d - 1) vs"
| "printable d (JObj kvs) \<longleftrightarrow> 0 < d \<and> printable_members (d - 1) kvs"
| "printable d _ \<longleftrightarrow> True"
| "printable_elems d [] \<longleftrightarrow> True"
| "printable_elems d (v # vs) \<longleftrightarrow> printable d v \<and> printable_elems d vs"
| "printable_members d [] \<longleftrightarrow> True"
| "printable_members d ((k, v) # kvs) \<longleftrightarrow> printable d v \<and> printable_members d kvs"

section \<open>Numbers come back\<close>

lemma is_digit_digit_char: "d < 10 \<Longrightarrow> is_digit (digit_char d)"
  by (simp add: is_digit_def digit_char_def less_eq_char_def)

lemma nat_itoa_digits: "list_all is_digit (nat_itoa n)"
proof (induction n rule: nat_itoa.induct)
  case (1 n)
  then show ?case by (subst nat_itoa.simps) (simp add: is_digit_digit_char)
qed

lemma nat_itoa_nonempty [simp]: "nat_itoa n \<noteq> []"
  by (subst nat_itoa.simps) simp

lemma nat_itoa_sign [simp]: "hd (nat_itoa n) \<noteq> CHR ''-''"
proof -
  have "is_digit (hd (nat_itoa n))" using nat_itoa_digits [of n] by (cases "nat_itoa n") auto
  then show ?thesis by (auto simp: is_digit_def less_eq_char_def)
qed

lemma nat_itoa_hd: "0 < n \<Longrightarrow> hd (nat_itoa n) \<noteq> CHR ''0''"
proof (induction n rule: nat_itoa.induct)
  case (1 n)
  show ?case
  proof (cases "n < 10")
    case True
    have "of_char (digit_char n) = (48 + n :: nat)" using True by (simp add: digit_char_def)
    moreover have "of_char (CHR ''0'') = (48 :: nat)" by simp
    ultimately have "digit_char n \<noteq> CHR ''0''" using 1(2) by (metis add_cancel_right_right less_numeral_extra(3))
    then show ?thesis using True by (subst nat_itoa.simps) simp
  next
    case False
    then show ?thesis using 1(1) by (subst nat_itoa.simps) simp
  qed
qed

lemma digits_val_nat_itoa: "digits_val (nat_itoa n) = n"
proof (induction n rule: nat_itoa.induct)
  case (1 n)
  have d: "of_char (digit_char d) - 48 = d" if "d < 10" for d using that by (simp add: digit_char_def)
  show ?case
  proof (cases "n < 10")
    case True
    then show ?thesis using d [of n] by (subst nat_itoa.simps) (simp add: digits_val_def)
  next
    case False
    then show ?thesis using 1 d [of "n mod 10"] by (subst nat_itoa.simps) (simp add: digits_val_def)
  qed
qed

lemma ParseInt_Itoa:
  assumes "- (2 ^ 63) \<le> i" and "i < 2 ^ 63"
  shows "ParseInt (Itoa i) = Some i"
proof (cases "i < 0")
  case True
  then have "int (nat (- i)) = - i" by simp
  with True assms nat_itoa_digits show ?thesis by (simp add: ParseInt_def Itoa_def digits_val_nat_itoa Let_def)
next
  case False
  then have "nat i < 9223372036854775808" using assms(2) by simp
  with False assms nat_itoa_digits show ?thesis by (simp add: ParseInt_def Itoa_def digits_val_nat_itoa Let_def)
qed

definition ends_number :: "bytes \<Rightarrow> bool" where
  "ends_number t \<longleftrightarrow> t = [] \<or> (\<not> is_digit (hd t) \<and> hd t \<noteq> CHR ''.'' \<and> hd t \<noteq> CHR ''e'' \<and> hd t \<noteq> CHR ''E'')"

lemma number_Itoa:
  assumes "ends_number t"
  shows "number (Itoa i @ t) = Some (Itoa i, t)"
proof -
  have f: "frac_part t = Some ([], t)" "exp_part t = Some ([], t)"
    using assms by (auto simp: ends_number_def frac_part_def exp_part_def split: list.splits)
  have i: "int_part (nat_itoa n @ t) = Some (nat_itoa n, t)" for n
  proof (cases "n = 0")
    case True
    have "nat_itoa 0 = ''0''" by code_simp
    then show ?thesis using True by (simp add: int_part_def)
  next
    case False
    then obtain c ds where c: "nat_itoa n = c # ds" "c \<noteq> CHR ''0''" using nat_itoa_hd [of n] by (cases "nat_itoa n") auto
    have d: "is_digit c" "list_all is_digit ds" using nat_itoa_digits [of n] c by auto
    have "takeWhile is_digit (ds @ t) = ds" "dropWhile is_digit (ds @ t) = t"
      using d(2) assms by (auto simp: takeWhile_append dropWhile_append list_all_iff ends_number_def takeWhile_eq_Nil_iff
          dropWhile_eq_self_iff)
    then show ?thesis using c d(1) by (simp add: int_part_def)
  qed
  then show ?thesis using f by (simp add: number_def Itoa_def)
qed


section \<open>A printed tree is parsed back\<close>

definition starts_value :: "bytes \<Rightarrow> bool" where
  "starts_value s \<longleftrightarrow> s \<noteq> [] \<and> hd s \<notin> {CHR 0x20, CHR 0x09, CHR 0x0D, CHR 0x0A, CHR '']'', CHR ''}''}"

lemma Itoa_start: "\<exists>c ds. Itoa i = c # ds \<and> (is_digit c \<or> c = CHR ''-'')"
proof -
  have n: "\<exists>c ds. nat_itoa n = c # ds \<and> is_digit c" for n using nat_itoa_digits [of n] by (cases "nat_itoa n") auto
  show ?thesis using n [of "nat i"] by (cases "i < 0") (auto simp: Itoa_def)
qed

lemma print_json_starts: "printable d v \<Longrightarrow> starts_value (print_with nl sp k v @ t)"
proof (cases v)
  case (JNum l)
  assume "printable d v"
  then obtain i where "l = Itoa i" using JNum by auto
  with Itoa_start [of i] JNum show ?thesis by (auto simp: starts_value_def is_digit_def less_eq_char_def)
qed (auto simp: starts_value_def appendString_def)

lemma skip_ws_starts: "starts_value s \<Longrightarrow> skip_ws s = s"
  by (cases s) (auto simp: starts_value_def skip_ws_def)

lemma skip_ws_sep [simp]:
  "skip_ws (CHR '','' # t) = CHR '','' # t" "skip_ws (CHR '']'' # t) = CHR '']'' # t" "skip_ws (CHR ''}'' # t) = CHR ''}'' # t"
  "skip_ws (CHR '':'' # t) = CHR '':'' # t" "skip_ws (quote # t) = quote # t" "skip_ws [] = []"
  by (simp_all add: skip_ws_def)

lemma ends_number_sep [simp]:
  "ends_number (CHR '','' # t)" "ends_number (CHR '']'' # t)" "ends_number (CHR ''}'' # t)" "ends_number []"
  "ends_number (CHR 0x0A # t)"
  by (simp_all add: ends_number_def is_digit_def less_eq_char_def)

lemma p_value_scalar:
  assumes "starts_value s" and "hd s \<noteq> CHR ''{''" and "hd s \<noteq> CHR ''[''"
  shows "p_value d s = p_scalar s"
  using assms skip_ws_starts [OF assms(1)] by (subst p_value.simps) (auto simp: starts_value_def split: list.split)

lemma p_scalar_print:
  "p_scalar (''null'' @ t) = Some (JNull, t)" "p_scalar (''true'' @ t) = Some (JBool True, t)"
  "p_scalar (''false'' @ t) = Some (JBool False, t)" "p_scalar (appendString s @ t) = Some (JStr (to_valid s), t)"
  "ends_number t \<Longrightarrow> p_scalar (Itoa i @ t) = Some (JNum (Itoa i), t)"
proof -
  show "p_scalar (Itoa i @ t) = Some (JNum (Itoa i), t)" if "ends_number t"
  proof -
    obtain c ds where c: "Itoa i = c # ds" "is_digit c \<or> c = CHR ''-''" using Itoa_start by blast
    have "c \<noteq> quote" "c \<noteq> CHR ''t''" "c \<noteq> CHR ''f''" "c \<noteq> CHR ''n''"
      using c(2) by (auto simp: is_digit_def less_eq_char_def)
    then show ?thesis using number_Itoa [OF that, of i] c(1) by (simp add: p_scalar_def)
  qed
qed (simp_all add: p_scalar_def literal_def appendString_def str_body_esc)

text \<open>White space between tokens does not matter.\<close>

definition blank :: "bytes \<Rightarrow> bool" where
  "blank w \<longleftrightarrow> list_all (\<lambda>c. c \<in> set [CHR 0x20, CHR 0x09, CHR 0x0D, CHR 0x0A]) w"

lemma blank_Nil [simp]: "blank []"
  by (simp add: blank_def)

lemma skip_ws_blank [simp]: "blank w \<Longrightarrow> skip_ws (w @ s) = skip_ws s"
  by (auto simp: blank_def skip_ws_def list_all_iff intro!: dropWhile_append2)

lemma p_blank [simp]:
  assumes "blank w"
  shows "p_value d (w @ s) = p_value d s" and "p_elems d (w @ s) acc = p_elems d s acc" and "p_members d (w @ s) acc' = p_members d s acc'"
proof -
  show v: "p_value d (w @ s) = p_value d s" using assms by (simp add: p_value.simps [of d "w @ s"] p_value.simps [of d s])
  show "p_elems d (w @ s) acc = p_elems d s acc" by (simp add: p_elems.simps [of d "w @ s"] p_elems.simps [of d s] v)
  show "p_members d (w @ s) acc' = p_members d s acc'" using assms by (simp add: p_members.simps [of d "w @ s"] p_members.simps [of d s])
qed

lemma ends_number_blank: "blank w \<Longrightarrow> ends_number s \<Longrightarrow> ends_number (w @ s)"
  by (cases w) (auto simp: blank_def ends_number_def is_digit_def less_eq_char_def)

lemma p_value_open:
  assumes "d < maxNestingDepth" and "skip_ws s = c # r"
  shows "c \<noteq> CHR '']'' \<Longrightarrow> p_value d (CHR ''['' # s) = p_elems (Suc d) s []"
    and "c \<noteq> CHR ''}'' \<Longrightarrow> p_value d (CHR ''{'' # s) = p_members (Suc d) s []"
proof -
  have "skip_ws (CHR ''['' # s) = CHR ''['' # s" "skip_ws (CHR ''{'' # s) = CHR ''{'' # s" by (simp_all add: skip_ws_def)
  then show "c \<noteq> CHR '']'' \<Longrightarrow> p_value d (CHR ''['' # s) = p_elems (Suc d) s []"
    and "c \<noteq> CHR ''}'' \<Longrightarrow> p_value d (CHR ''{'' # s) = p_members (Suc d) s []"
    using assms by (simp_all add: p_value.simps [of d "_ # s"])
qed

lemma p_print:
  assumes nl: "\<And>d. blank (nl d)" and sp: "blank sp"
  shows "printable (maxNestingDepth - d) v \<Longrightarrow> ends_number t \<Longrightarrow> p_value d (print_with nl sp k v @ t) = Some (clean_json v, t)"
    and "vs \<noteq> [] \<Longrightarrow> printable_elems (maxNestingDepth - d) vs \<Longrightarrow> blank w \<Longrightarrow>
      p_elems d (print_elems nl sp k vs @ w @ CHR '']'' # t) acc = Some (JArr (acc @ clean_elems vs), t)"
    and "kvs \<noteq> [] \<Longrightarrow> printable_members (maxNestingDepth - d) kvs \<Longrightarrow> blank w \<Longrightarrow>
      p_members d (print_members nl sp k kvs @ w @ CHR ''}'' # t) acc' = Some (JObj (acc' @ clean_members kvs), t)"
  using assms
proof (induction nl sp k v and nl sp k vs and nl sp k kvs arbitrary: d t and d t acc w and d t acc' w
    rule: print_with_print_elems_print_members.induct)
  case (3 nl sp k l)
  then obtain i where l: "l = Itoa i" by auto
  obtain c ds where c: "Itoa i = c # ds" "is_digit c \<or> c = CHR ''-''" using Itoa_start by blast
  then have "p_value d (Itoa i @ t) = p_scalar (Itoa i @ t)"
    by (intro p_value_scalar) (auto simp: starts_value_def is_digit_def less_eq_char_def)
  then show ?case using p_scalar_print(5) [OF 3(2)] l by simp
next
  case (5 nl sp k vs)
  show ?case
  proof (cases vs)
    case Nil
    with 5 show ?thesis by (simp add: p_value.simps skip_ws_def)
  next
    case (Cons v vs')
    let ?s = "print_elems nl sp (k + 1) vs @ nl k @ CHR '']'' # t"
    have d: "d < maxNestingDepth" "printable_elems (maxNestingDepth - Suc d) vs" using 5(2) by simp_all
    have "starts_value ?s" using d print_json_starts Cons by auto
    then obtain c r where c: "skip_ws (nl (k + 1) @ ?s) = c # r" "c \<noteq> CHR '']''"
      using 5(4) by (cases ?s) (auto simp: starts_value_def skip_ws_starts)
    from p_value_open(1) [OF d(1) c] 5(1) [of "Suc d" "nl k" t "[]"] 5(4,5) d Cons show ?thesis by simp
  qed
next
  case (6 nl sp k kvs)
  show ?case
  proof (cases kvs)
    case Nil
    with 6 show ?thesis by (simp add: p_value.simps skip_ws_def)
  next
    case (Cons kv kvs')
    let ?s = "print_members nl sp (k + 1) kvs @ nl k @ CHR ''}'' # t"
    have d: "d < maxNestingDepth" "printable_members (maxNestingDepth - Suc d) kvs" using 6(2) by simp_all
    obtain r where "?s = quote # r" using Cons by (cases kv) (simp add: appendString_def)
    then have "skip_ws (nl (k + 1) @ ?s) = quote # r" using 6(4) by simp
    from p_value_open(2) [OF d(1) this] 6(1) [of "Suc d" "nl k" t "[]"] 6(4,5) d Cons show ?thesis by simp
  qed
next
  case (8 nl sp k v vs)
  let ?r = "(if vs = [] then [] else CHR '','' # nl k @ print_elems nl sp k vs) @ w @ CHR '']'' # t"
  have "ends_number ?r" using 8(5) by (auto intro: ends_number_blank)
  then have "p_value d (print_with nl sp k v @ ?r) = Some (clean_json v, ?r)" using 8(4,6,7) by (intro 8(1)) auto
  then show ?case using 8(2) [of d w t "acc @ [clean_json v]"] 8(4-7)
    by (simp add: p_elems.simps [of d "print_with nl sp k v @ ?r"])
next
  case (10 nl sp k key v kvs)
  let ?r = "(if kvs = [] then [] else CHR '','' # nl k @ print_members nl sp k kvs) @ w @ CHR ''}'' # t"
  have "ends_number ?r" using 10(5) by (auto intro: ends_number_blank)
  then have "p_value d (print_with nl sp k v @ ?r) = Some (clean_json v, ?r)" using 10(4,6,7) by (intro 10(1)) auto
  then show ?case using 10(2) [of d w t "acc' @ [(to_valid key, clean_json v)]"] 10(4-7)
    by (subst p_members.simps) (simp add: appendString_def str_body_esc)
qed (auto simp: p_value_scalar starts_value_def appendString_def p_scalar_def literal_def str_body_esc)

lemma parse_json_print:
  assumes "printable maxNestingDepth v" and "skip_ws t = []" and "ends_number t"
  shows "parse_json (print_json v @ t) = Some (clean_json v)"
  using p_print(1) [of "\<lambda>_. []" "[]" 0 v t 0] assms by (simp add: parse_json_def print_json_def)

section \<open>Go types\<close>

text \<open>A field of a struct has the name and the \<open>omitempty\<close> of its tag.\<close>

datatype gty =
    TString
  | TBool
  | TInt
  | TSlice gty
  | TMap gty
  | TStruct "(string \<times> bool \<times> gty) list"

datatype gval =
    GString string
  | GBool bool
  | GInt int
  | GSlice "gval list"
  | GMap "(string \<times> gval) list"
  | GStruct "gval list"

fun zero_val :: "gty \<Rightarrow> gval" where
  "zero_val TString = GString []"
| "zero_val TBool = GBool False"
| "zero_val TInt = GInt 0"
| "zero_val (TSlice t) = GSlice []"
| "zero_val (TMap t) = GMap []"
| "zero_val (TStruct fs) = GStruct (map (\<lambda>(_, _, t). zero_val t) fs)"

fun is_empty :: "gval \<Rightarrow> bool" where
  "is_empty (GString s) \<longleftrightarrow> s = []"
| "is_empty (GBool b) \<longleftrightarrow> \<not> b"
| "is_empty (GInt i) \<longleftrightarrow> i = 0"
| "is_empty (GSlice vs) \<longleftrightarrow> vs = []"
| "is_empty (GMap kvs) \<longleftrightarrow> kvs = []"
| "is_empty (GStruct vs) \<longleftrightarrow> False"

section \<open>json.Marshal\<close>

fun to_json :: "gty \<Rightarrow> gval \<Rightarrow> jval" and fields_json :: "(string \<times> bool \<times> gty) list \<Rightarrow> gval list \<Rightarrow> (string \<times> jval) list" where
  "to_json t (GString s) = JStr s"
| "to_json t (GBool b) = JBool b"
| "to_json t (GInt i) = JNum (Itoa i)"
| "to_json t (GSlice vs) = (case t of TSlice t' \<Rightarrow> JArr (map (to_json t') vs) | _ \<Rightarrow> JNull)"
| "to_json t (GMap kvs) = (case t of TMap t' \<Rightarrow> JObj (map (\<lambda>(k, v). (k, to_json t' v)) kvs) | _ \<Rightarrow> JNull)"
| "to_json t (GStruct vs) = (case t of TStruct fs \<Rightarrow> JObj (fields_json fs vs) | _ \<Rightarrow> JNull)"
| "fields_json ((n, omitempty, t) # fs) (v # vs) =
     (if omitempty \<and> is_empty v then [] else [(n, to_json t v)]) @ fields_json fs vs"
| "fields_json _ _ = []"

definition Marshal :: "gty \<Rightarrow> gval \<Rightarrow> bytes" where
  "Marshal t v = print_json (to_json t v)"

section \<open>json.Unmarshal\<close>

text \<open>A key names the field with that name, or else the first field whose name is equal up to case;
  U+017F and U+212A fold to \<open>S\<close> and \<open>K\<close>.\<close>

definition upper :: "char \<Rightarrow> char" where
  "upper c = (if CHR ''a'' \<le> c \<and> c \<le> CHR ''z'' then char_of (of_char c - 32 :: nat) else c)"

function foldName :: "string \<Rightarrow> string" where
  "foldName s =
     (case s of
        [] \<Rightarrow> []
      | c # t \<Rightarrow>
          if take 2 s = [CHR 0xC5, CHR 0xBF] then CHR ''S'' # foldName (drop 2 s)
          else if take 3 s = [CHR 0xE2, CHR 0x84, CHR 0xAA] then CHR ''K'' # foldName (drop 3 s)
          else upper c # foldName t)"
  by pat_completeness auto

termination foldName
  by (relation "measure length") auto

declare foldName.simps [simp del]

fun find_index :: "('a \<Rightarrow> bool) \<Rightarrow> 'a list \<Rightarrow> nat option" where
  "find_index P [] = None"
| "find_index P (x # xs) = (if P x then Some 0 else map_option Suc (find_index P xs))"

definition find_field :: "(string \<times> bool \<times> gty) list \<Rightarrow> string \<Rightarrow> nat option" where
  "find_field fs k =
     (case find_index (\<lambda>f. fst f = k) fs of
        Some i \<Rightarrow> Some i
      | None \<Rightarrow> find_index (\<lambda>f. foldName (fst f) = foldName k) fs)"

fun map_put :: "string \<Rightarrow> 'v \<Rightarrow> (string \<times> 'v) list \<Rightarrow> (string \<times> 'v) list" where
  "map_put k v [] = [(k, v)]"
| "map_put k v ((k', v') # kvs) =
     (if k = k' then (k, v) # kvs
      else if k < k' then (k, v) # (k', v') # kvs
      else (k', v') # map_put k v kvs)"

text \<open>Decoding into the value that a variable of the type has. \<open>null\<close> empties a slice or a map and
  leaves anything else alone; a value of the wrong type is an error. An array is decoded over the elements
  that the slice has, which matters only for a key that occurs twice; what lies in the capacity of the
  slice beyond its length is taken to be zero.\<close>

fun dec :: "gty \<Rightarrow> gval \<Rightarrow> jval \<Rightarrow> gval option"
and dec_elems :: "gty \<Rightarrow> gval list \<Rightarrow> jval list \<Rightarrow> gval list option"
and dec_entries :: "gty \<Rightarrow> (string \<times> gval) list \<Rightarrow> (string \<times> jval) list \<Rightarrow> (string \<times> gval) list option"
and dec_fields :: "(string \<times> bool \<times> gty) list \<Rightarrow> gval list \<Rightarrow> (string \<times> jval) list \<Rightarrow> gval list option"
where
  "dec t cur JNull = Some (case t of TSlice _ \<Rightarrow> GSlice [] | TMap _ \<Rightarrow> GMap [] | _ \<Rightarrow> cur)"
| "dec t cur (JBool b) = (if t = TBool then Some (GBool b) else None)"
| "dec t cur (JNum l) = (if t = TInt then map_option GInt (ParseInt l) else None)"
| "dec t cur (JStr s) = (if t = TString then Some (GString s) else None)"
| "dec t cur (JArr js) =
     (case (t, cur) of (TSlice t', GSlice cs) \<Rightarrow> map_option GSlice (dec_elems t' cs js) | _ \<Rightarrow> None)"
| "dec t cur (JObj ms) =
     (case (t, cur) of
        (TMap t', GMap kvs) \<Rightarrow> map_option GMap (dec_entries t' kvs ms)
      | (TStruct fs, GStruct vs) \<Rightarrow> map_option GStruct (dec_fields fs vs ms)
      | _ \<Rightarrow> None)"
| "dec_elems t cs [] = Some []"
| "dec_elems t cs (j # js) =
     (case dec t (case cs of [] \<Rightarrow> zero_val t | c # _ \<Rightarrow> c) j of
        None \<Rightarrow> None
      | Some v \<Rightarrow> map_option (\<lambda>vs. v # vs) (dec_elems t (tl cs) js))"
| "dec_entries t kvs [] = Some kvs"
| "dec_entries t kvs ((k, j) # ms) =
     (case dec t (zero_val t) j of None \<Rightarrow> None | Some v \<Rightarrow> dec_entries t (map_put k v kvs) ms)"
| "dec_fields fs vs [] = Some vs"
| "dec_fields fs vs ((k, j) # ms) =
     (case find_field fs k of
        None \<Rightarrow> dec_fields fs vs ms
      | Some i \<Rightarrow>
          (case dec (snd (snd (fs ! i))) (vs ! i) j of
             None \<Rightarrow> None
           | Some v \<Rightarrow> dec_fields fs (vs[i := v]) ms))"

definition Unmarshal :: "gty \<Rightarrow> gval \<Rightarrow> bytes \<Rightarrow> gval option" where
  "Unmarshal t cur s = (case parse_json s of None \<Rightarrow> None | Some j \<Rightarrow> dec t cur j)"

section \<open>Values of a type\<close>

fun typed :: "gty \<Rightarrow> gval \<Rightarrow> bool" and typed_fields :: "(string \<times> bool \<times> gty) list \<Rightarrow> gval list \<Rightarrow> bool" where
  "typed t (GString s) \<longleftrightarrow> t = TString \<and> valid_utf8 s"
| "typed t (GBool b) \<longleftrightarrow> t = TBool"
| "typed t (GInt i) \<longleftrightarrow> t = TInt \<and> - (2 ^ 63) \<le> i \<and> i < 2 ^ 63"
| "typed t (GSlice vs) \<longleftrightarrow> (case t of TSlice t' \<Rightarrow> (\<forall>v \<in> set vs. typed t' v) | _ \<Rightarrow> False)"
| "typed t (GMap kvs) \<longleftrightarrow>
     (case t of
        TMap t' \<Rightarrow> sorted_wrt (<) (map fst kvs) \<and> (\<forall>(k, v) \<in> set kvs. valid_utf8 k \<and> typed t' v)
      | _ \<Rightarrow> False)"
| "typed t (GStruct vs) \<longleftrightarrow> (case t of TStruct fs \<Rightarrow> typed_fields fs vs | _ \<Rightarrow> False)"
| "typed_fields [] [] \<longleftrightarrow> True"
| "typed_fields ((n, omitempty, t) # fs) (v # vs) \<longleftrightarrow> typed t v \<and> typed_fields fs vs"
| "typed_fields _ _ \<longleftrightarrow> False"


section \<open>Everything decoded is of its type\<close>

lemma valid_utf8_Nil [simp]: "valid_utf8 []"
  by (simp add: valid_utf8_def to_valid.simps)

lemma valid_utf8_rune: "valid_rune r \<Longrightarrow> valid_utf8 t \<Longrightarrow> valid_utf8 (EncodeRune r @ t)"
  by (simp add: valid_utf8_def to_valid.simps [of "EncodeRune r @ t"] DecodeRune_EncodeRune)

lemma valid_utf8_ascii: "of_char c < (0x80 :: nat) \<Longrightarrow> valid_utf8 t \<Longrightarrow> valid_utf8 (c # t)"
  using valid_utf8_rune [of "of_char c" t] by (simp add: valid_rune_def EncodeRune_def)

lemma hex_val_less: "hex_val c = Some d \<Longrightarrow> d < 16"
  by (auto simp: hex_val_def Let_def split: if_splits)

lemma getu4_less: "getu4 s = Some r \<Longrightarrow> r < 0x10000"
  by (auto simp: getu4_def dest!: hex_val_less split: list.splits option.splits)

lemma str_unit_valid:
  assumes "str_unit s = Some (x, w)" and "valid_utf8 t"
  shows "valid_utf8 (x @ t)"
proof -
  have rune: ?thesis if "x = EncodeRune r" "valid_rune r" for r
    using valid_utf8_rune [OF that(2) assms(2)] that(1) by simp
  have bad: "valid_rune 0xFFFD" by (simp add: valid_rune_def)
  obtain c s' where s: "s = c # s'" using assms(1) by (cases s) (simp_all add: str_unit_def)
  show ?thesis
  proof (cases "c = backslash")
    case True
    then obtain e s'' where e: "s' = e # s''" using assms(1) s by (cases s') (simp_all add: str_unit_def)
    show ?thesis
    proof (cases "e = CHR ''u''")
      case True
      with \<open>c = backslash\<close> e s assms(1) obtain r where r: "getu4 s'' = Some r"
        by (cases "getu4 s''") (simp_all add: str_unit_def)
      show ?thesis
      proof (cases "\<exists>r'. low_surrogate r (drop 4 s'') = Some r' \<and> surrogate r")
        case True
        then obtain r' where l: "low_surrogate r (drop 4 s'') = Some r'" "surrogate r" by blast
        then have "0x10000 \<le> r'" "r' < 0x110000"
          by (auto simp: low_surrogate_def surrogate_def split: list.splits if_splits option.splits)
        then have "valid_rune r'" by (simp add: valid_rune_def)
        moreover have "x = EncodeRune r'" using assms(1) s e r l \<open>c = backslash\<close> \<open>e = CHR ''u''\<close> by (simp add: str_unit_def)
        ultimately show ?thesis by (intro rune)
      next
        case False
        have "\<not> surrogate r \<Longrightarrow> valid_rune r" using getu4_less [OF r] by (auto simp: surrogate_def valid_rune_def)
        with False rune bad assms(1) s e r \<open>c = backslash\<close> \<open>e = CHR ''u''\<close> show ?thesis
          by (auto simp: str_unit_def split: if_splits option.splits)
      qed
    next
      case False
      with \<open>c = backslash\<close> e s assms(1) obtain y where "simple_escape e = Some y" "x = [y]" by (auto simp: str_unit_def)
      then show ?thesis using assms(2) by (auto simp: simple_escape_def intro!: valid_utf8_ascii split: if_splits)
    qed
  next
    case False
    with assms(1) s rune bad DecodeRune_SomeD(1) [of s] show ?thesis
      by (auto simp: str_unit_def split: if_splits option.splits)
  qed
qed

lemma str_body_valid: "str_body s = Some (x, r) \<Longrightarrow> valid_utf8 x"
proof (induction s arbitrary: x r rule: str_body.induct)
  case (1 s)
  show ?case
  proof (cases "s \<noteq> [] \<and> hd s = quote")
    case True
    with "1.prems" show ?thesis by (simp add: str_body.simps [of s])
  next
    case False
    with "1.prems" obtain u w y where u: "str_unit s = Some (u, w)" and y: "str_body (drop w s) = Some (y, r)" and s: "s \<noteq> []"
      and x: "x = u @ y"
      by (auto simp: str_body.simps [of s] split: if_splits option.splits)
    from str_unit_valid [OF u "1.IH" [OF False s u refl y]] x show ?thesis by simp
  qed
qed

fun valid_json :: "jval \<Rightarrow> bool" where
  "valid_json (JStr s) \<longleftrightarrow> valid_utf8 s"
| "valid_json (JArr vs) \<longleftrightarrow> (\<forall>v \<in> set vs. valid_json v)"
| "valid_json (JObj kvs) \<longleftrightarrow> (\<forall>(k, v) \<in> set kvs. valid_utf8 k \<and> valid_json v)"
| "valid_json _ \<longleftrightarrow> True"

lemma p_scalar_valid: "p_scalar s = Some (v, r) \<Longrightarrow> valid_json v"
  by (auto simp: p_scalar_def literal_def dest: str_body_valid split: list.splits if_splits)

lemma p_valid:
  shows "p_value d s = Some (v, r) \<Longrightarrow> valid_json v"
    and "p_elems d s acc = Some (v, r) \<Longrightarrow> \<forall>v \<in> set acc. valid_json v \<Longrightarrow> valid_json v"
    and "p_members d s acc' = Some (v, r) \<Longrightarrow> \<forall>(k, v) \<in> set acc'. valid_utf8 k \<and> valid_json v \<Longrightarrow> valid_json v"
proof (induction d s and d s acc and d s acc' arbitrary: v r and v r and v r rule: p_value_p_elems_p_members.induct)
  case (1 d s)
  then show ?case
    by (fastforce simp: p_value.simps [of d s] dest: p_scalar_valid split: list.splits if_splits)
next
  case (2 d s acc)
  then show ?case
    by (fastforce simp: p_elems.simps [of d s] split: list.splits if_splits option.splits)
next
  case (3 d s acc)
  then show ?case
    by (fastforce simp: p_members.simps [of d s] dest: str_body_valid split: list.splits if_splits option.splits)
qed

lemma parse_json_valid: "parse_json s = Some v \<Longrightarrow> valid_json v"
  by (auto simp: parse_json_def dest: p_valid(1) split: option.splits if_splits)


lemma typed_fields_iff: "typed_fields fs vs \<longleftrightarrow> list_all2 (\<lambda>f. typed (snd (snd f))) fs vs"
proof (induction fs arbitrary: vs)
  case Nil
  then show ?case by (cases vs) simp_all
next
  case (Cons f fs)
  then show ?case by (cases f; cases vs) simp_all
qed

lemma typed_zero_val [simp]: "typed t (zero_val t)"
proof (induction t rule: zero_val.induct)
  case (6 fs)
  have "typed (snd (snd f)) (case f of (_, _, t) \<Rightarrow> zero_val t)" if "f \<in> set fs" for f
    using 6 [OF that prod.collapse prod.collapse] by (simp add: case_prod_beta)
  then show ?case by (simp add: typed_fields_iff list_all2_conv_all_nth)
qed simp_all

lemma map_put_keys: "fst ` set (map_put k v kvs) = insert k (fst ` set kvs)"
  by (induction k v kvs rule: map_put.induct) (auto simp: insert_commute)

lemma map_put_entries: "(k', v') \<in> set (map_put k v kvs) \<Longrightarrow> (k' = k \<and> v' = v) \<or> (k', v') \<in> set kvs"
  by (induction kvs) (auto split: if_splits)

lemma map_put_sorted: "sorted_wrt (<) (map fst kvs) \<Longrightarrow> sorted_wrt (<) (map fst (map_put k v kvs))"
proof (induction k v kvs rule: map_put.induct)
  case (2 k v k' v' kvs)
  have gt: "\<forall>x \<in> fst ` set kvs. k' < x" using 2(2) by auto
  consider "k = k'" | "k < k'" | "k \<noteq> k'" "\<not> k < k'" by blast
  then show ?case
  proof cases
    case 2
    with gt have "\<forall>x \<in> fst ` set kvs. k < x" by force
    with 2 gt "2.prems" show ?thesis by simp
  next
    case 3
    then have "k' < k" by simp
    then have "\<forall>x \<in> fst ` set (map_put k v kvs). k' < x" using gt by (simp add: map_put_keys)
    with 3 2 show ?thesis by simp
  qed (use 2 in simp)
qed simp

lemma find_index_SomeD: "find_index P xs = Some i \<Longrightarrow> i < length xs \<and> P (xs ! i)"
  by (induction xs arbitrary: i) (auto split: if_splits)

lemma find_field_less: "find_field fs k = Some i \<Longrightarrow> i < length fs"
  by (auto simp: find_field_def dest: find_index_SomeD split: option.splits)

lemma ParseInt_range: "ParseInt l = Some i \<Longrightarrow> - (2 ^ 63) \<le> i \<and> i < 2 ^ 63"
  by (auto simp: ParseInt_def Let_def split: if_splits)

text \<open>A value decodes into a value of the type it is decoded at.\<close>

lemma dec_typed:
  shows "dec t cur j = Some v \<Longrightarrow> valid_json j \<Longrightarrow> typed t cur \<Longrightarrow> typed t v"
    and "dec_elems t cs js = Some vs \<Longrightarrow> \<forall>j \<in> set js. valid_json j \<Longrightarrow> \<forall>c \<in> set cs. typed t c \<Longrightarrow>
      \<forall>v \<in> set vs. typed t v"
    and "dec_entries t kvs ms = Some kvs' \<Longrightarrow> \<forall>(k, j) \<in> set ms. valid_utf8 k \<and> valid_json j \<Longrightarrow>
      typed (TMap t) (GMap kvs) \<Longrightarrow> typed (TMap t) (GMap kvs')"
    and "dec_fields fs us ms = Some us' \<Longrightarrow> \<forall>(k, j) \<in> set ms. valid_utf8 k \<and> valid_json j \<Longrightarrow>
      typed_fields fs us \<Longrightarrow> typed_fields fs us'"
proof (induction t cur j and t cs js and t kvs ms and fs us ms
    arbitrary: v and vs and kvs' and us' rule: dec_dec_elems_dec_entries_dec_fields.induct)
  case (1 t cur)
  then show ?case by (cases t) auto
next
  case (3 t cur l)
  then show ?case by (auto dest: ParseInt_range split: if_splits)
next
  case (5 t cur js)
  then show ?case by (auto split: gty.splits gval.splits)
next
  case (6 t cur ms)
  then show ?case by (auto split: gty.splits gval.splits)
next
  case (8 t cs j js)
  then show ?case by (cases cs) (auto split: option.splits)
next
  case (10 t kvs k j ms)
  then obtain v where v: "dec t (zero_val t) j = Some v" and r: "dec_entries t (map_put k v kvs) ms = Some kvs'"
    by (auto split: option.splits)
  have "typed t v" using 10 v by simp
  then have "typed (TMap t) (GMap (map_put k v kvs))"
    using 10 map_put_sorted [of kvs k v] by (auto dest!: map_put_entries)
  with 10 v r show ?case by simp
next
  case (12 fs us k j ms)
  show ?case
  proof (cases "find_field fs k")
    case None
    with 12 show ?thesis by simp
  next
    case (Some i)
    with 12 obtain v where v: "dec (snd (snd (fs ! i))) (us ! i) j = Some v" and r: "dec_fields fs (us[i := v]) ms = Some us'"
      by (auto split: option.splits)
    have "typed (snd (snd (fs ! i))) v"
      using 12 Some v find_field_less [OF Some] by (auto simp: typed_fields_iff list_all2_conv_all_nth)
    then have "typed_fields fs (us[i := v])"
      using "12.prems"(3) find_field_less [OF Some] by (auto simp: typed_fields_iff list_all2_conv_all_nth nth_list_update)
    with 12 Some v r show ?thesis by simp
  qed
qed (auto split: if_splits)

lemma Unmarshal_typed: "Unmarshal t cur s = Some v \<Longrightarrow> typed t cur \<Longrightarrow> typed t v"
  by (auto simp: Unmarshal_def dest: parse_json_valid dec_typed(1) split: option.splits)


section \<open>Values come back\<close>

text \<open>A type whose structs have distinct fields and whose nesting stays within a depth.\<close>

fun wf_ty :: "nat \<Rightarrow> gty \<Rightarrow> bool" where
  "wf_ty d (TSlice t) \<longleftrightarrow> 0 < d \<and> wf_ty (d - 1) t"
| "wf_ty d (TMap t) \<longleftrightarrow> 0 < d \<and> wf_ty (d - 1) t"
| "wf_ty d (TStruct fs) \<longleftrightarrow>
     0 < d \<and> distinct (map fst fs) \<and> (\<forall>(n, omitempty, t) \<in> set fs. valid_utf8 n \<and> wf_ty (d - 1) t)"
| "wf_ty d _ \<longleftrightarrow> True"

lemma wf_ty_mono: "wf_ty d t \<Longrightarrow> d \<le> d' \<Longrightarrow> wf_ty d' t"
proof (induction d t arbitrary: d' rule: wf_ty.induct)
  case (3 d fs)
  then show ?case by (fastforce simp: diff_le_mono)
qed (simp_all add: diff_le_mono)

lemma list_forms:
  "printable_elems d vs \<longleftrightarrow> (\<forall>v \<in> set vs. printable d v)"
  "printable_members d kvs \<longleftrightarrow> (\<forall>(k, v) \<in> set kvs. printable d v)"
  "clean_elems vs = map clean_json vs"
  "clean_members kvs = map (\<lambda>(k, v). (to_valid k, clean_json v)) kvs"
proof -
  show "printable_elems d vs \<longleftrightarrow> (\<forall>v \<in> set vs. printable d v)" "clean_elems vs = map clean_json vs"
    by (induction vs) simp_all
  show "printable_members d kvs \<longleftrightarrow> (\<forall>(k, v) \<in> set kvs. printable d v)"
    "clean_members kvs = map (\<lambda>(k, v). (to_valid k, clean_json v)) kvs"
    by (induction kvs) auto
qed

lemma to_json_printable:
  shows "wf_ty d t \<Longrightarrow> typed t v \<Longrightarrow> printable d (to_json t v) \<and> clean_json (to_json t v) = to_json t v"
    and "\<forall>(n, omitempty, t) \<in> set fs. valid_utf8 n \<and> wf_ty d t \<Longrightarrow> typed_fields fs vs \<Longrightarrow>
      printable_members d (fields_json fs vs) \<and> clean_members (fields_json fs vs) = fields_json fs vs"
proof (induction t v and fs vs arbitrary: d and d rule: to_json_fields_json.induct)
  case (4 t vs)
  then show ?case by (cases t) (auto simp: list_forms)
next
  case (5 t kvs)
  then show ?case by (cases t) (fastforce simp: list_forms valid_utf8_def)+
next
  case (6 t vs)
  then show ?case by (cases t) auto
next
  case (7 n omitempty t fs v vs)
  then have "printable_members d (fields_json fs vs) \<and> clean_members (fields_json fs vs) = fields_json fs vs"
    by (intro 7(2)) auto
  moreover have "printable d (to_json t v) \<and> clean_json (to_json t v) = to_json t v" if "\<not> (omitempty \<and> is_empty v)"
    using 7(1) [OF that, of d] 7(3,4) by simp
  ultimately show ?case using 7(3) by (auto simp: valid_utf8_def)
qed (auto simp: valid_utf8_def)

lemma is_empty_zero: "typed t v \<Longrightarrow> is_empty v \<Longrightarrow> v = zero_val t"
  by (cases v) (auto split: gty.splits)

lemma find_index_at: "P x \<Longrightarrow> \<forall>y \<in> set xs. \<not> P y \<Longrightarrow> find_index P (xs @ x # ys) = Some (length xs)"
  by (induction xs) auto

lemma map_put_last: "\<forall>k' \<in> fst ` set kvs. k' < k \<Longrightarrow> map_put k v kvs = kvs @ [(k, v)]"
  by (induction k v kvs rule: map_put.induct) auto

lemma dec_entries_back:
  assumes "\<forall>(k, v) \<in> set kvs. dec t (zero_val t) (f v) = Some v" and "sorted_wrt (<) (map fst (acc @ kvs))"
  shows "dec_entries t acc (map (\<lambda>(k, v). (k, f v)) kvs) = Some (acc @ kvs)"
  using assms
proof (induction kvs arbitrary: acc)
  case (Cons e kvs)
  then have "map_put (fst e) (snd e) acc = acc @ [e]" by (subst map_put_last) (auto simp: sorted_wrt_append)
  with Cons.prems Cons.IH [of "acc @ [e]"] show ?case by (cases e) simp
qed simp

lemma dec_elems_back:
  assumes "\<forall>v \<in> set vs. dec t (zero_val t) (f v) = Some v"
  shows "dec_elems t [] (map f vs) = Some vs"
  using assms by (induction vs) simp_all

lemma dec_fields_back:
  assumes "list_all2 (\<lambda>f v. typed (snd (snd f)) v \<and> (\<not> (fst (snd f) \<and> is_empty v) \<longrightarrow>
      dec (snd (snd f)) (zero_val (snd (snd f))) (to_json (snd (snd f)) v) = Some v)) fs vs"
    and "distinct (map fst (fs0 @ fs))" and "length vs0 = length fs0"
  shows "dec_fields (fs0 @ fs) (vs0 @ map (\<lambda>(_, _, t). zero_val t) fs) (fields_json fs vs) = Some (vs0 @ vs)"
  using assms
proof (induction fs vs arbitrary: fs0 vs0 rule: list_all2_induct)
  case (Cons f fs v vs)
  obtain n omitempty t where f: "f = (n, omitempty, t)" by (cases f)
  have i: "find_field (fs0 @ f # fs) n = Some (length vs0)"
    using Cons.prems by (subst find_field_def, subst find_index_at) (auto simp: f)
  have r: "dec_fields (fs0 @ f # fs) (vs0 @ v # map (\<lambda>(_, _, t). zero_val t) fs) (fields_json fs vs) = Some (vs0 @ v # vs)"
    using Cons.IH [of "fs0 @ [f]" "vs0 @ [v]"] Cons.prems by simp
  show ?case
  proof (cases "omitempty \<and> is_empty v")
    case True
    then have "v = zero_val t" using Cons.hyps(1) f by (auto intro: is_empty_zero)
    with r True show ?thesis by (simp add: f)
  next
    case False
    then have "dec t (zero_val t) (to_json t v) = Some v" using Cons.hyps(1) f by simp
    with False i r Cons.prems(2) show ?thesis by (auto simp: f nth_append list_update_append)
  qed
qed simp

lemma dec_to_json:
  shows "wf_ty d t \<Longrightarrow> typed t v \<Longrightarrow> dec t (zero_val t) (to_json t v) = Some v"
    and "\<forall>(n, omitempty, t) \<in> set fs. valid_utf8 n \<and> wf_ty d t \<Longrightarrow> typed_fields fs vs \<Longrightarrow>
      list_all2 (\<lambda>f v. typed (snd (snd f)) v \<and> (\<not> (fst (snd f) \<and> is_empty v) \<longrightarrow>
        dec (snd (snd f)) (zero_val (snd (snd f))) (to_json (snd (snd f)) v) = Some v)) fs vs"
proof (induction t v and fs vs arbitrary: d and d rule: to_json_fields_json.induct)
  case (3 t i)
  then show ?case by (simp add: ParseInt_Itoa)
next
  case (4 t vs)
  then show ?case by (cases t) (auto intro!: dec_elems_back)
next
  case (5 t kvs)
  then obtain t' where t: "t = TMap t'" by (cases t) auto
  have "\<forall>(k, v) \<in> set kvs. dec t' (zero_val t') (to_json t' v) = Some v" using 5 t by fastforce
  with dec_entries_back [of kvs t' "to_json t'" "[]"] 5(3) t show ?case by simp
next
  case (6 t vs)
  then obtain fs where t: "t = TStruct fs" by (cases t) auto
  then have "list_all2 (\<lambda>f v. typed (snd (snd f)) v \<and> (\<not> (fst (snd f) \<and> is_empty v) \<longrightarrow>
        dec (snd (snd f)) (zero_val (snd (snd f))) (to_json (snd (snd f)) v) = Some v)) fs vs" using 6 by auto
  from dec_fields_back [OF this, of "[]" "[]"] 6(2) t show ?case by simp
next
  case (7 n omitempty t fs v vs)
  then have "\<not> (omitempty \<and> is_empty v) \<longrightarrow> dec t (zero_val t) (to_json t v) = Some v" by auto
  moreover have "\<forall>(n, omitempty, t) \<in> set fs. valid_utf8 n \<and> wf_ty d t" "typed_fields fs vs" using 7(3,4) by auto
  note 7(2) [OF this]
  ultimately show ?case using 7(4) by simp
qed (auto simp: typed_fields_iff)

lemma parse_Marshal:
  assumes "wf_ty maxNestingDepth t" and "typed t v" and "skip_ws e = []" and "ends_number e"
  shows "parse_json (Marshal t v @ e) = Some (to_json t v)"
  using to_json_printable(1) [OF assms(1,2)] parse_json_print [OF _ assms(3,4)] by (auto simp: Marshal_def)

text \<open>A value of a type comes back from its text, followed by a newline or not.\<close>

lemma Unmarshal_Marshal:
  assumes "wf_ty maxNestingDepth t" and "typed t v" and "skip_ws e = []" and "ends_number e"
  shows "Unmarshal t (zero_val t) (Marshal t v @ e) = Some v"
  using dec_to_json(1) [OF assms(1,2)] parse_Marshal [OF assms] by (simp add: Unmarshal_def)


section \<open>A text is one line\<close>

definition visible :: "char \<Rightarrow> bool" where
  "visible c \<longleftrightarrow> 0x20 \<le> (of_char c :: nat)"

lemma visible_literals [simp]:
  "visible backslash" "visible quote"
  "visible (CHR ''['')" "visible (CHR '']'')" "visible (CHR ''{'')" "visible (CHR ''}'')" "visible (CHR '','')" "visible (CHR '':'')"
  "visible (CHR ''a'')" "visible (CHR ''b'')" "visible (CHR ''d'')" "visible (CHR ''e'')" "visible (CHR ''f'')" "visible (CHR ''l'')"
  "visible (CHR ''n'')" "visible (CHR ''r'')" "visible (CHR ''s'')" "visible (CHR ''t'')" "visible (CHR ''u'')"
  by (simp_all add: visible_def)

lemma visible_char_of: "0x20 \<le> (n :: nat) \<Longrightarrow> n < 0x100 \<Longrightarrow> visible (char_of n)"
  by (simp add: visible_def)

lemma visible_hex_pad: "list_all visible (hex_pad k n)"
  by (induction k arbitrary: n) (auto simp: hex_digit_def intro!: visible_char_of)

lemma visible_EncodeRune:
  assumes "valid_rune r" and "0x20 \<le> r"
  shows "list_all visible (EncodeRune r)"
proof -
  have t: "n mod 64 < 64" for n :: nat by simp
  have r: "r < 0x110000" using assms(1) by (auto simp: valid_rune_def)
  then have "r div 262144 < 5" by simp
  moreover have "r div 64 < 32" if "r < 0x800" using that by simp
  moreover have "r div 4096 < 16" if "r < 0x10000" using that by simp
  ultimately show ?thesis
    using assms(2) t [of r] t [of "r div 64"] t [of "r div 4096"] by (auto simp: EncodeRune_def intro!: visible_char_of)
qed

lemma visible_esc_rune: "valid_rune r \<Longrightarrow> list_all visible (esc_rune r)"
  using visible_EncodeRune [of r] visible_hex_pad [of 4 r]
  by (auto simp: esc_rune_def esc_ascii_def html_safe_def visible_def)

lemma visible_esc_body: "list_all visible (esc_body s)"
proof (induction s rule: esc_body.induct)
  case (1 s)
  then show ?case
    using visible_esc_rune DecodeRune_SomeD(1) [of s]
    by (subst esc_body.simps) (auto split: option.splits)
qed

lemma visible_Itoa: "list_all visible (Itoa i)"
proof -
  have "list_all visible s" if "list_all is_digit s" for s
    using that by (auto simp: list_all_iff is_digit_def visible_def less_eq_char_def)
  with nat_itoa_digits show ?thesis by (simp add: Itoa_def visible_def)
qed

lemma print_with_visible:
  assumes "\<And>d. nl d = []" and "sp = []"
  shows "printable d v \<Longrightarrow> list_all visible (print_with nl sp k v)"
    and "printable_elems d vs \<Longrightarrow> list_all visible (print_elems nl sp k vs)"
    and "printable_members d kvs \<Longrightarrow> list_all visible (print_members nl sp k kvs)"
  using assms
proof (induction nl sp k v and nl sp k vs and nl sp k kvs arbitrary: d and d and d
    rule: print_with_print_elems_print_members.induct)
  case (3 nl sp k l)
  then show ?case by (auto simp: visible_Itoa)
qed (auto simp: appendString_def visible_esc_body)

lemma Marshal_visible: "wf_ty d t \<Longrightarrow> typed t v \<Longrightarrow> list_all visible (Marshal t v)"
  using to_json_printable(1) [of d t v] print_with_visible(1) [of "\<lambda>_. []" "[]" d "to_json t v" 0]
  by (simp add: Marshal_def print_json_def)


text \<open>The same holds for a text with white space between the tokens.\<close>

lemma Unmarshal_print_with:
  assumes "\<And>d. blank (nl d)" and "blank sp" and "wf_ty maxNestingDepth t" and "typed t v" and "skip_ws e = []" and "ends_number e"
  shows "Unmarshal t (zero_val t) (print_with nl sp 0 (to_json t v) @ e) = Some v"
  using p_print(1) [where d = 0 and k = 0 and v = "to_json t v" and t = e, OF assms(1,2)] to_json_printable(1) [OF assms(3,4)] dec_to_json(1) [OF assms(3,4)] assms(5,6)
  by (simp add: Unmarshal_def parse_json_def)

end
