(* ===== verification/Control.thy ===== *)
theory Control
  imports Probe Json
begin

text \<open>
  \<open>internal/control\<close>: the Unix socket through which the command line talks to the daemon, one JSON object
  per line each way. The messages of \<open>protocol.go\<close> are records with their Go types, the daemon that
  \<open>server.go\<close> expects is a record of operations, and \<open>handle\<close>, \<open>Call\<close> and \<open>TryProbe\<close> run on the
  connections of \<open>GoIO\<close>. A map on the wire is the list of its entries in the order of the keys. The text
  of an error of \<open>encoding/json\<close> is an argument; logging is not modelled.
\<close>

section \<open>Messages\<close>

definition CmdUse :: string where "CmdUse = ''use''"
definition CmdStatus :: string where "CmdStatus = ''status''"

record Request =
  rq_Cmd :: string
  rq_Target :: string
  rq_Variables :: "(string \<times> string) list"

record wire_SwitchResult =
  ws_VirtualName :: string
  ws_Previous :: string
  ws_PreviousDatabase :: string
  ws_Current :: string
  ws_CurrentDatabase :: string
  ws_ClosedConns :: int
  ws_Skipped :: bool

record wire_ProbeResult =
  wp_VirtualName :: string
  wp_Target :: string
  wp_Database :: string
  wp_Addr :: string
  wp_OK :: bool
  wp_Err :: string

record DatabaseStatus =
  ds_VirtualName :: string
  ds_Adapter :: string
  ds_Current :: string
  ds_CurrentDatabase :: string
  ds_CurrentHost :: string
  ds_CurrentPort :: int
  ds_ActiveConns :: int
  ds_Inactive :: bool

record Response =
  rs_OK :: bool
  rs_Error :: string
  rs_Target :: string
  rs_Switched :: "wire_SwitchResult list"
  rs_Missing :: "string list"
  rs_Probes :: "wire_ProbeResult list"
  rs_Ports :: "(string \<times> int) list"
  rs_CurrentTarget :: string
  rs_Databases :: "DatabaseStatus list"

text \<open>Their types with the tags of the fields, and their values.\<close>

definition Request_ty :: gty where
  "Request_ty = TStruct
     [(''cmd'', False, TString), (''target'', True, TString), (''variables'', True, TMap TString)]"

definition SwitchResult_ty :: gty where
  "SwitchResult_ty = TStruct
     [(''virtual_name'', False, TString), (''previous'', True, TString), (''previous_database'', True, TString),
      (''current'', True, TString), (''current_database'', True, TString), (''closed_conns'', False, TInt),
      (''skipped'', True, TBool)]"

definition ProbeResult_ty :: gty where
  "ProbeResult_ty = TStruct
     [(''virtual_name'', False, TString), (''target'', True, TString), (''database'', True, TString),
      (''addr'', True, TString), (''ok'', False, TBool), (''err'', True, TString)]"

definition DatabaseStatus_ty :: gty where
  "DatabaseStatus_ty = TStruct
     [(''virtual_name'', False, TString), (''adapter'', True, TString), (''current'', True, TString),
      (''current_database'', True, TString), (''current_host'', True, TString), (''current_port'', True, TInt),
      (''active_conns'', False, TInt), (''inactive'', True, TBool)]"

definition Response_ty :: gty where
  "Response_ty = TStruct
     [(''ok'', False, TBool), (''error'', True, TString), (''target'', True, TString),
      (''switched'', True, TSlice SwitchResult_ty), (''missing'', True, TSlice TString),
      (''probes'', True, TSlice ProbeResult_ty), (''ports'', True, TMap TInt),
      (''current_target'', True, TString), (''databases'', True, TSlice DatabaseStatus_ty)]"

definition Request_val :: "Request \<Rightarrow> gval" where
  "Request_val r = GStruct
     [GString (rq_Cmd r), GString (rq_Target r), GMap (map (\<lambda>(k, v). (k, GString v)) (rq_Variables r))]"

definition SwitchResult_val :: "wire_SwitchResult \<Rightarrow> gval" where
  "SwitchResult_val r = GStruct
     [GString (ws_VirtualName r), GString (ws_Previous r), GString (ws_PreviousDatabase r), GString (ws_Current r),
      GString (ws_CurrentDatabase r), GInt (ws_ClosedConns r), GBool (ws_Skipped r)]"

definition ProbeResult_val :: "wire_ProbeResult \<Rightarrow> gval" where
  "ProbeResult_val r = GStruct
     [GString (wp_VirtualName r), GString (wp_Target r), GString (wp_Database r), GString (wp_Addr r),
      GBool (wp_OK r), GString (wp_Err r)]"

definition DatabaseStatus_val :: "DatabaseStatus \<Rightarrow> gval" where
  "DatabaseStatus_val r = GStruct
     [GString (ds_VirtualName r), GString (ds_Adapter r), GString (ds_Current r), GString (ds_CurrentDatabase r),
      GString (ds_CurrentHost r), GInt (ds_CurrentPort r), GInt (ds_ActiveConns r), GBool (ds_Inactive r)]"

definition Response_val :: "Response \<Rightarrow> gval" where
  "Response_val r = GStruct
     [GBool (rs_OK r), GString (rs_Error r), GString (rs_Target r), GSlice (map SwitchResult_val (rs_Switched r)),
      GSlice (map GString (rs_Missing r)), GSlice (map ProbeResult_val (rs_Probes r)),
      GMap (map (\<lambda>(k, v). (k, GInt v)) (rs_Ports r)), GString (rs_CurrentTarget r),
      GSlice (map DatabaseStatus_val (rs_Databases r))]"

text \<open>Reading the fields of a decoded value.\<close>

fun gstring :: "gval \<Rightarrow> string" where
  "gstring (GString s) = s"
| "gstring _ = []"

fun gbool :: "gval \<Rightarrow> bool" where
  "gbool (GBool b) = b"
| "gbool _ = False"

fun gint :: "gval \<Rightarrow> int" where
  "gint (GInt i) = i"
| "gint _ = 0"

fun gslice :: "gval \<Rightarrow> gval list" where
  "gslice (GSlice vs) = vs"
| "gslice _ = []"

fun gmap :: "gval \<Rightarrow> (string \<times> gval) list" where
  "gmap (GMap kvs) = kvs"
| "gmap _ = []"

fun gfield :: "gval \<Rightarrow> nat \<Rightarrow> gval" where
  "gfield (GStruct vs) i = vs ! i"
| "gfield v i = v"

definition Request_of :: "gval \<Rightarrow> Request" where
  "Request_of v =
     \<lparr>rq_Cmd = gstring (gfield v 0), rq_Target = gstring (gfield v 1),
      rq_Variables = map (\<lambda>(k, x). (k, gstring x)) (gmap (gfield v 2))\<rparr>"

definition SwitchResult_of :: "gval \<Rightarrow> wire_SwitchResult" where
  "SwitchResult_of v =
     \<lparr>ws_VirtualName = gstring (gfield v 0), ws_Previous = gstring (gfield v 1),
      ws_PreviousDatabase = gstring (gfield v 2), ws_Current = gstring (gfield v 3),
      ws_CurrentDatabase = gstring (gfield v 4), ws_ClosedConns = gint (gfield v 5), ws_Skipped = gbool (gfield v 6)\<rparr>"

definition ProbeResult_of :: "gval \<Rightarrow> wire_ProbeResult" where
  "ProbeResult_of v =
     \<lparr>wp_VirtualName = gstring (gfield v 0), wp_Target = gstring (gfield v 1), wp_Database = gstring (gfield v 2),
      wp_Addr = gstring (gfield v 3), wp_OK = gbool (gfield v 4), wp_Err = gstring (gfield v 5)\<rparr>"

definition DatabaseStatus_of :: "gval \<Rightarrow> DatabaseStatus" where
  "DatabaseStatus_of v =
     \<lparr>ds_VirtualName = gstring (gfield v 0), ds_Adapter = gstring (gfield v 1), ds_Current = gstring (gfield v 2),
      ds_CurrentDatabase = gstring (gfield v 3), ds_CurrentHost = gstring (gfield v 4), ds_CurrentPort = gint (gfield v 5),
      ds_ActiveConns = gint (gfield v 6), ds_Inactive = gbool (gfield v 7)\<rparr>"

definition Response_of :: "gval \<Rightarrow> Response" where
  "Response_of v =
     \<lparr>rs_OK = gbool (gfield v 0), rs_Error = gstring (gfield v 1), rs_Target = gstring (gfield v 2),
      rs_Switched = map SwitchResult_of (gslice (gfield v 3)), rs_Missing = map gstring (gslice (gfield v 4)),
      rs_Probes = map ProbeResult_of (gslice (gfield v 5)),
      rs_Ports = map (\<lambda>(k, x). (k, gint x)) (gmap (gfield v 6)), rs_CurrentTarget = gstring (gfield v 7),
      rs_Databases = map DatabaseStatus_of (gslice (gfield v 8))\<rparr>"

definition no_response :: Response where
  "no_response =
     \<lparr>rs_OK = False, rs_Error = [], rs_Target = [], rs_Switched = [], rs_Missing = [], rs_Probes = [],
      rs_Ports = [], rs_CurrentTarget = [], rs_Databases = []\<rparr>"


section \<open>Lines\<close>

definition newline :: byte where "newline = CHR 0x0A"

text \<open>\<open>bufio.Reader.ReadBytes\<close>, on the first line of a connection.\<close>

definition ReadBytes :: "byte \<Rightarrow> (conn, bytes) io" where
  "ReadBytes delim c =
     (if cclosed c then (Err (SysErr ''use of closed network connection''), c)
      else if delim \<in> set (cin c)
      then (Ok (takeWhile (\<lambda>b. b \<noteq> delim) (cin c) @ [delim]), c\<lparr>cin := tl (dropWhile (\<lambda>b. b \<noteq> delim) (cin c))\<rparr>)
      else (Err (cend c), c\<lparr>cin := []\<rparr>))"

section \<open>The daemon\<close>

text \<open>What the status command reads of a database.\<close>

record db_view =
  dv_Adapter :: string
  dv_ActiveConns :: nat
  dv_Current :: "ResolvedTarget option"

text \<open>The \<open>Daemon\<close> interface. \<open>Databases\<close> lists the entries of the map in the order of the loop over it;
  \<open>Addrs\<close> is not used by the control server.\<close>

record 's Daemon =
  dm_Databases :: "'s \<Rightarrow> (string \<times> db_view) list"
  dm_CurrentTarget :: "'s \<Rightarrow> string \<times> (string \<rightharpoonup> string)"
  dm_SwitchAll :: "string \<Rightarrow> (string \<rightharpoonup> string) \<Rightarrow> 's \<Rightarrow> SwitchResult list res \<times> 's"
  dm_ProbeActive :: "'s \<Rightarrow> ProbeResult list res"
  dm_IsClosed :: "'s \<Rightarrow> bool"

text \<open>The state of a handler is its connection and the daemon.\<close>

definition on_conn :: "(conn, 'a) io \<Rightarrow> (conn \<times> 's, 'a) io" where
  "on_conn m cs = (let (r, c') = m (fst cs) in (r, (c', snd cs)))"

definition writeResp :: "Response \<Rightarrow> (conn \<times> 's, unit) io" where
  "writeResp resp = tryIO (on_conn (Write (Marshal Response_ty (Response_val resp) @ [newline])))"

text \<open>\<open>errors.As(err, &planErr)\<close>: the \<open>Missing\<close> of the first \<open>SwitchPlanError\<close> in the chain.\<close>

fun as_plan_error :: "go_err \<Rightarrow> string list option" and args_plan_error :: "go_arg list \<Rightarrow> string list option" where
  "as_plan_error (SwitchPlanError name missing e) = Some missing"
| "as_plan_error (Errorf f as) = args_plan_error as"
| "as_plan_error _ = None"
| "args_plan_error [] = None"
| "args_plan_error (AWrap e # as) = (case as_plan_error e of None \<Rightarrow> args_plan_error as | Some m \<Rightarrow> Some m)"
| "args_plan_error (_ # as) = args_plan_error as"

definition wire_switch :: "SwitchResult \<Rightarrow> wire_SwitchResult" where
  "wire_switch r =
     \<lparr>ws_VirtualName = sr_VirtualName r, ws_Previous = sr_Previous r, ws_PreviousDatabase = sr_PreviousDatabase r,
      ws_Current = sr_Current r, ws_CurrentDatabase = sr_CurrentDatabase r, ws_ClosedConns = int (sr_ClosedConns r),
      ws_Skipped = sr_Skipped r\<rparr>"

definition wire_probe :: "ProbeResult \<Rightarrow> wire_ProbeResult" where
  "wire_probe p =
     \<lparr>wp_VirtualName = pr_VirtualName p, wp_Target = pr_Target p, wp_Database = pr_Database p, wp_Addr = pr_Addr p,
      wp_OK = pr_OK p, wp_Err = pr_Err p\<rparr>"

definition handleUse :: "(nat \<Rightarrow> bool) \<Rightarrow> 's Daemon \<Rightarrow> Request \<Rightarrow> (conn \<times> 's, unit) io" where
  "handleUse tbl D req cs =
     (if rq_Target req = [] then writeResp (no_response\<lparr>rs_Error := ''target is required''\<rparr>) cs
      else (case dm_SwitchAll D (rq_Target req) (map_of (rq_Variables req)) (snd cs) of
              (Err e, s') \<Rightarrow>
                writeResp (no_response\<lparr>rs_Error := err_text tbl e,
                             rs_Missing := (case as_plan_error e of None \<Rightarrow> [] | Some m \<Rightarrow> m)\<rparr>) (fst cs, s')
            | (Panic, s') \<Rightarrow> (Panic, (fst cs, s'))
            | (Ok results, s') \<Rightarrow>
                bindIO (liftIO (dm_ProbeActive D s')) (\<lambda>probes.
                  writeResp (no_response\<lparr>rs_OK := True, rs_Target := rq_Target req,
                               rs_Switched := map wire_switch results, rs_Probes := map wire_probe probes\<rparr>))
                  (fst cs, s')))"

text \<open>A map in the order in which it is written.\<close>

definition key_order :: "(string \<times> 'v) list \<Rightarrow> (string \<times> 'v) list" where
  "key_order kvs = fold (\<lambda>(k, v). map_put k v) kvs []"

definition db_status :: "string \<times> db_view \<Rightarrow> DatabaseStatus" where
  "db_status nd =
     (let d = snd nd;
          ds = \<lparr>ds_VirtualName = fst nd, ds_Adapter = dv_Adapter d, ds_Current = [], ds_CurrentDatabase = [],
                ds_CurrentHost = [], ds_CurrentPort = 0, ds_ActiveConns = int (dv_ActiveConns d), ds_Inactive = False\<rparr> in
      case dv_Current d of
        Some cur \<Rightarrow> ds\<lparr>ds_Current := rt_Name cur, ds_CurrentDatabase := rt_Database cur,
                       ds_CurrentHost := rt_Host cur, ds_CurrentPort := rt_Port cur\<rparr>
      | None \<Rightarrow> ds\<lparr>ds_Inactive := True\<rparr>)"

definition handleStatus :: "'s Daemon \<Rightarrow> Config \<Rightarrow> (conn \<times> 's, unit) io" where
  "handleStatus D cfg cs =
     writeResp (no_response\<lparr>rs_OK := True, rs_Ports := key_order (c_ListenPorts cfg),
                  rs_CurrentTarget := fst (dm_CurrentTarget D (snd cs)),
                  rs_Databases := map db_status (dm_Databases D (snd cs))\<rparr>) cs"

text \<open>What \<open>handle\<close> does with a line, and \<open>handle\<close> with its deferred \<open>Close\<close>. \<open>json_err\<close> is the error that
  \<open>json.Unmarshal\<close> returns for a line.\<close>

definition handle_line ::
  "(bytes \<Rightarrow> go_err) \<Rightarrow> (nat \<Rightarrow> bool) \<Rightarrow> 's Daemon \<Rightarrow> Config \<Rightarrow> bytes \<Rightarrow> (conn \<times> 's, unit) io" where
  "handle_line json_err tbl D cfg line cs =
     (case Unmarshal Request_ty (zero_val Request_ty) line of
        None \<Rightarrow> writeResp (no_response\<lparr>rs_Error := Sprintf tbl ''parse: %v'' [AErr (json_err line)]\<rparr>) cs
      | Some v \<Rightarrow>
          if dm_IsClosed D (snd cs) then writeResp (no_response\<lparr>rs_Error := ''shutting down''\<rparr>) cs
          else (let req = Request_of v in
                if rq_Cmd req = CmdUse then handleUse tbl D req cs
                else if rq_Cmd req = CmdStatus then handleStatus D cfg cs
                else writeResp (no_response\<lparr>rs_Error := Sprintf tbl ''unknown command: %s'' [AStr (rq_Cmd req)]\<rparr>) cs))"

definition handle ::
  "(bytes \<Rightarrow> go_err) \<Rightarrow> (nat \<Rightarrow> bool) \<Rightarrow> 's Daemon \<Rightarrow> Config \<Rightarrow> (conn \<times> 's, unit) io" where
  "handle json_err tbl D cfg cs =
     (let (r, (c', s')) = catchIO (on_conn (ReadBytes newline)) (\<lambda>_. retIO ()) (handle_line json_err tbl D cfg) cs
      in (r, (close_sock c', s')))"

text \<open>\<open>Serve\<close>: the connections that get a handler, until \<open>Accept\<close> fails; the flag tells whether it has.\<close>

fun Serve_loop :: "conn res list \<Rightarrow> conn list \<times> bool" where
  "Serve_loop [] = ([], False)"
| "Serve_loop (Ok c # ln) = (let (cs, ended) = Serve_loop ln in (c # cs, ended))"
| "Serve_loop (_ # ln) = ([], True)"

section \<open>The client\<close>

definition Call ::
  "(bytes \<Rightarrow> go_err) \<Rightarrow> (string \<Rightarrow> conn res) \<Rightarrow> string \<Rightarrow> Request \<Rightarrow> Response res \<times> conn option" where
  "Call json_err dial socketPath req =
     (case dial socketPath of
        Err e \<Rightarrow> (Err (Errorf ''dial %s: %w'' [AStr socketPath, AWrap e]), None)
      | Panic \<Rightarrow> (Panic, None)
      | Ok c \<Rightarrow>
          (let (r, c') =
             bindIO (Write (Marshal Request_ty (Request_val req) @ [newline])) (\<lambda>_.
             bindIO (wrapIO ''read response: %w'' (ReadBytes newline)) (\<lambda>line.
               (case Unmarshal Response_ty (zero_val Response_ty) line of
                  None \<Rightarrow> errIO (Errorf ''parse response: %w (raw=%s)'' [AWrap (json_err line), AStr line])
                | Some v \<Rightarrow> retIO (Response_of v)))) c
           in (r, Some (close_sock c'))))"

definition status_line :: bytes where
  "status_line = ''{'' @ [quote] @ ''cmd'' @ [quote] @ '':'' @ [quote] @ ''status'' @ [quote] @ ''}'' @ [newline]"

definition TryProbe :: "(bytes \<Rightarrow> go_err) \<Rightarrow> (string \<Rightarrow> conn res) \<Rightarrow> string \<Rightarrow> Response res \<times> conn option" where
  "TryProbe json_err dial socketPath =
     (case dial socketPath of
        Err e \<Rightarrow> (Err e, None)
      | Panic \<Rightarrow> (Panic, None)
      | Ok c \<Rightarrow>
          (let (r, c') =
             bindIO (Write status_line) (\<lambda>_.
             bindIO (ReadBytes newline) (\<lambda>line.
               (case Unmarshal Response_ty (zero_val Response_ty) line of
                  None \<Rightarrow> errIO (json_err line)
                | Some v \<Rightarrow> retIO (Response_of v)))) c
           in (r, Some (close_sock c'))))"

text \<open>\<open>strings.Contains\<close>.\<close>

definition Contains :: "string \<Rightarrow> string \<Rightarrow> bool" where
  "Contains s sub \<longleftrightarrow> list_ex (\<lambda>t. take (length sub) t = sub) (suffixes s)"

definition IsRefused :: "(nat \<Rightarrow> bool) \<Rightarrow> go_err option \<Rightarrow> bool" where
  "IsRefused tbl err = (case err of None \<Rightarrow> False | Some e \<Rightarrow> Contains (err_text tbl e) ''connection refused'')"

text \<open>\<open>errors.Is(err, os.ErrNotExist)\<close> looks at the identity of the system's error, which is an argument.\<close>

definition IsMissing :: "(go_err \<Rightarrow> bool) \<Rightarrow> (nat \<Rightarrow> bool) \<Rightarrow> go_err option \<Rightarrow> bool" where
  "IsMissing is_not_exist tbl err =
     (case err of None \<Rightarrow> False | Some e \<Rightarrow> is_not_exist e \<or> Contains (err_text tbl e) ''no such file'')"

section \<open>The proxy as the daemon\<close>

text \<open>The loops over the map of databases run in the given orders.\<close>

definition IsClosed :: "Server \<Rightarrow> bool" where "IsClosed s = srv_closed s"

definition Databases :: "string list \<Rightarrow> Server \<Rightarrow> (string \<times> db_view) list" where
  "Databases order s =
     List.map_filter (\<lambda>n. map_option (\<lambda>d. (n, \<lparr>dv_Adapter = db_adapter d, dv_ActiveConns = ActiveConns n (srv_store s),
        dv_Current = Current n (srv_store s)\<rparr>)) (st_dbs (srv_store s) n)) order"

definition proxy_daemon ::
  "'c env \<Rightarrow> string list \<Rightarrow> string list \<Rightarrow> string list \<Rightarrow> string list \<Rightarrow> Server Daemon" where
  "proxy_daemon env order1 order2 order3 order4 =
     \<lparr>dm_Databases = Databases order4, dm_CurrentTarget = CurrentTarget, dm_SwitchAll = SwitchAll order1 order2,
      dm_ProbeActive = ProbeActive env order3, dm_IsClosed = IsClosed\<rparr>"


section \<open>Messages arrive\<close>

lemma message_back [simp]:
  "Request_of (Request_val req) = req" "SwitchResult_of (SwitchResult_val sw) = sw" "ProbeResult_of (ProbeResult_val pr) = pr"
  "DatabaseStatus_of (DatabaseStatus_val ds) = ds" "Response_of (Response_val resp) = resp"
proof -
  show "Request_of (Request_val req) = req"
    by (simp add: Request_of_def Request_val_def case_prod_beta comp_def)
  have sw: "SwitchResult_of (SwitchResult_val x) = x" for x
    by (simp add: SwitchResult_of_def SwitchResult_val_def numeral_eq_Suc)
  have pr: "ProbeResult_of (ProbeResult_val x) = x" for x
    by (simp add: ProbeResult_of_def ProbeResult_val_def numeral_eq_Suc)
  have ds: "DatabaseStatus_of (DatabaseStatus_val x) = x" for x
    by (simp add: DatabaseStatus_of_def DatabaseStatus_val_def numeral_eq_Suc)
  show "SwitchResult_of (SwitchResult_val sw) = sw" "ProbeResult_of (ProbeResult_val pr) = pr"
    "DatabaseStatus_of (DatabaseStatus_val ds) = ds" by (rule sw, rule pr, rule ds)
  show "Response_of (Response_val resp) = resp"
    by (simp add: Response_of_def Response_val_def numeral_eq_Suc sw pr ds case_prod_beta comp_def)
qed

definition go_int :: "int \<Rightarrow> bool" where
  "go_int i \<longleftrightarrow> - (2 ^ 63) \<le> i \<and> i < 2 ^ 63"

definition valid_request :: "Request \<Rightarrow> bool" where
  "valid_request r \<longleftrightarrow> valid_utf8 (rq_Cmd r) \<and> valid_utf8 (rq_Target r)
     \<and> sorted_wrt (<) (map fst (rq_Variables r)) \<and> (\<forall>(k, v) \<in> set (rq_Variables r). valid_utf8 k \<and> valid_utf8 v)"

definition valid_switch :: "wire_SwitchResult \<Rightarrow> bool" where
  "valid_switch r \<longleftrightarrow> list_all valid_utf8
       [ws_VirtualName r, ws_Previous r, ws_PreviousDatabase r, ws_Current r, ws_CurrentDatabase r] \<and> go_int (ws_ClosedConns r)"

definition valid_probe :: "wire_ProbeResult \<Rightarrow> bool" where
  "valid_probe r \<longleftrightarrow> list_all valid_utf8 [wp_VirtualName r, wp_Target r, wp_Database r, wp_Addr r, wp_Err r]"

definition valid_status :: "DatabaseStatus \<Rightarrow> bool" where
  "valid_status r \<longleftrightarrow> list_all valid_utf8
       [ds_VirtualName r, ds_Adapter r, ds_Current r, ds_CurrentDatabase r, ds_CurrentHost r]
     \<and> go_int (ds_CurrentPort r) \<and> go_int (ds_ActiveConns r)"

definition valid_response :: "Response \<Rightarrow> bool" where
  "valid_response r \<longleftrightarrow> list_all valid_utf8 [rs_Error r, rs_Target r, rs_CurrentTarget r]
     \<and> list_all valid_switch (rs_Switched r) \<and> list_all valid_utf8 (rs_Missing r)
     \<and> list_all valid_probe (rs_Probes r) \<and> list_all valid_status (rs_Databases r)
     \<and> sorted_wrt (<) (map fst (rs_Ports r)) \<and> (\<forall>(k, p) \<in> set (rs_Ports r). valid_utf8 k \<and> go_int p)"

lemma message_typed:
  "typed Request_ty (Request_val req) \<longleftrightarrow> valid_request req"
  "typed SwitchResult_ty (SwitchResult_val sw) \<longleftrightarrow> valid_switch sw"
  "typed ProbeResult_ty (ProbeResult_val pr) \<longleftrightarrow> valid_probe pr"
  "typed DatabaseStatus_ty (DatabaseStatus_val ds) \<longleftrightarrow> valid_status ds"
  by (auto simp: Request_ty_def Request_val_def valid_request_def SwitchResult_ty_def SwitchResult_val_def valid_switch_def
      ProbeResult_ty_def ProbeResult_val_def valid_probe_def DatabaseStatus_ty_def DatabaseStatus_val_def valid_status_def
      go_int_def case_prod_beta comp_def)

lemma response_typed: "typed Response_ty (Response_val resp) \<longleftrightarrow> valid_response resp"
  by (simp add: Response_ty_def Response_val_def valid_response_def message_typed list_all_iff go_int_def
      case_prod_beta comp_def) blast

lemma valid_utf8_literal [simp]:
  "valid_utf8 (c # s) \<longleftrightarrow> valid_utf8 s" if "of_char c < (0x80 :: nat)"
  using that by (simp add: valid_utf8_def to_valid.simps [of "c # s"] DecodeRune_def EncodeRune_def)

lemma message_types: "wf_ty maxNestingDepth Request_ty" "wf_ty maxNestingDepth Response_ty"
proof -
  have "wf_ty 2 Request_ty" "wf_ty 3 Response_ty"
    by (simp_all add: Request_ty_def Response_ty_def SwitchResult_ty_def ProbeResult_ty_def DatabaseStatus_ty_def)
  then show "wf_ty maxNestingDepth Request_ty" "wf_ty maxNestingDepth Response_ty"
    by (auto elim!: wf_ty_mono simp: maxNestingDepth_def)
qed


lemma typed_scalar:
  "typed TString v \<longleftrightarrow> (\<exists>s. v = GString s \<and> valid_utf8 s)" "typed TBool v \<longleftrightarrow> (\<exists>b. v = GBool b)"
  "typed TInt v \<longleftrightarrow> (\<exists>i. v = GInt i \<and> go_int i)"
  "typed (TSlice t) v \<longleftrightarrow> (\<exists>vs. v = GSlice vs \<and> list_all (typed t) vs)"
  "typed (TMap t) v \<longleftrightarrow> (\<exists>kvs. v = GMap kvs \<and> sorted_wrt (<) (map fst kvs) \<and> (\<forall>(k, v) \<in> set kvs. valid_utf8 k \<and> typed t v))"
  by (cases v; auto simp: go_int_def list_all_iff)+

lemma typed_struct: "typed (TStruct fs) v \<longleftrightarrow> (\<exists>vs. v = GStruct vs \<and> list_all2 (\<lambda>f. typed (snd (snd f))) fs vs)"
  by (cases v) (auto simp: typed_fields_iff)

text \<open>Every value of the type of requests is one.\<close>

lemma typed_request:
  assumes "typed Request_ty v"
  shows "v = Request_val (Request_of v) \<and> valid_request (Request_of v)"
proof -
  from assms obtain a b m where v: "v = GStruct [GString a, GString b, GMap m]"
    and valid: "valid_utf8 a" "valid_utf8 b" "sorted_wrt (<) (map fst m)"
    and m: "\<forall>(k, v) \<in> set m. valid_utf8 k \<and> (\<exists>s. v = GString s \<and> valid_utf8 s)"
    by (auto simp: Request_ty_def typed_struct typed_scalar list_all2_Cons1)
  have "map (\<lambda>(k, v). (k, GString v)) (map (\<lambda>(k, v). (k, gstring v)) m) = m" using m by (induction m) auto
  with m valid v show ?thesis by (fastforce simp: Request_of_def Request_val_def valid_request_def case_prod_beta comp_def)
qed

definition request_line :: "Request \<Rightarrow> bytes" where
  "request_line req = Marshal Request_ty (Request_val req) @ [newline]"

definition response_line :: "Response \<Rightarrow> bytes" where
  "response_line resp = Marshal Response_ty (Response_val resp) @ [newline]"

lemma newline_end: "skip_ws [newline] = []" "ends_number [newline]" "\<not> visible newline"
  by (simp_all add: newline_def skip_ws_def visible_def ends_number_def is_digit_def less_eq_char_def)

lemma Unmarshal_line:
  "valid_request req \<Longrightarrow> Unmarshal Request_ty (zero_val Request_ty) (request_line req) = Some (Request_val req)"
  "valid_response resp \<Longrightarrow> Unmarshal Response_ty (zero_val Response_ty) (response_line resp) = Some (Response_val resp)"
  by (simp_all add: request_line_def response_line_def Unmarshal_Marshal message_types message_typed response_typed newline_end)

lemma ReadBytes_line:
  assumes "\<not> cclosed c" and "cin c = l @ newline # rest" and "list_all visible l"
  shows "ReadBytes newline c = (Ok (l @ [newline]), c\<lparr>cin := rest\<rparr>)"
proof -
  have "\<forall>b \<in> set l. b \<noteq> newline" using assms(3) newline_end(3) by (auto simp: list_all_iff)
  then have "takeWhile (\<lambda>b. b \<noteq> newline) (cin c) = l" "dropWhile (\<lambda>b. b \<noteq> newline) (cin c) = newline # rest"
    by (simp_all add: assms(2) takeWhile_append2 dropWhile_append2 takeWhile_append dropWhile_append)
  with assms(1,2) show ?thesis by (simp add: ReadBytes_def)
qed

lemma ReadBytes_request:
  assumes "valid_request req" and "\<not> cclosed c" and "cin c = request_line req @ rest"
  shows "ReadBytes newline c = (Ok (request_line req), c\<lparr>cin := rest\<rparr>)"
  using ReadBytes_line [OF assms(2), of "Marshal Request_ty (Request_val req)" rest] assms
    Marshal_visible [OF message_types(1)] by (simp add: request_line_def message_typed)

lemma ReadBytes_response:
  assumes "valid_response resp" and "\<not> cclosed c" and "cin c = response_line resp @ rest"
  shows "ReadBytes newline c = (Ok (response_line resp), c\<lparr>cin := rest\<rparr>)"
  using ReadBytes_line [OF assms(2), of "Marshal Response_ty (Response_val resp)" rest] assms
    Marshal_visible [OF message_types(2)] by (simp add: response_line_def response_typed)

section \<open>One request, one answer\<close>

definition unlimited :: "conn \<Rightarrow> bool" where
  "unlimited c \<longleftrightarrow> \<not> cclosed c \<and> ccap c = None"

lemma writeResp_unlimited: "unlimited c \<Longrightarrow> writeResp resp (c, s) = (Ok (), (c\<lparr>cout := cout c @ response_line resp\<rparr>, s))"
  by (simp add: writeResp_def tryIO_def on_conn_def Write_def unlimited_def response_line_def)

text \<open>The request on a connection, if there is one.\<close>

definition received :: "conn \<Rightarrow> Request option" where
  "received c =
     (case ReadBytes newline c of
        (Ok line, _) \<Rightarrow> map_option Request_of (Unmarshal Request_ty (zero_val Request_ty) line)
      | _ \<Rightarrow> None)"

text \<open>The request to switch that a connection makes, if it makes one.\<close>

definition use_request :: "'s Daemon \<Rightarrow> conn \<Rightarrow> 's \<Rightarrow> Request option" where
  "use_request D c s =
     (case received c of
        Some req \<Rightarrow> if rq_Cmd req = CmdUse \<and> rq_Target req \<noteq> [] \<and> \<not> dm_IsClosed D s then Some req else None
      | None \<Rightarrow> None)"

lemma writeResp_daemon: "snd (snd (writeResp resp cs)) = snd cs"
  by (simp add: writeResp_def tryIO_def on_conn_def split: prod.splits res.splits)

lemma handleUse_daemon:
  "snd (snd (handleUse tbl D req (c, s))) =
     (if rq_Target req = [] then s else snd (dm_SwitchAll D (rq_Target req) (map_of (rq_Variables req)) s))"
proof -
  obtain q s1 where sw: "dm_SwitchAll D (rq_Target req) (map_of (rq_Variables req)) s = (q, s1)" by fastforce
  show ?thesis
    by (cases q; cases "dm_ProbeActive D s1") (simp_all add: handleUse_def sw writeResp_daemon bindIO_def)
qed

text \<open>The daemon after a connection: the switch that was requested has been tried, and nothing else.\<close>

lemma handle_daemon:
  assumes "handle json_err tbl D cfg (c, s) = (r, (c', s'))"
  shows "cclosed c'"
    and "s' = (case use_request D c s of
           Some req \<Rightarrow> snd (dm_SwitchAll D (rq_Target req) (map_of (rq_Variables req)) s) | None \<Rightarrow> s)"
proof -
  obtain q c1 where rd: "ReadBytes newline c = (q, c1)" by (cases "ReadBytes newline c")
  obtain c2 where c2: "c' = close_sock c2"
    and run: "catchIO (on_conn (ReadBytes newline)) (\<lambda>_. retIO ()) (handle_line json_err tbl D cfg) (c, s) = (r, (c2, s'))"
    using assms by (auto simp: handle_def split: prod.splits)
  from c2 show "cclosed c'" by (simp add: close_sock_def)
  show "s' = (case use_request D c s of
           Some req \<Rightarrow> snd (dm_SwitchAll D (rq_Target req) (map_of (rq_Variables req)) s) | None \<Rightarrow> s)"
  proof (cases q)
    case (Ok line)
    then have "s' = snd (snd (handle_line json_err tbl D cfg line (c1, s)))"
      using run rd by (simp add: catchIO_def on_conn_def)
    moreover have "received c = map_option Request_of (Unmarshal Request_ty (zero_val Request_ty) line)"
      using rd Ok by (simp add: received_def)
    ultimately show ?thesis
      by (cases "Unmarshal Request_ty (zero_val Request_ty) line")
        (simp_all add: use_request_def handle_line_def handleStatus_def Let_def writeResp_daemon handleUse_daemon CmdUse_def CmdStatus_def)
  qed (use run rd in \<open>auto simp: catchIO_def on_conn_def use_request_def received_def\<close>)
qed

text \<open>What a control server needs of a daemon: a switch that fails has changed nothing, and one that
  succeeds has set the target.\<close>

locale daemon =
  fixes D :: "'s Daemon"
  assumes switch_fails: "dm_SwitchAll D target vars s = (Err e, s') \<Longrightarrow> s' = s"
    and switch_sets: "dm_SwitchAll D target vars s = (Ok rs, s') \<Longrightarrow> dm_CurrentTarget D s' = (target, vars)"
    and switch_returns: "dm_SwitchAll D target vars s \<noteq> (Panic, s')"
begin

text \<open>The daemon changes only by a \<open>use\<close> request whose switch succeeds; it is then at the requested target.\<close>

lemma handle_switches:
  assumes "handle json_err tbl D cfg (c, s) = (r, (c', s'))" and "s' \<noteq> s"
  obtains req rs where "received c = Some req" and "rq_Cmd req = CmdUse" and "\<not> dm_IsClosed D s"
    and "dm_SwitchAll D (rq_Target req) (map_of (rq_Variables req)) s = (Ok rs, s')"
    and "dm_CurrentTarget D s' = (rq_Target req, map_of (rq_Variables req))"
proof -
  from handle_daemon(2) [OF assms(1)] assms(2) obtain req where req: "use_request D c s = Some req"
    and s': "s' = snd (dm_SwitchAll D (rq_Target req) (map_of (rq_Variables req)) s)" by (auto split: option.splits)
  then obtain q where sw: "dm_SwitchAll D (rq_Target req) (map_of (rq_Variables req)) s = (q, s')" by (metis prod.collapse)
  obtain rs where q: "q = Ok rs" using sw switch_returns switch_fails assms(2) by (cases q) auto
  show ?thesis
    using req sw q switch_sets [of "rq_Target req" "map_of (rq_Variables req)" s rs s']
    by (intro that [of req rs]) (auto simp: use_request_def split: option.splits if_splits)
qed

end

section \<open>The proxy behind the socket\<close>

interpretation proxy: daemon "proxy_daemon env order1 order2 order3 order4" for env order1 order2 order3 order4
proof
  fix target vars s s'
  show "s' = s" if "dm_SwitchAll (proxy_daemon env order1 order2 order3 order4) target vars s = (Err e, s')" for e
    using that SwitchAll_fail_unchanged [of order1 order2 target vars s e] by (simp add: proxy_daemon_def)
  show "dm_CurrentTarget (proxy_daemon env order1 order2 order3 order4) s' = (target, vars)"
    if "dm_SwitchAll (proxy_daemon env order1 order2 order3 order4) target vars s = (Ok rs, s')" for rs
    using that by (auto simp: proxy_daemon_def CurrentTarget_def elim: SwitchAll_Ok_cases)
  show "dm_SwitchAll (proxy_daemon env order1 order2 order3 order4) target vars s \<noteq> (Panic, s')"
    using SwitchAll_never_Panic [of order1 order2 target vars s] by (auto simp: proxy_daemon_def)
qed

text \<open>C14. Whatever arrives on the control socket, it changes the server only if it is a request to \<open>use\<close> a
  target whose switch succeeds, on a server that is not shutting down; the connection is closed in any
  case.\<close>

theorem control_changes_only_by_use:
  "case handle json_err tbl (proxy_daemon env order1 order2 order3 order4) cfg (c, s) of (r, (c', s')) \<Rightarrow>
     cclosed c' \<and> (s' = s \<or> (\<exists>req rs. received c = Some req \<and> rq_Cmd req = CmdUse \<and> \<not> srv_closed s
       \<and> SwitchAll order1 order2 (rq_Target req) (map_of (rq_Variables req)) s = (Ok rs, s')
       \<and> CurrentTarget s' = (rq_Target req, map_of (rq_Variables req))))"
proof -
  obtain r c' s' where run: "handle json_err tbl (proxy_daemon env order1 order2 order3 order4) cfg (c, s) = (r, (c', s'))"
    by (metis prod_cases3)
  show ?thesis
  proof (cases "s' = s")
    case True
    with handle_daemon(1) [OF run] show ?thesis unfolding run by simp
  next
    case False
    from proxy.handle_switches [OF run this] handle_daemon(1) [OF run] show ?thesis
      unfolding run by (auto simp: proxy_daemon_def IsClosed_def)
  qed
qed


lemma handle_request:
  assumes "valid_request req" and "unlimited c" and "cin c = request_line req" and "\<not> dm_IsClosed D s"
    and "handle json_err tbl D cfg (c, s) = (r, (c', s'))"
  shows "\<exists>c1. (if rq_Cmd req = CmdUse then handleUse tbl D req else if rq_Cmd req = CmdStatus then handleStatus D cfg
      else writeResp (no_response\<lparr>rs_Error := Sprintf tbl ''unknown command: %s'' [AStr (rq_Cmd req)]\<rparr>))
      (c\<lparr>cin := []\<rparr>, s) = (r, (c1, s')) \<and> c' = close_sock c1"
proof -
  have "ReadBytes newline c = (Ok (request_line req), c\<lparr>cin := []\<rparr>)"
    using assms(1-3) ReadBytes_request [of req c "[]"] by (simp add: unlimited_def)
  then have "catchIO (on_conn (ReadBytes newline)) (\<lambda>_. retIO ()) (handle_line json_err tbl D cfg) (c, s)
      = handle_line json_err tbl D cfg (request_line req) (c\<lparr>cin := []\<rparr>, s)" by (simp add: catchIO_def on_conn_def)
  with assms(5) obtain c1 where "handle_line json_err tbl D cfg (request_line req) (c\<lparr>cin := []\<rparr>, s) = (r, (c1, s'))"
    "c' = close_sock c1" by (auto simp: handle_def split: prod.splits)
  with assms(4) Unmarshal_line(1) [OF assms(1)] show ?thesis
    by (intro exI [of _ c1]) (auto simp: handle_line_def Let_def)
qed

lemma Call_line:
  assumes "dial path = Ok cl" and "unlimited cl" and "cin cl = response_line resp" and "valid_response resp"
  shows "Call json_err dial path req = (Ok resp, Some (close_sock (cl\<lparr>cin := [], cout := cout cl @ request_line req\<rparr>)))"
proof -
  have "Write (request_line req) cl = (Ok (), cl\<lparr>cout := cout cl @ request_line req\<rparr>)"
    using assms(2) by (simp add: Write_def unlimited_def)
  moreover have "ReadBytes newline (cl\<lparr>cout := cout cl @ request_line req\<rparr>)
      = (Ok (response_line resp), cl\<lparr>cin := [], cout := cout cl @ request_line req\<rparr>)"
    using ReadBytes_response [OF assms(4), of "cl\<lparr>cout := cout cl @ request_line req\<rparr>" "[]"] assms(2,3)
    by (simp add: unlimited_def)
  ultimately show ?thesis
    using assms(1) Unmarshal_line(2) [OF assms(4)] by (simp add: Call_def request_line_def)
qed

text \<open>What the server answers to \<open>use\<close>, and what it has done.\<close>

definition use_result :: "string list \<Rightarrow> Request \<Rightarrow> Server \<Rightarrow> Server \<Rightarrow> Response \<Rightarrow> bool" where
  "use_result order req s s' resp \<longleftrightarrow>
     (if switchable (st_dbs (srv_store s)) (rq_Target req) (map_of (rq_Variables req))
      then rs_OK resp \<and> rs_Target resp = rq_Target req \<and> CurrentTarget s' = (rq_Target req, map_of (rq_Variables req))
        \<and> map ws_VirtualName (rs_Switched resp) = order
        \<and> (\<forall>n d. st_dbs (srv_store s) n = Some d \<longrightarrow> ActiveConns n (srv_store s') = 0
             \<and> Current n (srv_store s') = target_for d (rq_Target req) (map_of (rq_Variables req)))
      else \<not> rs_OK resp \<and> s' = s)"

lemma handleUse_result:
  assumes "rq_Target req \<noteq> []" and "unlimited c" and "wf_store (srv_store s)" and "order_of order1 s" and "order_of order2 s"
    and "handleUse tbl (proxy_daemon env order1 order2 order3 order4) req (c, s) = (Ok (), (c', s'))"
  shows "\<exists>resp. c' = c\<lparr>cout := cout c @ response_line resp\<rparr> \<and> use_result order2 req s s' resp"
proof -
  let ?vars = "map_of (rq_Variables req)" and ?t = "rq_Target req"
  obtain q s1 where sw: "SwitchAll order1 order2 ?t ?vars s = (q, s1)" by fastforce
  have iff: "switchable (st_dbs (srv_store s)) ?t ?vars \<longleftrightarrow> (\<exists>rs. q = Ok rs)"
    using SwitchAll_Ok_iff [OF assms(4), of order2 ?t ?vars] sw by simp
  show ?thesis
  proof (cases q)
    case (Ok rs)
    with assms(1,2,6) sw obtain ps where
      w: "writeResp (no_response\<lparr>rs_OK := True, rs_Target := ?t, rs_Switched := map wire_switch rs,
        rs_Probes := map wire_probe ps\<rparr>) (c, s1) = (Ok (), (c', s'))" (is "writeResp ?resp _ = _")
      by (auto simp: handleUse_def proxy_daemon_def bindIO_eq_Ok_iff)
    have ok: "SwitchAll order1 order2 ?t ?vars s = (Ok rs, s1)" using sw Ok by simp
    note post = SwitchAll_post [OF assms(3-5) ok]
    have "map sr_VirtualName rs = order2" by (simp add: post(6) switch_result_def comp_def)
    then have "map ws_VirtualName (rs_Switched ?resp) = order2" by (simp add: wire_switch_def comp_def no_response_def)
    moreover have "ActiveConns n (srv_store s1) = 0" for n
      using post(4) [of n] by (auto simp: ActiveConns_def conns_of_def split: option.splits)
    moreover have "s' = s1" "c' = c\<lparr>cout := cout c @ response_line ?resp\<rparr>" using w by (simp_all add: writeResp_unlimited [OF assms(2)])
    ultimately show ?thesis using post(3,5) sw Ok iff
      by (intro exI [of _ ?resp]) (auto simp: use_result_def no_response_def)
  next
    case (Err e)
    then have "s1 = s" using sw SwitchAll_fail_unchanged [of order1 order2 ?t ?vars s e] by simp
    with Err assms(1,2,6) sw iff show ?thesis
      by (auto simp: handleUse_def proxy_daemon_def writeResp_unlimited use_result_def no_response_def
          dest!: sym [of "(_, _)"])
  next
    case Panic
    with sw SwitchAll_never_Panic [of order1 order2 ?t ?vars s] show ?thesis by simp
  qed
qed


text \<open>The \<open>use\<close> request, end to end: the client sends one line and returns the one line it gets.\<close>

lemma use_exchange:
  assumes "valid_request req" and "rq_Cmd req = CmdUse" and "rq_Target req \<noteq> []"
    and "dial path = Ok cl" and "unlimited cl" and "cin cl = cout c'"
    and "unlimited c" and "cin c = request_line req" and "cout c = []"
    and "wf_store (srv_store s)" and "order_of order1 s" and "order_of order2 s" and "\<not> srv_closed s"
    and "handle json_err tbl (proxy_daemon env order1 order2 order3 order4) cfg (c, s) = (Ok (), (c', s'))"
  shows "\<exists>resp. cout c' = response_line resp \<and> use_result order2 req s s' resp
     \<and> (valid_response resp \<longrightarrow>
          Call json_err' dial path req = (Ok resp, Some (close_sock (cl\<lparr>cin := [], cout := cout cl @ request_line req\<rparr>))))"
proof -
  let ?D = "proxy_daemon env order1 order2 order3 order4"
  have "\<not> dm_IsClosed ?D s" using assms(13) by (simp add: proxy_daemon_def IsClosed_def)
  from handle_request [OF assms(1,7,8) this assms(14)] assms(2) obtain c1 where
    use: "handleUse tbl ?D req (c\<lparr>cin := []\<rparr>, s) = (Ok (), (c1, s'))" and c': "c' = close_sock c1" by auto
  have "unlimited (c\<lparr>cin := []\<rparr>)" using assms(7) by (simp add: unlimited_def)
  from handleUse_result [OF assms(3) this assms(10-12) use] obtain resp where
    resp: "c1 = c\<lparr>cin := [], cout := cout c @ response_line resp\<rparr>" "use_result order2 req s s' resp" by auto
  then have out: "cout c' = response_line resp" using c' assms(9) by (simp add: close_sock_def)
  then have "Call json_err' dial path req = (Ok resp, Some (close_sock (cl\<lparr>cin := [], cout := cout cl @ request_line req\<rparr>)))"
    if "valid_response resp" using assms(6) that by (intro Call_line [where dial = dial, OF assms(4,5)]) simp
  with out resp(2) show ?thesis by blast
qed

text \<open>What \<open>status\<close> reports.\<close>

lemma Databases_all:
  assumes "order_of order s"
  shows "map fst (Databases order s) = order"
    and "(n, v) \<in> set (Databases order s) \<Longrightarrow> \<exists>d. st_dbs (srv_store s) n = Some d \<and> dv_Adapter v = db_adapter d
      \<and> dv_ActiveConns v = ActiveConns n (srv_store s) \<and> dv_Current v = Current n (srv_store s)"
proof -
  have "map fst (List.map_filter (\<lambda>n. map_option (\<lambda>d. (n, f n d)) (m n)) xs) = xs" if "set xs \<subseteq> dom m" for m f and xs :: "string list"
    using that by (induction xs) (auto simp: map_filter_simps)
  from this [of order "st_dbs (srv_store s)"] show "map fst (Databases order s) = order"
    using assms by (simp add: Databases_def order_of_def)
  show "\<exists>d. st_dbs (srv_store s) n = Some d \<and> dv_Adapter v = db_adapter d
      \<and> dv_ActiveConns v = ActiveConns n (srv_store s) \<and> dv_Current v = Current n (srv_store s)"
    if "(n, v) \<in> set (Databases order s)"
    using that by (auto simp: Databases_def List.map_filter_def)
qed

definition status_request :: Request where
  "status_request = \<lparr>rq_Cmd = CmdStatus, rq_Target = [], rq_Variables = []\<rparr>"

lemma status_request_line: "valid_request status_request" "status_line = request_line status_request"
proof -
  show "valid_request status_request" by (simp add: valid_request_def status_request_def CmdStatus_def)
  show "status_line = request_line status_request" by code_simp
qed

text \<open>The line of one database.\<close>

definition reports :: "Server \<Rightarrow> DatabaseStatus \<Rightarrow> bool" where
  "reports s ds \<longleftrightarrow>
     (\<exists>d. st_dbs (srv_store s) (ds_VirtualName ds) = Some d \<and> ds_Adapter ds = db_adapter d
        \<and> ds_ActiveConns ds = int (ActiveConns (ds_VirtualName ds) (srv_store s)))
     \<and> (case Current (ds_VirtualName ds) (srv_store s) of
          None \<Rightarrow> ds_Inactive ds
        | Some rt \<Rightarrow> \<not> ds_Inactive ds \<and> ds_Current ds = rt_Name rt \<and> ds_CurrentDatabase ds = rt_Database rt
            \<and> ds_CurrentHost ds = rt_Host rt \<and> ds_CurrentPort ds = rt_Port rt)"

lemma db_status_reports:
  assumes "order_of order s"
  shows "map ds_VirtualName (map db_status (Databases order s)) = order"
    and "list_all (reports s) (map db_status (Databases order s))"
proof -
  have n: "ds_VirtualName (db_status nd) = fst nd" for nd by (simp add: db_status_def Let_def split: option.splits)
  with Databases_all(1) [OF assms] show "map ds_VirtualName (map db_status (Databases order s)) = order" by (simp add: comp_def)
  have "reports s (db_status (n, v))" if "(n, v) \<in> set (Databases order s)" for n v
    using Databases_all(2) [OF assms that] by (cases "Current n (srv_store s)") (auto simp: reports_def db_status_def Let_def)
  then show "list_all (reports s) (map db_status (Databases order s))" by (auto simp: list_all_iff)
qed

text \<open>The answer to \<open>status\<close>.\<close>

definition status_response :: "Config \<Rightarrow> string list \<Rightarrow> Server \<Rightarrow> Response" where
  "status_response cfg order s =
     no_response\<lparr>rs_OK := True, rs_Ports := key_order (c_ListenPorts cfg), rs_CurrentTarget := fst (CurrentTarget s),
       rs_Databases := map db_status (Databases order s)\<rparr>"

lemma handle_status:
  assumes "unlimited c" and "cin c = status_line" and "cout c = []" and "\<not> srv_closed s"
    and "handle json_err tbl (proxy_daemon env order1 order2 order3 order4) cfg (c, s) = (r, (c', s'))"
  shows "s' = s" and "r = Ok ()" and "cout c' = response_line (status_response cfg order4 s)"
proof -
  let ?D = "proxy_daemon env order1 order2 order3 order4"
  have "\<not> dm_IsClosed ?D s" using assms(4) by (simp add: proxy_daemon_def IsClosed_def)
  from handle_request [OF status_request_line(1) assms(1) _ this assms(5)] assms(2) status_request_line(2) obtain c1 where
    "handleStatus ?D cfg (c\<lparr>cin := []\<rparr>, s) = (r, (c1, s'))" and c': "c' = close_sock c1"
    by (auto simp: status_request_def CmdUse_def CmdStatus_def)
  moreover have "handleStatus ?D cfg (c\<lparr>cin := []\<rparr>, s)
      = (Ok (), (c\<lparr>cin := [], cout := cout c @ response_line (status_response cfg order4 s)\<rparr>, s))"
    using assms(1) by (simp add: handleStatus_def status_response_def proxy_daemon_def unlimited_def writeResp_unlimited)
  ultimately show "s' = s" and "r = Ok ()" and "cout c' = response_line (status_response cfg order4 s)"
    using assms(3) by (auto simp: close_sock_def)
qed

lemma TryProbe_line:
  assumes "dial path = Ok cl" and "unlimited cl" and "cin cl = response_line resp" and "valid_response resp"
  shows "fst (TryProbe json_err dial path) = Ok resp"
proof -
  have "Write status_line cl = (Ok (), cl\<lparr>cout := cout cl @ status_line\<rparr>)"
    using assms(2) by (simp add: Write_def unlimited_def)
  moreover have "ReadBytes newline (cl\<lparr>cout := cout cl @ status_line\<rparr>)
      = (Ok (response_line resp), cl\<lparr>cin := [], cout := cout cl @ status_line\<rparr>)"
    using ReadBytes_response [OF assms(4), of "cl\<lparr>cout := cout cl @ status_line\<rparr>" "[]"] assms(2,3)
    by (simp add: unlimited_def)
  ultimately show ?thesis using assms(1) Unmarshal_line(2) [OF assms(4)] by (simp add: TryProbe_def)
qed

text \<open>C24. The \<open>status\<close> command against a running daemon: it leaves the daemon as it is, and the client gets the
  current target and every database once, each with its adapter, its number of connections and its
  current target, or as inactive if it has none.\<close>

theorem status_end_to_end:
  assumes "dial path = Ok cl" and "unlimited cl" and "cin cl = cout c'"
    and "unlimited c" and "cin c = status_line" and "cout c = []" and "order_of order4 s" and "\<not> srv_closed s"
    and "handle json_err tbl (proxy_daemon env order1 order2 order3 order4) cfg (c, s) = (r, (c', s'))"
    and "valid_response (status_response cfg order4 s)"
  shows "s' = s \<and> (\<exists>resp. fst (Call json_err' dial path status_request) = Ok resp
     \<and> rs_OK resp \<and> rs_CurrentTarget resp = fst (CurrentTarget s)
     \<and> map ds_VirtualName (rs_Databases resp) = order4 \<and> list_all (reports s) (rs_Databases resp))"
proof -
  note st = handle_status [OF assms(4-6,8,9)]
  from Call_line [where dial = dial, OF assms(1,2) _ assms(10)] assms(3) st(3)
  have "fst (Call json_err' dial path status_request) = Ok (status_response cfg order4 s)" by simp
  with st(1) db_status_reports [OF assms(7)] show ?thesis
    by (intro conjI exI [of _ "status_response cfg order4 s"]) (simp_all add: status_response_def no_response_def)
qed

section \<open>Examples\<close>

definition local_request :: Request where
  "local_request = \<lparr>rq_Cmd = CmdUse, rq_Target = ''local'', rq_Variables = []\<rparr>"

lemma local_request_valid: "valid_request local_request"
  by (simp add: valid_request_def local_request_def CmdUse_def)


text \<open>Every upstream is down: the probes report it.\<close>

definition down_env :: "nat env" where
  "down_env = sample_env\<lparr>env_dial := (\<lambda>_. Err (SysErr ''connection refused''))\<rparr>"

lemma ProbeActive_down: "\<exists>ps. ProbeActive down_env order s = Ok ps"
proof (induction order)
  case (Cons n order)
  obtain ps where ps: "ProbeActive down_env order s = Ok ps" using Cons by blast
  show ?case
  proof (cases "Current n (srv_store s)")
    case None
    with ps show ?thesis by (auto simp: Current_def split: option.splits)
  next
    case (Some rt)
    then obtain d where d: "st_dbs (srv_store s) n = Some d" "db_current d = Some rt"
      by (auto simp: Current_def split: option.splits)
    obtain r where "probe_job down_env n (db_adapter d) rt = Ok r"
      by (simp add: probe_job_def probeTarget_def probeMySQL_def probePostgres_def with_conn_def down_env_def Let_def)
    with d ps show ?thesis by simp
  qed
qed simp

definition sample_server :: Server where
  "sample_server = new_server sample_config Map.empty Map.empty"

lemma sample_server_ok:
  "wf_store (srv_store sample_server)" "order_of [''appdb'', ''shop''] sample_server"
  "order_of [''shop'', ''appdb''] sample_server" "\<not> srv_closed sample_server"
  unfolding sample_server_def by (rule new_server_simps(3), rule sample_switch(1), rule sample_switch(2), simp add: new_server_def)

definition sample_daemon :: "Server Daemon" where
  "sample_daemon = proxy_daemon down_env [''appdb'', ''shop''] [''shop'', ''appdb''] [''appdb'', ''shop''] [''appdb'', ''shop'']"

lemma handle_returns:
  assumes "unlimited c" and "valid_request req" and "cin c = request_line req"
  shows "fst (handle json_err tbl (proxy_daemon down_env order1 order2 order3 order4) cfg (c, s)) = Ok ()"
proof -
  let ?D = "proxy_daemon down_env order1 order2 order3 order4"
  have w: "fst (writeResp resp (c\<lparr>cin := []\<rparr>, s')) = Ok ()" for resp and s' :: Server
    using assms(1) by (simp add: writeResp_unlimited unlimited_def)
  have use: "fst (handleUse tbl ?D req (c\<lparr>cin := []\<rparr>, s)) = Ok ()"
  proof -
    obtain q s1 where sw: "SwitchAll order1 order2 (rq_Target req) (map_of (rq_Variables req)) s = (q, s1)" by fastforce
    obtain ps where "ProbeActive down_env order3 s1 = Ok ps" using ProbeActive_down by blast
    with w sw SwitchAll_never_Panic [of order1 order2 "rq_Target req" "map_of (rq_Variables req)" s] show ?thesis
      by (cases q) (simp_all add: handleUse_def proxy_daemon_def)
  qed
  have "ReadBytes newline c = (Ok (request_line req), c\<lparr>cin := []\<rparr>)"
    using assms ReadBytes_request [of req c "[]"] by (simp add: unlimited_def)
  then have "fst (handle json_err tbl ?D cfg (c, s)) = fst (handle_line json_err tbl ?D cfg (request_line req) (c\<lparr>cin := []\<rparr>, s))"
    by (simp add: handle_def catchIO_def on_conn_def split: prod.splits)
  also have "\<dots> = Ok ()"
    using use w Unmarshal_line(1) [OF assms(2)] by (simp add: handle_line_def handleStatus_def Let_def)
  finally show ?thesis .
qed

lemma sample_status_valid: "valid_response (status_response sample_config [''appdb'', ''shop''] sample_server)"
  by code_simp

theorem status_end_to_end_witness:
  "\<exists>c' resp. handle (\<lambda>_. EOF) (\<lambda>_. True) sample_daemon sample_config (fresh_conn status_line, sample_server)
      = (Ok (), (c', sample_server)) \<and> fst (Call (\<lambda>_. EOF) (\<lambda>_. Ok (fresh_conn (cout c'))) [] status_request) = Ok resp
    \<and> map ds_VirtualName (rs_Databases resp) = [''appdb'', ''shop'']"
proof -
  let ?c = "fresh_conn status_line"
  have c: "unlimited ?c" "cin ?c = status_line" "cout ?c = []" by (simp_all add: unlimited_def fresh_conn_def)
  obtain r c' s' where run: "handle (\<lambda>_. EOF) (\<lambda>_. True) sample_daemon sample_config (?c, sample_server) = (r, (c', s'))"
    using prod_cases3 by blast
  note ok = handle_status [OF c sample_server_ok(4) run [unfolded sample_daemon_def]]
  let ?cl = "fresh_conn (cout c')"
  have cl: "unlimited ?cl" "cin ?cl = cout c'" by (simp_all add: unlimited_def fresh_conn_def)
  obtain resp where "fst (Call (\<lambda>_. EOF) (\<lambda>_. Ok ?cl) [] status_request) = Ok resp"
    "map ds_VirtualName (rs_Databases resp) = [''appdb'', ''shop'']"
    using status_end_to_end [where dial = "\<lambda>_. Ok ?cl" and path = "[]" and json_err' = "\<lambda>_. EOF",
        OF refl cl c sample_server_ok(2,4) run [unfolded sample_daemon_def] sample_status_valid]
    by (elim conjE exE)
  with run ok(1,2) show ?thesis by (intro exI conjI) simp_all
qed

end
