(* ===== verification/Cli.thy ===== *)
theory Cli
  imports Control
begin

text \<open>
  \<open>cmd/dbpivot/main.go\<close>: the commands \<open>serve\<close>, \<open>use\<close> and \<open>status\<close>. A command runs on the two output streams
  and the socket files of the system, and returns, exits or crashes. The flags that cobra
  parses, the files, the system calls and the YAML parser are arguments; \<open>serve\<close> is modelled up to the bound
  listeners, with the signal handler apart, and logging only in the choice of its level.
\<close>

section \<open>Strings\<close>

text \<open>\<open>unicode.IsSpace\<close>.\<close>

definition IsSpace :: "nat \<Rightarrow> bool" where
  "IsSpace r \<longleftrightarrow> 9 \<le> r \<and> r \<le> 13 \<or> 0x2000 \<le> r \<and> r \<le> 0x200A
     \<or> r \<in> set [0x20, 0x85, 0xA0, 0x1680, 0x2028, 0x2029, 0x202F, 0x205F, 0x3000]"

function trim_left :: "string \<Rightarrow> string" where
  "trim_left s =
     (if s = [] then []
      else (case DecodeRune s of
              Some (r, w) \<Rightarrow> if IsSpace r then trim_left (drop w s) else s
            | None \<Rightarrow> s))"
  by pat_completeness auto

termination trim_left
  by (relation "measure length") (auto dest: DecodeRune_width)

declare trim_left.simps [simp del]

text \<open>\<open>utf8.DecodeLastRune\<close>: back to the nearest byte that starts a rune, four bytes at most.\<close>

definition RuneStart :: "char \<Rightarrow> bool" where
  "RuneStart c \<longleftrightarrow> (of_char c :: nat) < 0x80 \<or> 0xC0 \<le> (of_char c :: nat)"

definition DecodeLastRune :: "string \<Rightarrow> (nat \<times> nat) option" where
  "DecodeLastRune s =
     (case filter (\<lambda>k. k \<le> length s \<and> RuneStart (s ! (length s - k))) [1, 2, 3, 4] of
        [] \<Rightarrow> None
      | k # _ \<Rightarrow>
          (case DecodeRune (drop (length s - k) s) of
             Some (r, w) \<Rightarrow> if w = k then Some (r, w) else None
           | None \<Rightarrow> None))"

lemma DecodeLastRune_width: "DecodeLastRune s = Some (r, w) \<Longrightarrow> 0 < w \<and> w \<le> length s"
proof -
  assume a: "DecodeLastRune s = Some (r, w)"
  then obtain k ks where k: "filter (\<lambda>k. k \<le> length s \<and> RuneStart (s ! (length s - k))) [1, 2, 3, 4] = k # ks" and "w = k"
    by (auto simp: DecodeLastRune_def split: list.splits option.splits if_splits)
  have "k \<in> set (filter (\<lambda>k. k \<le> length s \<and> RuneStart (s ! (length s - k))) [1, 2, 3, 4])" unfolding k by simp
  then have "k \<le> length s" "k \<in> set [1, 2, 3, 4]" unfolding set_filter by blast+
  with \<open>w = k\<close> show ?thesis by auto
qed

function trim_right :: "string \<Rightarrow> string" where
  "trim_right s =
     (if s = [] then []
      else (case DecodeLastRune s of
              Some (r, w) \<Rightarrow> if IsSpace r then trim_right (take (length s - w) s) else s
            | None \<Rightarrow> s))"
  by pat_completeness auto

termination trim_right
  by (relation "measure length") (auto dest: DecodeLastRune_width)

declare trim_right.simps [simp del]

definition TrimSpace :: "string \<Rightarrow> string" where
  "TrimSpace s = trim_right (trim_left s)"

text \<open>\<open>strings.Split\<close> at one byte.\<close>

fun Split :: "char \<Rightarrow> string \<Rightarrow> string list" where
  "Split sep [] = [[]]"
| "Split sep (c # s) = (if c = sep then [] # Split sep s else (c # hd (Split sep s)) # tl (Split sep s))"

section \<open>Variables\<close>

fun parse_parts :: "string list \<Rightarrow> (string \<times> string) list \<Rightarrow> (string \<times> string) list res" where
  "parse_parts [] out = Ok out"
| "parse_parts (p # ps) out =
     (let part = TrimSpace p in
      if part = [] then parse_parts ps out
      else (case find_index (\<lambda>c. c = CHR ''='') part of
              None \<Rightarrow> Err (Errorf ''invalid --var %q: must be KEY=VAL'' [AStr part])
            | Some eq \<Rightarrow>
                if eq = 0 then Err (Errorf ''invalid --var %q: must be KEY=VAL'' [AStr part])
                else parse_parts ps (map_put (take eq part) (drop (eq + 1) part) out)))"

fun parse_raws :: "string list \<Rightarrow> (string \<times> string) list \<Rightarrow> (string \<times> string) list res" where
  "parse_raws [] out = Ok out"
| "parse_raws (raw # raws) out = bindR (parse_parts (Split (CHR '','') raw) out) (parse_raws raws)"

definition parseVars :: "string list \<Rightarrow> (string \<times> string) list res" where
  "parseVars raws = (if raws = [] then Ok [] else parse_raws raws [])"

section \<open>Output\<close>

text \<open>\<open>cl_sockets\<close> maps a path to the process that has bound a socket there.\<close>

record cli =
  cl_stdout :: string
  cl_stderr :: string
  cl_sockets :: "string \<rightharpoonup> nat"

datatype outcome = Done "go_err option" | Exit nat | Crash

definition to_stdout :: "string \<Rightarrow> cli \<Rightarrow> cli" where
  "to_stdout s w = w\<lparr>cl_stdout := cl_stdout w @ s\<rparr>"

definition to_stderr :: "string \<Rightarrow> cli \<Rightarrow> cli" where
  "to_stderr s w = w\<lparr>cl_stderr := cl_stderr w @ s\<rparr>"

text \<open>\<open>json.Encoder\<close> with \<open>SetIndent("", "  ")\<close>.\<close>

definition indent :: "nat \<Rightarrow> bytes" where
  "indent d = newline # concat (replicate d ''  '')"

definition emitJSON :: "Response \<Rightarrow> cli \<Rightarrow> cli" where
  "emitJSON resp = to_stdout (print_with indent '' '' 0 (to_json Response_ty (Response_val resp)) @ [newline])"

text \<open>\<open>errors.New(s)\<close>.\<close>

definition exitErrIfNotOK :: "Response \<Rightarrow> go_err option" where
  "exitErrIfNotOK resp = (if rs_OK resp then None else Some (Errorf ''%s'' [AStr (rs_Error resp)]))"

definition render_switch :: "(nat \<Rightarrow> bool) \<Rightarrow> string \<Rightarrow> wire_SwitchResult \<Rightarrow> string" where
  "render_switch tbl target r =
     (let prev = (if ws_Previous r = [] then ''-'' else ws_Previous r) in
      if ws_Skipped r
      then Sprintf tbl ''  %s: %s (db=%s) -> SKIPPED (no target %q; database is now inactive, closed %d connection(s))''
             [AStr (ws_VirtualName r), AStr prev, AStr (ws_PreviousDatabase r), AStr target, AInt (ws_ClosedConns r)] @ [newline]
      else Sprintf tbl ''  %s: %s (db=%s) -> %s (db=%s) (closed %d connection(s))''
             [AStr (ws_VirtualName r), AStr prev, AStr (ws_PreviousDatabase r), AStr (ws_Current r),
              AStr (ws_CurrentDatabase r), AInt (ws_ClosedConns r)] @ [newline])"

definition render_probe :: "(nat \<Rightarrow> bool) \<Rightarrow> wire_ProbeResult \<Rightarrow> string" where
  "render_probe tbl p =
     (if wp_OK p
      then Sprintf tbl ''  %s: OK (%s db=%s)'' [AStr (wp_VirtualName p), AStr (wp_Addr p), AStr (wp_Database p)] @ [newline]
      else Sprintf tbl ''  %s: FAILED (%s) - %s'' [AStr (wp_VirtualName p), AStr (wp_Addr p), AStr (wp_Err p)] @ [newline])"

definition renderUse :: "(nat \<Rightarrow> bool) \<Rightarrow> bool \<Rightarrow> Response \<Rightarrow> cli \<Rightarrow> outcome \<times> cli" where
  "renderUse tbl flagJSON resp w =
     (if flagJSON then (Done (exitErrIfNotOK resp), emitJSON resp w)
      else if \<not> rs_OK resp then
        (Exit 1, to_stderr (''error: '' @ rs_Error resp @ [newline]
                  @ (if rs_Missing resp = [] then []
                     else ''missing variables: '' @ Join (rs_Missing resp) '', '' @ [newline])) w)
      else
        (Done None, to_stdout (Sprintf tbl ''switched to target %q:'' [AStr (rs_Target resp)] @ [newline]
                      @ concat (map (render_switch tbl (rs_Target resp)) (rs_Switched resp))
                      @ (if rs_Probes resp = [] then []
                         else ''health (connect + auth + select 1):'' @ [newline]
                           @ concat (map (render_probe tbl) (rs_Probes resp)))) w))"

definition render_db :: "(nat \<Rightarrow> bool) \<Rightarrow> string \<Rightarrow> DatabaseStatus \<Rightarrow> string" where
  "render_db tbl target d =
     (if ds_Inactive d
      then Sprintf tbl ''  %s [%s] -> INACTIVE (no target %q declared; active=%d)''
             [AStr (ds_VirtualName d), AStr (ds_Adapter d), AStr target, AInt (ds_ActiveConns d)] @ [newline]
      else Sprintf tbl ''  %s [%s] -> %s (db=%s upstream=%s:%d active=%d)''
             [AStr (ds_VirtualName d), AStr (ds_Adapter d), AStr (ds_Current d), AStr (ds_CurrentDatabase d),
              AStr (ds_CurrentHost d), AInt (ds_CurrentPort d), AInt (ds_ActiveConns d)] @ [newline])"

definition renderStatus :: "(nat \<Rightarrow> bool) \<Rightarrow> bool \<Rightarrow> Response \<Rightarrow> cli \<Rightarrow> outcome \<times> cli" where
  "renderStatus tbl flagJSON resp w =
     (if flagJSON then (Done (exitErrIfNotOK resp), emitJSON resp w)
      else if \<not> rs_OK resp then (Exit 1, to_stderr (''error: '' @ rs_Error resp @ [newline]) w)
      else
        (let adapters = sort (map fst (rs_Ports resp));
             parts = map (\<lambda>a. Sprintf tbl ''%s=127.0.0.1:%d''
                        [AStr a, AInt (case map_of (rs_Ports resp) a of None \<Rightarrow> 0 | Some p \<Rightarrow> p)]) adapters in
         (Done None, to_stdout (Sprintf tbl ''listening %s  current target: %s''
                         [AStr (Join parts '' ''), AStr (rs_CurrentTarget resp)] @ [newline]
                       @ concat (map (render_db tbl (rs_CurrentTarget resp)) (rs_Databases resp))) w)))"

section \<open>Commands\<close>

text \<open>The files that a client reads: \<open>os.ReadFile\<close> and the YAML parser, as \<open>LoadSocketPath\<close> uses them.\<close>

record client_sys =
  cs_readFile :: "string \<Rightarrow> bytes res"
  cs_unmarshalSocket :: "bytes \<Rightarrow> string res"
  cs_dial :: "string \<Rightarrow> conn res"

definition socket_path :: "client_sys \<Rightarrow> string \<Rightarrow> string" where
  "socket_path sys flagConfig = LoadSocketPath (cs_readFile sys) (cs_unmarshalSocket sys) flagConfig"

definition useCmd ::
  "(bytes \<Rightarrow> go_err) \<Rightarrow> (nat \<Rightarrow> bool) \<Rightarrow> client_sys \<Rightarrow> string \<Rightarrow> bool \<Rightarrow> string list \<Rightarrow> string
     \<Rightarrow> cli \<Rightarrow> outcome \<times> cli" where
  "useCmd json_err tbl sys flagConfig flagJSON flagVars target w =
     (case parseVars flagVars of
        Err e \<Rightarrow> (Done (Some e), w)
      | Panic \<Rightarrow> (Crash, w)
      | Ok vars \<Rightarrow>
          (case fst (Call json_err (cs_dial sys) (socket_path sys flagConfig)
                       \<lparr>rq_Cmd = CmdUse, rq_Target = target, rq_Variables = vars\<rparr>) of
             Err e \<Rightarrow> (Done (Some e), w)
           | Panic \<Rightarrow> (Crash, w)
           | Ok resp \<Rightarrow> renderUse tbl flagJSON resp w))"

definition statusCmd ::
  "(bytes \<Rightarrow> go_err) \<Rightarrow> (nat \<Rightarrow> bool) \<Rightarrow> client_sys \<Rightarrow> string \<Rightarrow> bool \<Rightarrow> cli \<Rightarrow> outcome \<times> cli" where
  "statusCmd json_err tbl sys flagConfig flagJSON w =
     (case fst (Call json_err (cs_dial sys) (socket_path sys flagConfig) status_request) of
        Err e \<Rightarrow> (Done (Some e), w)
      | Panic \<Rightarrow> (Crash, w)
      | Ok resp \<Rightarrow> renderStatus tbl flagJSON resp w)"

text \<open>The end of \<open>main\<close>: the exit status and what has been written. A crash exits with 2 as well.\<close>

definition main_exit :: "(nat \<Rightarrow> bool) \<Rightarrow> outcome \<times> cli \<Rightarrow> nat \<times> cli" where
  "main_exit tbl r =
     (case fst r of
        Done None \<Rightarrow> (0, snd r)
      | Done (Some e) \<Rightarrow> (2, to_stderr (''error: '' @ err_text tbl e @ [newline]) (snd r))
      | Exit n \<Rightarrow> (n, snd r)
      | Crash \<Rightarrow> (2, snd r))"


section \<open>serve\<close>

text \<open>The system that \<open>serve\<close> runs on. \<open>sv_listen_unix\<close> and \<open>sv_chmod\<close> stand for the two calls of
  \<open>control.Listen\<close> that can fail.\<close>

record serve_sys =
  sv_pid :: nat
  sv_readFile :: "string \<Rightarrow> bytes res"
  sv_unmarshal :: "bytes \<Rightarrow> Config res"
  sv_dial :: "string \<Rightarrow> conn res"
  sv_listen_unix :: "string \<Rightarrow> unit res"
  sv_chmod :: "string \<Rightarrow> unit res"
  sv_listen_tcp :: "string \<Rightarrow> string res"
  sv_json_err :: "bytes \<Rightarrow> go_err"
  sv_isPrint :: "nat \<Rightarrow> bool"

text \<open>The orders of the loops over maps.\<close>

record serve_orders =
  so_plan :: "string list"
  so_commit :: "string list"
  so_probe :: "string list"
  so_listen :: "Server \<Rightarrow> (string \<times> string) list"

definition Remove :: "string \<Rightarrow> cli \<Rightarrow> cli" where
  "Remove path w = w\<lparr>cl_sockets := (cl_sockets w)(path := None)\<rparr>"

text \<open>\<open>Close\<close> on a Unix listener unlinks its path.\<close>

definition Listen :: "serve_sys \<Rightarrow> string \<Rightarrow> cli \<Rightarrow> unit res \<times> cli" where
  "Listen sys path w =
     (let w1 = Remove path w in
      case sv_listen_unix sys path of
        Ok _ \<Rightarrow>
          (let w2 = w1\<lparr>cl_sockets := (cl_sockets w1)(path \<mapsto> sv_pid sys)\<rparr> in
           case sv_chmod sys path of
             Ok _ \<Rightarrow> (Ok (), w2)
           | Err e \<Rightarrow> (Err e, Remove path w2)
           | Panic \<Rightarrow> (Panic, w2))
      | Err e \<Rightarrow> (Err e, w1)
      | Panic \<Rightarrow> (Panic, w1))"

text \<open>The handler of the two signals: shutdown, then \<open>ln.Close()\<close> and \<open>os.Remove(socketPath)\<close>.\<close>

definition signal_end :: "string \<Rightarrow> cli \<Rightarrow> cli" where
  "signal_end socketPath w = Remove socketPath (Remove socketPath w)"

definition on_signal :: "string list \<Rightarrow> string \<Rightarrow> Server \<times> cli \<Rightarrow> Server \<times> cli" where
  "on_signal order socketPath sw = (Shutdown order (fst sw), signal_end socketPath (snd sw))"

text \<open>From the parsed flags to the bound listeners; the server is the one that then accepts.\<close>

definition serve_start ::
  "serve_sys \<Rightarrow> 'c env \<Rightarrow> serve_orders \<Rightarrow> Config \<Rightarrow> string \<Rightarrow> string \<Rightarrow> string list \<Rightarrow> cli
     \<Rightarrow> (outcome \<times> Server option) \<times> cli" where
  "serve_start sys env ord cfg socketPath target flagVars w =
     (case bindR (parseVars flagVars) (\<lambda>vars. New (so_plan ord) (so_commit ord) cfg target (map_of vars)) of
        Err e \<Rightarrow> ((Done (Some e), None), w)
      | Panic \<Rightarrow> ((Crash, None), w)
      | Ok d \<Rightarrow>
          (case ProbeActive env (so_probe ord) d of
             Panic \<Rightarrow> ((Crash, None), w)
           | _ \<Rightarrow>
               (case Listen sys socketPath w of
                  (Err e, w') \<Rightarrow> ((Done (Some (Errorf ''bind control socket %s: %w'' [AStr socketPath, AWrap e])), None), w')
                | (Panic, w') \<Rightarrow> ((Crash, None), w')
                | (Ok _, w') \<Rightarrow>
                    (case Start_bind (sv_listen_tcp sys) (so_listen ord d) d of
                       (Ok _, d') \<Rightarrow> ((Done None, Some d'), w')
                     | (Err e, _) \<Rightarrow> ((Done (Some e), None), w')
                     | (Panic, _) \<Rightarrow> ((Crash, None), w')))))"

definition runServe ::
  "serve_sys \<Rightarrow> 'c env \<Rightarrow> serve_orders \<Rightarrow> string \<Rightarrow> string \<Rightarrow> string list \<Rightarrow> cli \<Rightarrow> (outcome \<times> Server option) \<times> cli" where
  "runServe sys env ord flagConfig target flagVars w =
     (case snd (Load (sv_readFile sys) (sv_unmarshal sys) flagConfig True) of
        Err e \<Rightarrow> ((Done (Some e), None), w)
      | Panic \<Rightarrow> ((Crash, None), w)
      | Ok cfg \<Rightarrow>
          (let socketPath = (if c_ControlSocket cfg = [] then DefaultControlSocket else c_ControlSocket cfg);
               start = serve_start sys env ord cfg socketPath target flagVars in
           case fst (TryProbe (sv_json_err sys) (sv_dial sys) socketPath) of
             Ok resp \<Rightarrow>
               if rs_OK resp
               then ((Exit 1, None), to_stderr (Sprintf (sv_isPrint sys) ''another daemon is already running at %s: %s''
                       [AStr socketPath, AStr (Marshal Response_ty (Response_val resp))] @ [newline]) w)
               else start w
           | Err e \<Rightarrow> start (if IsRefused (sv_isPrint sys) (Some e) then Remove socketPath w else w)
           | Panic \<Rightarrow> ((Crash, None), w)))"

definition newLogger :: "(nat \<Rightarrow> nat) \<Rightarrow> string \<Rightarrow> level" where
  "newLogger lower flagLogLevel =
     (let l = ToLower lower flagLogLevel in
      if l = ''debug'' then LevelDebug
      else if l = ''warn'' then LevelWarn
      else if l = ''error'' then LevelError
      else LevelInfo)"

section \<open>Variables on the command line\<close>

text \<open>The parts of the flags, and the variable a part sets.\<close>

definition var_parts :: "string list \<Rightarrow> string list" where
  "var_parts raws = filter (\<lambda>p. p \<noteq> []) (map TrimSpace (concat (map (Split (CHR '','')) raws)))"

definition key_val :: "string \<Rightarrow> string \<times> string" where
  "key_val p = (takeWhile (\<lambda>c. c \<noteq> CHR ''='') p, tl (dropWhile (\<lambda>c. c \<noteq> CHR ''='') p))"

definition sets_var :: "string \<Rightarrow> bool" where
  "sets_var p \<longleftrightarrow> CHR ''='' \<in> set p \<and> hd p \<noteq> CHR ''=''"

lemma find_index_takeWhile:
  "find_index P s = (if \<exists>c \<in> set s. P c then Some (length (takeWhile (\<lambda>c. \<not> P c) s)) else None)"
  by (induction s) auto

lemma parse_part:
  assumes "p \<noteq> []"
  shows "find_index (\<lambda>c. c = CHR ''='') p = (if CHR ''='' \<in> set p then Some (length (fst (key_val p))) else None)"
    and "sets_var p \<longleftrightarrow> CHR ''='' \<in> set p \<and> length (fst (key_val p)) \<noteq> 0"
    and "CHR ''='' \<in> set p \<Longrightarrow>
      (take (length (fst (key_val p))) p, drop (length (fst (key_val p)) + 1) p) = key_val p"
proof -
  show "find_index (\<lambda>c. c = CHR ''='') p = (if CHR ''='' \<in> set p then Some (length (fst (key_val p))) else None)"
    by (auto simp: find_index_takeWhile key_val_def)
  show "sets_var p \<longleftrightarrow> CHR ''='' \<in> set p \<and> length (fst (key_val p)) \<noteq> 0"
    using assms by (cases p) (auto simp: sets_var_def key_val_def)
  have "drop (Suc (length (takeWhile P p))) p = tl (dropWhile P p)" for P
    by (simp add: drop_Suc dropWhile_eq_drop tl_drop)
  then show "(take (length (fst (key_val p))) p, drop (length (fst (key_val p)) + 1) p) = key_val p"
    by (simp add: key_val_def takeWhile_eq_take [symmetric])
qed

definition put_all :: "string list \<Rightarrow> (string \<times> string) list \<Rightarrow> (string \<times> string) list" where
  "put_all ps out = fold (\<lambda>p. map_put (fst (key_val p)) (snd (key_val p))) ps out"

lemma parse_parts_spec:
  "parse_parts ps out =
     (let qs = filter (\<lambda>p. p \<noteq> []) (map TrimSpace ps) in
      if list_all sets_var qs then Ok (put_all qs out)
      else Err (Errorf ''invalid --var %q: must be KEY=VAL'' [AStr (hd (dropWhile sets_var qs))]))"
proof (induction ps arbitrary: out)
  case (Cons p ps)
  let ?q = "TrimSpace p"
  show ?case
  proof (cases "?q = []")
    case True
    with Cons show ?thesis by simp
  next
    case False
    note part = parse_part [OF False]
    from part(3) have kv: "CHR ''='' \<in> set ?q \<Longrightarrow> take (length (fst (key_val ?q))) ?q = fst (key_val ?q)
        \<and> drop (Suc (length (fst (key_val ?q)))) ?q = snd (key_val ?q)" by (metis Suc_eq_plus1 fst_conv snd_conv)
    show ?thesis using False Cons part(1,2) kv by (auto simp: Let_def put_all_def)
  qed
qed (simp add: put_all_def)

lemma parse_raws_spec:
  "parse_raws raws out =
     (if list_all sets_var (var_parts raws) then Ok (put_all (var_parts raws) out)
      else Err (Errorf ''invalid --var %q: must be KEY=VAL'' [AStr (hd (dropWhile sets_var (var_parts raws)))]))"
proof (induction raws arbitrary: out)
  case (Cons raw raws)
  let ?qs = "filter (\<lambda>p. p \<noteq> []) (map TrimSpace (Split (CHR '','') raw))"
  have vp: "var_parts (raw # raws) = ?qs @ var_parts raws" by (simp add: var_parts_def)
  show ?case
  proof (cases "list_all sets_var ?qs")
    case True
    then have "dropWhile sets_var (?qs @ zs) = dropWhile sets_var zs" for zs
      by (intro dropWhile_append2) (auto simp: list_all_iff)
    with True Cons show ?thesis by (simp add: vp parse_parts_spec put_all_def)
  next
    case False
    then have "hd (dropWhile sets_var (?qs @ zs)) = hd (dropWhile sets_var ?qs)" for zs
      by (auto simp: list_all_iff dropWhile_append)
    with False show ?thesis by (auto simp: vp parse_parts_spec)
  qed
qed (simp add: var_parts_def put_all_def)

lemma map_of_map_put: "sorted_wrt (<) (map fst kvs) \<Longrightarrow> map_of (map_put k v kvs) = (map_of kvs)(k \<mapsto> v)"
proof (induction k v kvs rule: map_put.induct)
  case (2 k v k' v' kvs)
  then show ?case by (auto simp: fun_upd_twist)
qed simp

lemma put_all_spec:
  assumes "sorted_wrt (<) (map fst out)"
  shows "sorted_wrt (<) (map fst (put_all ps out))" and "map_of (put_all ps out) = map_of out ++ map_of (rev (map key_val ps))"
proof -
  have "sorted_wrt (<) (map fst (put_all ps out)) \<and> map_of (put_all ps out) = map_of out ++ map_of (rev (map key_val ps))"
    using assms
  proof (induction ps arbitrary: out)
    case (Cons p ps)
    let ?out = "map_put (fst (key_val p)) (snd (key_val p)) out"
    have "sorted_wrt (<) (map fst ?out)" using Cons.prems by (rule map_put_sorted)
    from Cons.IH [OF this] map_of_map_put [OF Cons.prems] show ?case
      by (simp add: put_all_def map_add_def fun_eq_iff split: option.splits)
  qed (simp add: put_all_def)
  then show "sorted_wrt (<) (map fst (put_all ps out))" and "map_of (put_all ps out) = map_of out ++ map_of (rev (map key_val ps))" by blast+
qed

text \<open>C33. The variables on the command line: the flags are split at commas and trimmed, and empty parts are
  skipped. If every other part has a name and an equals sign, a variable gets the text behind the first
  equals sign of the last part that names it, and the names are distinct; otherwise the first part that
  does not is reported.\<close>

theorem parseVars_last_wins:
  "if list_all sets_var (var_parts raws)
   then \<exists>vars. parseVars raws = Ok vars \<and> sorted_wrt (<) (map fst vars) \<and> map_of vars = map_of (rev (map key_val (var_parts raws)))
   else parseVars raws = Err (Errorf ''invalid --var %q: must be KEY=VAL'' [AStr (hd (dropWhile sets_var (var_parts raws)))])"
proof (cases "raws = []")
  case True
  then show ?thesis by (simp add: parseVars_def var_parts_def)
next
  case False
  then show ?thesis using put_all_spec [of "[]" "var_parts raws"] by (simp add: parseVars_def parse_raws_spec)
qed


section \<open>The commands, end to end\<close>

definition exit_code :: "(nat \<Rightarrow> bool) \<Rightarrow> outcome \<times> cli \<Rightarrow> nat" where
  "exit_code tbl r = fst (main_exit tbl r)"

lemma renderUse_exit: "exit_code tbl (renderUse tbl flagJSON resp w) = (if rs_OK resp then 0 else if flagJSON then 2 else 1)"
  by (simp add: exit_code_def main_exit_def renderUse_def exitErrIfNotOK_def)

lemma use_result_OK: "use_result order req s s' resp \<Longrightarrow>
    rs_OK resp \<longleftrightarrow> switchable (st_dbs (srv_store s)) (rq_Target req) (map_of (rq_Variables req))"
  by (auto simp: use_result_def split: if_splits)


text \<open>What \<open>--json\<close> prints is the answer: the indented text decodes to the response it was made from.\<close>

lemma emitJSON_roundtrip:
  assumes "valid_response resp"
  shows "\<exists>text. emitJSON resp w = w\<lparr>cl_stdout := cl_stdout w @ text\<rparr>
     \<and> Unmarshal Response_ty (zero_val Response_ty) text = Some (Response_val resp)"
proof -
  let ?text = "print_with indent '' '' 0 (to_json Response_ty (Response_val resp)) @ [newline]"
  have "blank (indent d)" for d by (auto simp: blank_def indent_def newline_def list_all_iff)
  moreover have "blank '' ''" by (simp add: blank_def)
  ultimately have "Unmarshal Response_ty (zero_val Response_ty) ?text = Some (Response_val resp)"
    using assms by (intro Unmarshal_print_with) (simp_all add: message_types response_typed newline_end)
  then show ?thesis by (intro exI [of _ ?text]) (simp add: emitJSON_def to_stdout_def)
qed

text \<open>C27. A second \<open>dbpivot serve\<close> does not disturb the daemon that runs: when that one answers the probe, the
  second exits with 1 and a message; it has started no server and left the socket files alone, and the
  first is as it was.\<close>

theorem second_serve_exits:
  assumes "snd (Load (sv_readFile sys) (sv_unmarshal sys) flagConfig True) = Ok cfg'"
    and "sv_dial sys (c_ControlSocket cfg') = Ok cl" and "c_ControlSocket cfg' \<noteq> []" and "unlimited cl" and "cin cl = cout c'"
    and "unlimited c" and "cin c = status_line" and "cout c = []" and "\<not> srv_closed s"
    and "handle json_err tbl (proxy_daemon env order1 order2 order3 order4) cfg (c, s) = (r, (c', s'))"
    and "valid_response (status_response cfg order4 s)"
  shows "s' = s \<and> (\<exists>msg. runServe sys env' ord flagConfig target flagVars w = ((Exit 1, None), to_stderr msg w))
     \<and> cl_sockets (snd (runServe sys env' ord flagConfig target flagVars w)) = cl_sockets w"
proof -
  note st = handle_status [OF assms(6-10)]
  have "rs_OK (status_response cfg order4 s)" by (simp add: status_response_def)
  moreover have "fst (TryProbe (sv_json_err sys) (sv_dial sys) (c_ControlSocket cfg')) = Ok (status_response cfg order4 s)"
    using assms(5) st(3) by (intro TryProbe_line [where dial = "sv_dial sys", OF assms(2,4) _ assms(11)]) simp
  ultimately show ?thesis using assms(1,3) st(1) by (auto simp: runServe_def Let_def to_stderr_def)
qed


text \<open>The client looks for the socket where the daemon binds it, if the two readings of the file agree on it.\<close>

lemma same_socket:
  assumes "snd (Load (cs_readFile sys) unmarshal flagConfig logger) = Ok cfg"
    and "\<And>data cfg0. unmarshal data = Ok cfg0 \<Longrightarrow> cs_unmarshalSocket sys data = Ok (c_ControlSocket cfg0)"
  shows "socket_path sys flagConfig = c_ControlSocket cfg"
proof -
  from assms(1) obtain data where data: "cs_readFile sys flagConfig = Ok data"
    by (cases "cs_readFile sys flagConfig") (simp_all add: Load_def seqW_def)
  with assms(1) obtain cfg0 where cfg0: "unmarshal data = Ok cfg0"
    by (cases "unmarshal data") (simp_all add: Load_def seqW_def)
  with assms(1) data have "cfg = (if c_ControlSocket cfg0 = [] then cfg0\<lparr>c_ControlSocket := DefaultControlSocket\<rparr> else cfg0)"
    by (simp add: Load_def seqW_def Let_def split: res.splits if_splits)
  with data cfg0 assms(2) [OF cfg0] show ?thesis by (simp add: socket_path_def LoadSocketPath_def)
qed

text \<open>A daemon that shuts down still answers, with an error.\<close>

definition shutting_down :: Response where
  "shutting_down = no_response\<lparr>rs_Error := ''shutting down''\<rparr>"

lemma shutting_down_valid: "valid_response shutting_down"
  by (simp add: shutting_down_def no_response_def valid_response_def)

lemma handle_closed:
  assumes "unlimited c" and "cin c = status_line" and "cout c = []" and "srv_closed s"
    and "handle json_err tbl (proxy_daemon env order1 order2 order3 order4) cfg (c, s) = (r, (c', s'))"
  shows "s' = s" and "cout c' = response_line shutting_down"
proof -
  let ?D = "proxy_daemon env order1 order2 order3 order4"
  have "ReadBytes newline c = (Ok status_line, c\<lparr>cin := []\<rparr>)"
    using assms(1,2) ReadBytes_request [OF status_request_line(1), of c "[]"] status_request_line(2) by (simp add: unlimited_def)
  then have "catchIO (on_conn (ReadBytes newline)) (\<lambda>_. retIO ()) (handle_line json_err tbl ?D cfg) (c, s)
      = handle_line json_err tbl ?D cfg status_line (c\<lparr>cin := []\<rparr>, s)" by (simp add: catchIO_def on_conn_def)
  also have "\<dots> = writeResp shutting_down (c\<lparr>cin := []\<rparr>, s)"
    using Unmarshal_line(1) [OF status_request_line(1)] status_request_line(2) assms(4)
    by (simp add: handle_line_def proxy_daemon_def IsClosed_def shutting_down_def)
  also have "\<dots> = (Ok (), (c\<lparr>cin := [], cout := response_line shutting_down\<rparr>, s))"
    using assms(1,3) by (simp add: writeResp_unlimited unlimited_def)
  finally show "s' = s" and "cout c' = response_line shutting_down"
    using assms(5) by (auto simp: handle_def close_sock_def)
qed

lemma Listen_bound: "Listen sys path w = (Ok u, w') \<Longrightarrow> cl_sockets w' path = Some (sv_pid sys)"
  by (auto simp: Listen_def Let_def split: res.splits)

lemma serve_start_bound:
  assumes "serve_start sys env ord cfg path target flagVars w = ((Done None, Some d), w')"
  shows "cl_sockets w' path = Some (sv_pid sys)"
  using assms Listen_bound [of sys path w]
  by (auto simp: serve_start_def split: res.splits prod.splits)


text \<open>The status does not depend on the configured listen host: the command prints the loopback address for
  every listener.\<close>

lemma status_ignores_listen_host:
  "status_response (cfg\<lparr>c_ListenHost := host\<rparr>) order s = status_response cfg order s"
  by (simp add: status_response_def)

section \<open>Examples\<close>


lemma emitJSON_roundtrip_example:
  "\<exists>text. emitJSON (status_response sample_config [''appdb'', ''shop''] sample_server) \<lparr>cl_stdout = [], cl_stderr = [], cl_sockets = Map.empty\<rparr>
      = \<lparr>cl_stdout = text, cl_stderr = [], cl_sockets = Map.empty\<rparr>
    \<and> Unmarshal Response_ty (zero_val Response_ty) text
        = Some (Response_val (status_response sample_config [''appdb'', ''shop''] sample_server))"
  using emitJSON_roundtrip [OF sample_status_valid, of "\<lparr>cl_stdout = [], cl_stderr = [], cl_sockets = Map.empty\<rparr>"] by auto

definition sample_sys :: "conn \<Rightarrow> serve_sys" where
  "sample_sys cl =
     \<lparr>sv_pid = 2, sv_readFile = (\<lambda>_. Ok []), sv_unmarshal = (\<lambda>_. Ok sample_config), sv_dial = (\<lambda>_. Ok cl), sv_listen_unix = (\<lambda>_. Ok ()),
      sv_chmod = (\<lambda>_. Ok ()), sv_listen_tcp = (\<lambda>a. Ok a), sv_json_err = (\<lambda>_. EOF), sv_isPrint = (\<lambda>_. True)\<rparr>"

definition loaded_config :: Config where
  "loaded_config = sample_config\<lparr>c_ControlSocket := DefaultControlSocket\<rparr>"

lemma sample_Load: "snd (Load (sv_readFile (sample_sys cl)) (sv_unmarshal (sample_sys cl)) path True) = Ok loaded_config"
proof -
  have "snd (Validate True loaded_config) = Ok ()" by code_simp
  moreover have "c_ControlSocket sample_config = []" by (simp add: sample_config_def)
  ultimately show ?thesis by (simp add: Load_def sample_sys_def seqW_def Let_def flip: loaded_config_def)
qed

lemma loaded_socket: "c_ControlSocket loaded_config \<noteq> []"
  by (simp add: loaded_config_def DefaultControlSocket_def)

theorem second_serve_exits_witness:
  "\<exists>cl msg. runServe (sample_sys cl) down_env \<lparr>so_plan = [], so_commit = [], so_probe = [], so_listen = (\<lambda>_. [])\<rparr> ''c.yml'' ''local'' []
      \<lparr>cl_stdout = [], cl_stderr = [], cl_sockets = Map.empty\<rparr>
    = ((Exit 1, None), to_stderr msg \<lparr>cl_stdout = [], cl_stderr = [], cl_sockets = Map.empty\<rparr>)"
proof -
  let ?c = "fresh_conn status_line"
  have c: "unlimited ?c" "cin ?c = status_line" "cout ?c = []" by (simp_all add: unlimited_def fresh_conn_def)
  obtain r c' s' where run: "handle (\<lambda>_. EOF) (\<lambda>_. True) sample_daemon sample_config (?c, sample_server) = (r, (c', s'))"
    using prod_cases3 by blast
  let ?cl = "fresh_conn (cout c')"
  have cl: "unlimited ?cl" "cin ?cl = cout c'" by (simp_all add: unlimited_def fresh_conn_def)
  have dial: "sv_dial (sample_sys ?cl) (c_ControlSocket loaded_config) = Ok ?cl" by (simp add: sample_sys_def)
  from second_serve_exits [OF sample_Load dial loaded_socket cl c sample_server_ok(4) run [unfolded sample_daemon_def] sample_status_valid]
  show ?thesis by blast
qed


definition sample_orders :: serve_orders where
  "sample_orders = \<lparr>so_plan = [''appdb'', ''shop''], so_commit = [''appdb'', ''shop''], so_probe = [''appdb'', ''shop''], so_listen = (\<lambda>_. [])\<rparr>"

lemma listen_addrs_Ok: "list_all (\<lambda>a. ListenPort cfg a \<noteq> None) as \<Longrightarrow> \<exists>addrs. listen_addrs cfg as acc = Ok addrs"
  by (induction as arbitrary: acc) auto

lemma loaded_New: "\<exists>d. New [''appdb'', ''shop''] [''appdb'', ''shop''] loaded_config ''local'' Map.empty = Ok d"
proof -
  have dbs: "c_Databases loaded_config = c_Databases sample_config" "new_databases loaded_config = new_databases sample_config"
    by (simp_all add: loaded_config_def new_databases_def)
  have "list_all (\<lambda>a. ListenPort loaded_config a \<noteq> None) (UsedAdapters loaded_config)" by code_simp
  then obtain addrs where a: "listen_addrs loaded_config (UsedAdapters loaded_config) Map.empty = Ok addrs"
    using listen_addrs_Ok by blast
  let ?s = "new_server loaded_config addrs Map.empty"
  have o: "order_of [''appdb'', ''shop''] ?s"
    using sample_switch(1) [of addrs Map.empty] unfolding order_of_def new_server_simps(1) dbs(2) .
  have "\<exists>rs. fst (SwitchAll [''appdb'', ''shop''] [''appdb'', ''shop''] ''local'' Map.empty ?s) = Ok rs"
    unfolding SwitchAll_Ok_iff [OF o] new_server_simps(1) dbs(2) by (rule sample_switch(3))
  then obtain rs d where "SwitchAll [''appdb'', ''shop''] [''appdb'', ''shop''] ''local'' Map.empty ?s = (Ok rs, d)"
    by (metis prod.collapse)
  with a show ?thesis by (simp add: New_def)
qed

lemma sample_serve_start:
  "\<exists>d w'. serve_start (sample_sys cl) down_env sample_orders loaded_config path ''local'' [] w = ((Done None, Some d), w')"
proof -
  obtain d where d: "New [''appdb'', ''shop''] [''appdb'', ''shop''] loaded_config ''local'' Map.empty = Ok d" using loaded_New by blast
  obtain ps where ps: "ProbeActive down_env [''appdb'', ''shop''] d = Ok ps" using ProbeActive_down by blast
  obtain d' where b: "Start_bind (\<lambda>a. Ok a) [] d = (Ok (), d')" by (cases "srv_closed d") (simp_all add: Start_bind_def)
  obtain w' where l: "Listen (sample_sys cl) path w = (Ok (), w')" by (simp add: Listen_def sample_sys_def Let_def)
  have "bindR (parseVars []) (\<lambda>vars. New (so_plan sample_orders) (so_commit sample_orders) loaded_config ''local'' (map_of vars)) = Ok d"
    using d by (simp add: parseVars_def sample_orders_def)
  moreover have "ProbeActive down_env (so_probe sample_orders) d = Ok ps" using ps by (simp add: sample_orders_def)
  moreover have "Start_bind (sv_listen_tcp (sample_sys cl)) (so_listen sample_orders d) d = (Ok (), d')"
    using b by (simp add: sample_orders_def sample_sys_def)
  ultimately show ?thesis unfolding serve_start_def by (simp add: l)
qed


end
