(* ===== verification/Spec2Isabelle.thy ===== *)
theory Spec2Isabelle
  imports Interleaving Refinement Cli
begin

text \<open>
  Verification of dbpivot, a local proxy that sits between applications and their databases and can be
  switched from one upstream target to another while it runs. The program is written in Go; file names
  are relative to \<open>src/\<close>.

  \<^bold>\<open>The program.\<close> A configuration (\<open>internal/config\<close>) declares virtual databases, each with an adapter
  (PostgreSQL, MySQL or MongoDB) and named targets. The proxy (\<open>internal/proxy\<close>) listens on one port per
  adapter. A client connection is dispatched by adapter, the database it names is looked up, the current
  target is dialled and logged in to with the target's credentials, the client is told that it is logged
  in, and from then on the bytes are relayed. \<open>SwitchAll\<close> moves every database to another target and closes
  the open connections. The operator uses the commands \<open>serve\<close>, \<open>use\<close> and \<open>status\<close> (\<open>cmd/dbpivot\<close>), which
  talk to the daemon over a Unix socket (\<open>internal/control\<close>).

  \<^bold>\<open>The theories\<close>, in the order of their imports:

  \<^item> \<open>GoBase\<close>: the prelude. Bytes and strings, machine words, errors as values, results that are a value,
    an error or a panic, slicing with its bounds checks, and the locale \<open>codec\<close> of encoders that a reader
    inverts.
  \<^item> \<open>Variables\<close> (\<open>config/variables.go\<close>) and \<open>Config\<close> (\<open>config/config.go\<close>): templates, validation, loading.
  \<^item> \<open>Database\<close> (\<open>proxy/database.go\<close>): targets of a database and the registry of its connections, over an
    explicit store of objects; the locale \<open>target_switching\<close> is what the server needs of a database.
  \<^item> \<open>Server\<close> (\<open>proxy/server.go\<close>: \<open>New\<close>, \<open>SwitchAll\<close>, queries, binding, \<open>Shutdown\<close>).
  \<^item> \<open>Interleaving\<close>: handlers and switches as goroutines, one step per critical section.
  \<^item> \<open>Refinement\<close>: an abstract pivot and the proof that the server implements it, through the locale
    \<open>simulation\<close>.
  \<^item> \<open>GoFmt\<close>: \<open>fmt.Sprintf\<close>, error texts, quoting and UTF-8. \<open>GoIO\<close>: connections, programs on them, the locale
    \<open>framing\<close> of message protocols, and the environment (dialling, TLS, SCRAM, RSA, randomness, clock).
  \<^item> \<open>PgWire\<close> (\<open>proxy/pgwire.go\<close>), \<open>PgAuth\<close> (\<open>proxy/auth.go\<close>), \<open>PgServer\<close> (\<open>dispatch\<close>, \<open>handleStartup\<close> of
    \<open>proxy/server.go\<close>).
  \<^item> \<open>Digest\<close>: SHA-1 and SHA-256. \<open>MysqlWire\<close> (\<open>proxy/mysqlwire.go\<close>), \<open>MysqlAuth\<close> (\<open>proxy/mysqlauth.go\<close>),
    \<open>MysqlServer\<close> (\<open>proxy/mysqlclient.go\<close>, \<open>proxy/mysqlserver.go\<close>).
  \<^item> \<open>Bson\<close> (\<open>proxy/bson.go\<close>), \<open>MongoWire\<close> (\<open>proxy/mongowire.go\<close>), \<open>MongoCommands\<close>
    (\<open>proxy/mongohandshake.go\<close>, \<open>proxy/mongoadmin.go\<close>), \<open>MongoAuth\<close> (\<open>proxy/mongoauth.go\<close>), \<open>MongoServer\<close>
    (\<open>proxy/mongoserver.go\<close>).
  \<^item> \<open>Handler\<close>: the state of a connection handler and the locale \<open>session\<close>, which the three protocols
    instantiate: connecting changes the server only if it succeeds, the rest of a handler is common.
  \<^item> \<open>Serve\<close> (\<open>handleConn\<close>, \<open>acceptLoop\<close>, \<open>Start\<close>) and \<open>Probe\<close> (\<open>proxy/probe.go\<close>).
  \<^item> \<open>Json\<close>: \<open>encoding/json\<close> for the Go types of the control protocol. \<open>Control\<close> (\<open>control/protocol.go\<close>,
    \<open>control/server.go\<close>, \<open>control/client.go\<close>), with the locale \<open>daemon\<close> for the interface of that name.
  \<^item> \<open>Cli\<close> (\<open>cmd/dbpivot/main.go\<close>): the three commands.
  \<^item> This theory: the daemon as a whole.

  \<^bold>\<open>Correspondence.\<close> A struct is a record and keeps its field names behind a prefix; an operation keeps its
  name. A pointer to a database is its name, a pointer to a connection a number in the store. A function
  that returns \<open>(x, error)\<close> returns \<open>Ok x\<close> or \<open>Err e\<close>, and a run-time panic is the result \<open>Panic\<close>; error values keep
  their format and arguments, so that wrapping and the printed text are those of the source. A function
  on connections is a program of type \<open>io\<close>: it takes the connection, with all the bytes the peer will
  have sent and the point where writes begin to fail, and returns a result and the connection. The
  theorems hold for every such connection, hence for every peer. Loops over Go maps take the order of
  the iteration as an argument and the theorems hold for every order.

  \<^bold>\<open>What the lemmas show.\<close>

  \<^item> The switch: it is all or nothing (\<open>SwitchAll_all_or_nothing\<close>), moves every database, closes every
    registered connection and reports it (\<open>SwitchAll_switches_all\<close>). The registry stays consistent
    (\<open>registry_invariant\<close>), also when handlers and switches interleave (\<open>registered_conns_current\<close>), but a
    handler that is dialling can outlive a switch (\<open>overtaken_connection_survives\<close>) and two switches can mix
    (\<open>concurrent_use_mixes_targets\<close>).
  \<^item> The handlers fail closed: a client is told that it is logged in only over an upstream connection that
    was logged in with the target's credentials, over TLS where the target requires it
    (\<open>connect_upstream_fail_closed\<close> and its MySQL and MongoDB counterparts, on the soundness of the three
    logins); against a well-behaved upstream they succeed and relay (\<open>startup_proxied\<close>, \<open>mysql_proxied\<close>,
    \<open>mongo_proxied\<close>); and however they end, they leave the server as it was (\<open>handleConn_cleans_up\<close>).
  \<^item> The wire formats: encoders and parsers are inverse; the BSON reader never reads out of bounds; one
    MySQL packet makes the proxy panic (\<open>dispatchMySQL_panics\<close>).
  \<^item> The configuration: validation accepts exactly the configurations the rules describe
    (\<open>Validate_iff_valid_config\<close>); templates resolve exactly when every variable is given.
  \<^item> The operator: \<open>use\<close> and \<open>status\<close> from the command line to the server and back, through the JSON text on
    the socket (\<open>use_command_end_to_end\<close>, \<open>status_end_to_end\<close>); what is on the socket is of its type
    (\<open>decoded_request_typed\<close>) and changes the server only by a switch (\<open>control_changes_only_by_use\<close>); a second
    daemon does not disturb the first (\<open>second_serve_exits\<close>), except while that one shuts down
    (\<open>restart_loses_socket\<close>).
  \<^item> The whole: the daemon refines an abstract pivot (\<open>daemon_refines_pivot\<close>, on \<open>server_refines_pivot\<close>).

  \<^bold>\<open>Termination and bounds.\<close> Every loop is a total function. A loop that reads terminates because each round
  consumes a byte of the finite input; the parsers because the rest is shorter; \<open>dispatch\<close> reads at most
  two startup packets, as the source does; JSON nests to the depth of 10000 that \<open>encoding/json\<close> allows. No
  definition uses fuel. Integers are words where the source has a fixed width, and the lengths that
  \<open>int\<close> arithmetic can overflow are computed with wrap-around.

  \<^bold>\<open>Not modelled.\<close> Deadlines and time-outs (a connection that stalls is one whose stream ends with an
  error); logging, except the lines about probes; the goroutines of \<open>pipeBidi\<close>, of the probes and of the
  accept loops as interleaved steps, since they share no state beyond what \<open>Interleaving\<close> covers; the wait
  in \<open>Shutdown\<close>; the stack depth of recursive parsers. The YAML decoder, cobra's flags, the SCRAM library,
  TLS, RSA and PEM, and the system calls are arguments of the definitions that use them. The server in
  \<open>e2e\<close> is a test client and no part of the program.
\<close>

section \<open>The daemon\<close>

text \<open>What a daemon does, one event after the other: it serves a connection to the control socket, it serves
  a client of any adapter from the first byte to the last, or it is told to stop. The label is what the
  event asks of the pivot.\<close>

definition asked :: "conn \<Rightarrow> Server \<Rightarrow> cmd list" where
  "asked c s =
     (case received c of
        Some req \<Rightarrow>
          if rq_Cmd req = CmdUse \<and> rq_Target req \<noteq> [] \<and> \<not> srv_closed s
          then [Use (rq_Target req) (map_of (rq_Variables req))] else []
      | None \<Rightarrow> [])"

inductive daemon_step :: "'c env \<Rightarrow> Server \<Rightarrow> cmd list \<Rightarrow> Server \<Rightarrow> bool" for env where
  step_control: "order_of order1 s \<Longrightarrow> order_of order2 s \<Longrightarrow>
    handle json_err tbl (proxy_daemon env order1 order2 order3 order4) cfg (c, s) = (r, (c', s')) \<Longrightarrow>
    daemon_step env s (asked c s) s'"
| step_client: "ready h \<Longrightarrow> handleConn env adapter h = (r, h') \<Longrightarrow> daemon_step env (h_srv h) [] (h_srv h')"
| step_signal: "order_of order s \<Longrightarrow> daemon_step env s [Down] (Shutdown order s)"

lemma fold_fold: "fold (fold f) xss x = fold f (concat xss) x"
  by (induction xss arbitrary: x) simp_all

lemma restored_pivot: "restored s s' \<Longrightarrow> pivot_of s' = pivot_of s"
  by (simp add: restored_def pivot_of_def)

lemma control_pivot:
  assumes "wf_store (srv_store s)" and "order_of order1 s" and "order_of order2 s"
    and "handle json_err tbl (proxy_daemon env order1 order2 order3 order4) cfg (c, s) = (r, (c', s'))"
  shows "wf_store (srv_store s') \<and> pivot_of s' = fold pivot_step (asked c s) (pivot_of s)"
proof -
  have D: "dm_IsClosed (proxy_daemon env order1 order2 order3 order4) s = srv_closed s"
    "dm_SwitchAll (proxy_daemon env order1 order2 order3 order4) = SwitchAll order1 order2"
    by (simp_all add: proxy_daemon_def IsClosed_def)
  note s' = handle_daemon(2) [OF assms(4), unfolded use_request_def D]
  show ?thesis
    using assms(1) s' refine_use [OF assms(1-3) refl]
    by (cases "received c") (auto simp: asked_def simp del: pivot_step.simps)
qed

lemma daemon_step_pivot:
  assumes "daemon_step env s cs s'" and "wf_store (srv_store s)"
  shows "wf_store (srv_store s') \<and> pivot_of s' = fold pivot_step cs (pivot_of s)"
  using assms
proof (induction rule: daemon_step.induct)
  case (step_control order1 s order2 json_err tbl order3 order4 cfg c r c' s')
  then show ?case by (intro control_pivot)
next
  case (step_client h adapter r h')
  note res = handleConn_restored(1) [OF step_client(1,2)]
  then have "wf_store (srv_store (h_srv h'))" by (simp add: restored_def)
  with restored_pivot [OF res] show ?case by simp
next
  case (step_signal order s)
  then show ?case using refine_down by simp
qed

interpretation daemon_sim: simulation "daemon_step env" "fold pivot_step" pivot_of "\<lambda>s. wf_store (srv_store s)" for env
  by unfold_locales (use daemon_step_pivot in blast)+

text \<open>C4. The daemon as a whole is a pivot. Whatever its operator and its clients send, over any number of
  control connections, client sessions of the three protocols and stop signals, each finished before
  the next, its targets and its open connections are what the \<open>use\<close> requests and the signals alone
  make of the abstract pivot: a client session changes nothing, and neither does any other request.\<close>

theorem daemon_refines_pivot:
  assumes "run (daemon_step env) s css s'" and "wf_store (srv_store s)"
  shows "pivot_of s' = fold pivot_step (concat css) (pivot_of s) \<and> wf_store (srv_store s')"
  using daemon_sim.run_view [OF assms] daemon_sim.run_ok [OF assms] by (simp add: fold_fold)

lemma local_request_received: "received (fresh_conn (request_line local_request)) = Some local_request"
proof -
  let ?c = "fresh_conn (request_line local_request)"
  have "ReadBytes newline ?c = (Ok (request_line local_request), ?c\<lparr>cin := []\<rparr>)"
    using ReadBytes_request [OF local_request_valid, of ?c "[]"] by (simp add: fresh_conn_def)
  then show ?thesis using Unmarshal_line(1) [OF local_request_valid] by (simp add: received_def)
qed

text \<open>A request to use \<open>local\<close>, on a fresh server.\<close>

theorem daemon_refines_pivot_witness:
  "\<exists>s'. run (daemon_step down_env) sample_server [[Use ''local'' Map.empty]] s' \<and> pv_target (pivot_of s') = (''local'', Map.empty)"
proof -
  let ?c = "fresh_conn (request_line local_request)"
  obtain r c' s' where
    h: "handle (\<lambda>_. EOF) (\<lambda>_. True) sample_daemon sample_config (?c, sample_server) = (r, (c', s'))"
    using prod_cases3 by blast
  have "asked ?c sample_server = [Use ''local'' Map.empty]"
    unfolding asked_def local_request_received using sample_server_ok(4) by (simp add: local_request_def)
  with step_control [OF sample_server_ok(2,3) h [unfolded sample_daemon_def]]
  have run: "run (daemon_step down_env) sample_server [[Use ''local'' Map.empty]] s'" by simp
  have "usable (pivot_of sample_server) ''local'' Map.empty"
    unfolding usable_pivot sample_server_def new_server_simps(1) by (rule sample_switch(3))
  with daemon_refines_pivot [OF run sample_server_ok(1)] have "pv_target (pivot_of s') = (''local'', Map.empty)" by simp
  with run show ?thesis by blast
qed

end
